(* ===== verification/Rfc4648.thy ===== *)
theory Rfc4648
  imports Main
begin

text \<open>
  Base64 of RFC 4648, the concrete codec that the witnesses put in the place of the framework's
  \<open>flz::base64encode\<close> and \<open>flz::base64decode\<close>. The model of the program never refers to it.
\<close>

definition b64_alphabet :: string where
  "b64_alphabet = ''ABCDEFGHIJKLMNOPQRSTUVWXYZabcdefghijklmnopqrstuvwxyz0123456789+/''"

definition b64_char :: "nat \<Rightarrow> char" where
  "b64_char n = b64_alphabet ! n"

definition b64_index :: "char \<Rightarrow> nat" where
  "b64_index c = length (takeWhile (\<lambda>d. d \<noteq> c) b64_alphabet)"

fun rfc_encode :: "string \<Rightarrow> string" where
  "rfc_encode [] = []"
| "rfc_encode [a] =
     [b64_char (of_char a div 4), b64_char (of_char a mod 4 * 16), CHR ''='', CHR ''='']"
| "rfc_encode [a, b] =
     [b64_char (of_char a div 4), b64_char (of_char a mod 4 * 16 + of_char b div 16),
      b64_char (of_char b mod 16 * 4), CHR ''='']"
| "rfc_encode (a # b # c # xs) =
     [b64_char (of_char a div 4), b64_char (of_char a mod 4 * 16 + of_char b div 16),
      b64_char (of_char b mod 16 * 4 + of_char c div 64), b64_char (of_char c mod 64)]
     @ rfc_encode xs"

fun rfc_decode :: "string \<Rightarrow> string" where
  "rfc_decode (w # x # y # z # xs) =
     (let w' = b64_index w; x' = b64_index x; y' = b64_index y; z' = b64_index z
      in if y = CHR ''='' then [char_of (w' * 4 + x' div 16)]
         else if z = CHR ''='' then [char_of (w' * 4 + x' div 16), char_of (x' mod 16 * 16 + y' div 4)]
         else [char_of (w' * 4 + x' div 16), char_of (x' mod 16 * 16 + y' div 4),
               char_of (y' mod 4 * 64 + z')] @ rfc_decode xs)"
| "rfc_decode _ = []"

lemma b64_all: "\<forall>n \<in> set [0..<64]. b64_index (b64_char n) = n \<and> b64_char n \<in> set b64_alphabet \<and>
    b64_char n \<noteq> CHR ''=''"
  by code_simp

lemma b64_char [simp]:
  assumes "n < 64"
  shows "b64_index (b64_char n) = n" "b64_char n \<in> set b64_alphabet" "b64_char n \<noteq> CHR ''=''"
  using b64_all assms by auto

lemma rfc_sextets [simp]:
  "of_char a div 4 < (64 :: nat)" "of_char a mod 4 * 16 < (64 :: nat)"
  "of_char a mod 4 * 16 + of_char b div 16 < (64 :: nat)" "of_char b mod 16 * 4 < (64 :: nat)"
  "of_char b mod 16 * 4 + of_char c div 64 < (64 :: nat)" "of_char c mod 64 < (64 :: nat)"
proof -
  have "(of_char a :: nat) < 256" "(of_char b :: nat) < 256" "(of_char c :: nat) < 256" by simp_all
  then show "of_char a div 4 < (64 :: nat)" "of_char a mod 4 * 16 < (64 :: nat)"
    "of_char a mod 4 * 16 + of_char b div 16 < (64 :: nat)" "of_char b mod 16 * 4 < (64 :: nat)"
    "of_char b mod 16 * 4 + of_char c div 64 < (64 :: nat)" "of_char c mod 64 < (64 :: nat)"
    by linarith+
qed

lemma rfc_byte1: "(a::nat) div 4 * 4 + (a mod 4 * 16) div 16 = a"
  by simp

lemma rfc_byte2: "(b::nat) < 256 \<Longrightarrow> (a::nat) div 4 * 4 + (a mod 4 * 16 + b div 16) div 16 = a"
  by (simp add: div_mult2_eq [symmetric])

lemma rfc_byte3: "(b::nat) < 256 \<Longrightarrow> (a mod 4 * 16 + b div 16) mod 16 * 16 + (b mod 16 * 4) div 4 = b"
  by (simp add: mod_mult_self3 [of "a mod 4" 16 "b div 16"])

lemma rfc_byte4: "(b::nat) < 256 \<Longrightarrow> (c::nat) < 256 \<Longrightarrow>
    (a mod 4 * 16 + b div 16) mod 16 * 16 + (b mod 16 * 4 + c div 64) div 4 = b"
  by (simp add: mod_mult_self3 [of "a mod 4" 16 "b div 16"] div_mult2_eq [symmetric])

lemma rfc_byte5: "(c::nat) < 256 \<Longrightarrow> (b mod 16 * 4 + c div 64) mod 4 * 64 + c mod 64 = c"
  by (simp add: mod_mult_self3 [of "b mod 16" 4 "c div 64"])

lemma rfc_roundtrip: "rfc_decode (rfc_encode x) = x"
proof (induction x rule: rfc_encode.induct)
  case (2 a)
  show ?case by (simp add: Let_def rfc_byte1)
next
  case (3 a b)
  show ?case
    using rfc_byte2 [of "of_char b" "of_char a"] rfc_byte3 [of "of_char b" "of_char a"]
    by (simp add: Let_def)
next
  case (4 a b c xs)
  then show ?case
    using rfc_byte2 [of "of_char b" "of_char a"] rfc_byte5 [of "of_char c" "of_char b"]
      rfc_byte4 [of "of_char b" "of_char c" "of_char a"]
    by (simp add: Let_def)
qed simp

lemma rfc_length: "4 dvd length (rfc_encode x)"
proof -
  have "4 dvd Suc (Suc (Suc (Suc n))) \<longleftrightarrow> 4 dvd n" for n :: nat by presburger
  then show ?thesis by (induction x rule: rfc_encode.induct) simp_all
qed

lemma rfc_shape:
  "\<exists>body pad. rfc_encode x = body @ replicate pad (CHR ''='') \<and> pad < 4 \<and>
     set body \<subseteq> set b64_alphabet"
proof (induction x rule: rfc_encode.induct)
  case 1
  show ?case by (intro exI [of _ "[]"] exI [of _ 0]) simp
next
  case (2 a)
  show ?case
    by (intro exI [of _ "take 2 (rfc_encode [a])"] exI [of _ 2]) (simp add: numeral_2_eq_2)
next
  case (3 a b)
  show ?case
    by (intro exI [of _ "take 3 (rfc_encode [a, b])"] exI [of _ 1]) simp
next
  case (4 a b c xs)
  then obtain body pad where IH: "rfc_encode xs = body @ replicate pad (CHR ''='')" "pad < 4"
    "set body \<subseteq> set b64_alphabet" by blast
  then show ?case
    by (intro exI [of _ "take 4 (rfc_encode (a # b # c # xs)) @ body"] exI [of _ pad]) simp
qed

end
