(* ===== verification/Prelude.thy ===== *)
theory Prelude
  imports Main "HOL-Library.Word" "HOL-Library.AList" "HOL-Library.List_Lexorder"
    "HOL-Library.Char_ord" "HOL-Library.Monad_Syntax"
begin

text \<open>
  Shared vocabulary of the development: the machine integers of the C++ code, the containers of
  the C++ standard library that the code uses, decimal printing, and the interface locales whose
  lemmas several components share.

  \<^item> A \<open>uint64_t\<close> is a \<open>64 word\<close> (it wraps). A signed integer is an \<open>int\<close> and every sum or
    product the code forms is passed through \<open>i64\<close> or \<open>i32\<close>, the two's-complement value of
    that width; theorems about values that stay in range use \<open>i64_id\<close> and \<open>i32_id\<close>.
  \<^item> A \<open>std::unordered_map\<close> is an association list with distinct keys, in its iteration order:
    \<open>find\<close> is \<open>map_of\<close>, assignment through \<open>operator[]\<close> is \<open>AList.update\<close> (in place when the key
    is there), \<open>erase(key)\<close> is \<open>AList.delete\<close>. C++ leaves open where a new key lands in the
    order; the model appends it, and the properties are about members and counts, or about
    association lists in any order.
  \<^item> A C++ call that can throw returns an \<open>option\<close>, where \<open>None\<close> is the exception.
\<close>

named_theorems lru_rules \<open>preservation and lookup rules of the idempotency cache\<close>
named_theorems reg_rules \<open>preservation and lookup rules of the session registry\<close>
named_theorems amqp_rules \<open>preservation rules of the AMQP client\<close>
named_theorems state_simps \<open>effect of a handler on each field of the service state\<close>

section \<open>Machine integers\<close>

type_synonym u64 = "64 word"

definition i64 :: "int \<Rightarrow> int" where
  "i64 x = signed_take_bit 63 x"

definition i32 :: "int \<Rightarrow> int" where
  "i32 x = signed_take_bit 31 x"

lemma i64_id [simp]: "- (2 ^ 63) \<le> x \<Longrightarrow> x < 2 ^ 63 \<Longrightarrow> i64 x = x"
  by (simp add: i64_def signed_take_bit_int_eq_self)

lemma i32_id [simp]: "- (2 ^ 31) \<le> x \<Longrightarrow> x < 2 ^ 31 \<Longrightarrow> i32 x = x"
  by (simp add: i32_def signed_take_bit_int_eq_self)

lemma i64_range: "- (2 ^ 63) \<le> i64 x" "i64 x < 2 ^ 63"
  using signed_take_bit_int_greater_eq_minus_exp [of 63 x] signed_take_bit_int_less_exp [of 63 x]
  by (simp_all add: i64_def)

section \<open>Association lists as unordered maps\<close>

abbreviation keys :: "('k \<times> 'v) list \<Rightarrow> 'k list" where
  "keys m \<equiv> map fst m"

lemma map_of_update [simp]:
  "map_of (AList.update k v m) k' = (if k' = k then Some v else map_of m k')"
  by (simp add: update_conv')

lemma map_of_delete [simp]:
  "map_of (AList.delete k m) k' = (if k' = k then None else map_of m k')"
  by (simp add: delete_conv')

lemma keys_delete: "keys (AList.delete k m) = filter (\<lambda>k'. k' \<noteq> k) (keys m)"
  by (induction m) auto

lemma keys_update:
  "keys (AList.update k v m) = (if k \<in> set (keys m) then keys m else keys m @ [k])"
  by (induction m) (auto simp: image_iff)

lemma delete_filter: "AList.delete k m = filter (\<lambda>p. fst p \<noteq> k) m"
  by (induction m) auto

lemma set_delete: "set (AList.delete k m) = {p \<in> set m. fst p \<noteq> k}"
  by (auto simp: AList.delete_eq)

lemma distinct_keys_map_of:
  "distinct (keys m) \<Longrightarrow> (map_of m k = Some v) = ((k, v) \<in> set m)"
  by simp

lemma map_of_None_keys: "(map_of m k = None) = (k \<notin> set (keys m))"
  by (simp add: map_of_eq_None_iff)

lemma length_delete_distinct:
  "distinct (keys m) \<Longrightarrow>
     length (AList.delete k m) = (if k \<in> set (keys m) then length m - 1 else length m)"
proof (induction m)
  case Nil
  then show ?case by simp
next
  case (Cons p m)
  then show ?case
    by (cases "fst p = k") (auto simp: neq_Nil_conv dest: split_list intro!: Suc_pred)
qed

lemma update_new_key: "k \<notin> set (keys m) \<Longrightarrow> AList.update k v m = m @ [(k, v)]"
  by (induction m) auto

lemma length_update:
  "length (AList.update k v m) = (if k \<in> set (keys m) then length m else Suc (length m))"
  by (induction m) (auto simp: image_iff)

section \<open>Decimal printing (\<open>std::to_string\<close> and stream output of integers)\<close>

definition digit :: "nat \<Rightarrow> char" where
  "digit d = ''0123456789'' ! d"

fun show_nat :: "nat \<Rightarrow> string" where
  "show_nat n = (if n < 10 then [digit n] else show_nat (n div 10) @ [digit (n mod 10)])"

declare show_nat.simps [simp del]

definition show_int :: "int \<Rightarrow> string" where
  "show_int x = (if x < 0 then ''-'' @ show_nat (nat (- x)) else show_nat (nat x))"

definition show_u64 :: "u64 \<Rightarrow> string" where
  "show_u64 u = show_nat (unat u)"

definition is_digit :: "char \<Rightarrow> bool" where
  "is_digit c \<longleftrightarrow> 48 \<le> (of_char c :: nat) \<and> (of_char c :: nat) \<le> 57"

definition digit_value :: "char \<Rightarrow> nat" where
  "digit_value c = of_char c - 48"

lemma of_char_digit [simp]: "d < 10 \<Longrightarrow> (of_char (digit d) :: nat) = 48 + d"
proof -
  have "\<forall>d \<in> set [0..<10]. (of_char (digit d) :: nat) = 48 + d" by code_simp
  then show "d < 10 \<Longrightarrow> (of_char (digit d) :: nat) = 48 + d" by auto
qed

lemma is_digit_digit [simp]: "d < 10 \<Longrightarrow> is_digit (digit d)"
  by (simp add: is_digit_def)

lemma digit_value_digit [simp]: "d < 10 \<Longrightarrow> digit_value (digit d) = d"
  by (simp add: digit_value_def)

lemma show_nat_digits: "list_all is_digit (show_nat n)"
proof (induction n rule: show_nat.induct)
  case (1 n)
  then show ?case by (cases "n < 10") (simp_all add: show_nat.simps [of n])
qed

lemma show_nat_nonempty [simp]: "show_nat n \<noteq> []"
  by (simp add: show_nat.simps [of n])

lemma show_nat_value: "foldl (\<lambda>v c. 10 * v + digit_value c) 0 (show_nat n) = n"
proof (induction n rule: show_nat.induct)
  case (1 n)
  then show ?case by (cases "n < 10") (simp_all add: show_nat.simps [of n])
qed

lemma show_nat_inject: "show_nat m = show_nat n \<Longrightarrow> m = n"
  by (metis show_nat_value)

section \<open>C strings\<close>

text \<open>The text that a C function reads from \<open>s.c_str()\<close>: it ends at the first NUL.\<close>

definition c_str :: "string \<Rightarrow> string" where
  "c_str s = takeWhile (\<lambda>c. c \<noteq> CHR 0x00) s"

section \<open>Interfaces\<close>

text \<open>
  Operations that keep an invariant: whatever sequence of them runs, the invariant holds after.
  Every stateful component interprets this locale on its own operations.
\<close>

locale preserved =
  fixes exec :: "'op \<Rightarrow> 's \<Rightarrow> 's"
    and inv :: "'s \<Rightarrow> bool"
  assumes keeps: "inv s \<Longrightarrow> inv (exec x s)"
begin

lemma run: "inv s \<Longrightarrow> inv (fold exec xs s)"
  by (induction xs arbitrary: s) (simp_all add: keeps)

end

text \<open>
  What a run yields: \<open>f x s\<close> is what the operation \<open>x\<close> contributes in the state \<open>s\<close> it finds.
\<close>

fun gathered :: "('op \<Rightarrow> 's \<Rightarrow> 's) \<Rightarrow> ('op \<Rightarrow> 's \<Rightarrow> 'a list) \<Rightarrow> 'op list \<Rightarrow> 's \<Rightarrow> 'a list" where
  "gathered exec f [] s = []"
| "gathered exec f (x # xs) s = f x s @ gathered exec f xs (exec x s)"

text \<open>
  A queue of bounded length inside a larger state: what enters leaves in the same order, whatever
  operations run.
\<close>

locale bounded_fifo =
  fixes exec :: "'op \<Rightarrow> 's \<Rightarrow> 's"
    and items :: "'s \<Rightarrow> 'a list"
    and cap :: nat
    and enters :: "'op \<Rightarrow> 's \<Rightarrow> 'a list"
    and leaves :: "'op \<Rightarrow> 's \<Rightarrow> 'a list"
  assumes flow: "items s @ enters x s = leaves x s @ items (exec x s)"
    and bound: "length (items s) \<le> cap \<Longrightarrow> length (items (exec x s)) \<le> cap"
begin

lemma fifo: "items s @ gathered exec enters xs s = gathered exec leaves xs s @ items (fold exec xs s)"
proof (induction xs arbitrary: s)
  case Nil
  show ?case by simp
next
  case (Cons x xs)
  from flow [of s x] Cons [of "exec x s"] show ?case by (simp flip: append_assoc) simp
qed

lemma bounded: "length (items s) \<le> cap \<Longrightarrow> length (items (fold exec xs s)) \<le> cap"
  by (induction xs arbitrary: s) (simp_all add: bound)

end

text \<open>A sequence of calls \<open>mark k t\<close> on a shared state, with their results.\<close>

fun run_marks ::
  "('k \<Rightarrow> int \<Rightarrow> 's \<Rightarrow> (bool \<times> 's) option) \<Rightarrow> ('k \<times> int) list \<Rightarrow> 's \<Rightarrow> (bool list \<times> 's) option"
where
  "run_marks mark [] s = Some ([], s)"
| "run_marks mark ((k, t) # xs) s =
     (case mark k t s of None \<Rightarrow> None
      | Some (r, s') \<Rightarrow>
          (case run_marks mark xs s' of None \<Rightarrow> None | Some (rs, s'') \<Rightarrow> Some (r # rs, s'')))"

text \<open>
  A set of keys that remembers each accepted key until an expiry time, in bounded space:
  \<open>held s k e n\<close> says that \<open>k\<close> is remembered until time \<open>e\<close> and that \<open>n\<close> further keys can be
  accepted before it has to make room. \<open>mark\<close> is \<open>None\<close> if it reaches undefined behaviour.
\<close>

locale dedup =
  fixes mark :: "'k \<Rightarrow> int \<Rightarrow> 's \<Rightarrow> (bool \<times> 's) option"
    and inv :: "'s \<Rightarrow> bool"
    and held :: "'s \<Rightarrow> 'k \<Rightarrow> int \<Rightarrow> nat \<Rightarrow> bool"
  assumes mark_defined: "inv s \<Longrightarrow> \<exists>r s'. mark k t s = Some (r, s') \<and> inv s'"
    and mark_held: "inv s \<Longrightarrow> held s k e n \<Longrightarrow> t < e \<Longrightarrow> mark k t s = Some (r, s') \<Longrightarrow>
      \<not> r \<and> held s' k e n"
    and mark_other: "inv s \<Longrightarrow> held s k e (Suc n) \<Longrightarrow> t < e \<Longrightarrow> k' \<noteq> k \<Longrightarrow>
      mark k' t s = Some (r, s') \<Longrightarrow> held s' k e n"
begin

lemma marks_defined: "inv s \<Longrightarrow> \<exists>rs s'. run_marks mark xs s = Some (rs, s') \<and> inv s'"
proof (induction xs arbitrary: s)
  case Nil
  then show ?case by simp
next
  case (Cons x xs)
  obtain k t where x: "x = (k, t)" by (cases x)
  from mark_defined [OF Cons.prems] obtain r s' where 1: "mark k t s = Some (r, s')" "inv s'"
    by blast
  from Cons.IH [OF 1(2)] obtain rs s'' where "run_marks mark xs s' = Some (rs, s'')" "inv s''" by blast
  with 1 x show ?case by simp
qed

lemma held_mono: "inv s \<Longrightarrow> held s k e (Suc n) \<Longrightarrow> t < e \<Longrightarrow> mark k' t s = Some (r, s') \<Longrightarrow>
    \<exists>m. n \<le> m \<and> held s' k e m"
  using mark_held mark_other by (cases "k' = k") (blast intro: le_SucI)+

text \<open>A key that is held with room for \<open>n\<close> more keys is refused through any \<open>n\<close> calls.\<close>

lemma refused_again:
  assumes "inv s" "held s k e n" "length xs \<le> n" "\<forall>x \<in> set xs. snd x < e" "t < e"
    and "run_marks mark xs s = Some (rs, s')" "mark k t s' = Some (r, s'')"
  shows "\<not> r"
  using assms
proof (induction xs arbitrary: s n rs)
  case Nil
  then have "s' = s" by simp
  with Nil.prems mark_held [of s k e n t r s''] show ?case by simp
next
  case (Cons x xs)
  obtain k' t' where x: "x = (k', t')" by (cases x)
  from Cons.prems(6) x obtain r1 s1 rs1 where
    1: "mark k' t' s = Some (r1, s1)" "run_marks mark xs s1 = Some (rs1, s')"
    by (auto split: option.splits)
  from Cons.prems(3) obtain n' where n: "n = Suc n'" "length xs \<le> n'" by (cases n) auto
  from mark_defined [OF Cons.prems(1), of k' t'] 1 have inv1: "inv s1" by simp
  from held_mono [OF Cons.prems(1) Cons.prems(2) [unfolded n(1)] _ 1(1)] Cons.prems(4) x
  obtain m where m: "n' \<le> m" "held s1 k e m" by auto
  from Cons.IH [OF inv1 m(2) _ _ Cons.prems(5) 1(2) Cons.prems(7)] n m Cons.prems(4)
  show ?case by auto
qed

end

end
