(* ===== verification/Config.thy ===== *)
theory Config
  imports Prelude
begin

text \<open>
  \<open>chat/config/chat_config.{h,cc}\<close>. The framework's configuration variables (\<open>flz::Config::Lookup\<close>,
  filled from the YAML files) are a record of their current values, \<open>config_vars\<close>; their defaults
  are \<open>default_vars\<close>. The process environment read by \<open>getenv\<close> is an argument. \<open>Load\<close> copies the
  values, resolves the secret and validates; the configuration is written also when validation
  fails, and the returned error is \<open>None\<close> on success.
\<close>

record config_vars =
  g_rabbitmq_host :: string
  g_rabbitmq_port :: int
  g_rabbitmq_vhost :: string
  g_rabbitmq_username :: string
  g_rabbitmq_password :: string
  g_rabbitmq_heartbeat :: int
  g_rabbitmq_frame_max :: int
  g_rabbitmq_publisher_confirm_select :: bool
  g_rabbitmq_publisher_queue_capacity :: int
  g_rabbitmq_consumer_queue :: string
  g_rabbitmq_consumer_prefetch :: int
  g_rabbitmq_consumer_auto_ack :: bool
  g_rabbitmq_consumer_tag :: string
  g_rabbitmq_reconnect_initial_backoff_ms :: int
  g_rabbitmq_reconnect_max_backoff_ms :: int
  g_jwt_algorithm :: string
  g_jwt_secret :: string
  g_jwt_issuer :: string
  g_jwt_clock_skew_seconds :: int
  g_redis_enabled :: bool
  g_redis_host :: string
  g_redis_port :: int
  g_redis_password :: string
  g_redis_db :: int
  g_redis_pool_size :: int
  g_redis_idempotency_ttl_seconds :: int
  g_chat_max_devices_per_user :: int
  g_chat_heartbeat_interval_seconds :: int
  g_chat_heartbeat_timeout_seconds :: int
  g_chat_pending_send_ttl_seconds :: int
  g_chat_ws_path :: string
  g_chat_frame_rate_limit_per_second :: int
  g_chat_max_text_content_bytes :: int

definition default_vars :: config_vars where
  "default_vars =
     \<lparr>g_rabbitmq_host = ''127.0.0.1'',
      g_rabbitmq_port = 5672,
      g_rabbitmq_vhost = ''/'',
      g_rabbitmq_username = ''guest'',
      g_rabbitmq_password = ''guest'',
      g_rabbitmq_heartbeat = 30,
      g_rabbitmq_frame_max = 131072,
      g_rabbitmq_publisher_confirm_select = True,
      g_rabbitmq_publisher_queue_capacity = 10000,
      g_rabbitmq_consumer_queue = ''chat.delivery.queue'',
      g_rabbitmq_consumer_prefetch = 64,
      g_rabbitmq_consumer_auto_ack = False,
      g_rabbitmq_consumer_tag = ''chat-svc-1'',
      g_rabbitmq_reconnect_initial_backoff_ms = 1000,
      g_rabbitmq_reconnect_max_backoff_ms = 30000,
      g_jwt_algorithm = ''HS256'',
      g_jwt_secret = '''',
      g_jwt_issuer = ''flz_chat_business'',
      g_jwt_clock_skew_seconds = 60,
      g_redis_enabled = False,
      g_redis_host = ''127.0.0.1'',
      g_redis_port = 6379,
      g_redis_password = '''',
      g_redis_db = 0,
      g_redis_pool_size = 4,
      g_redis_idempotency_ttl_seconds = 86400,
      g_chat_max_devices_per_user = 5,
      g_chat_heartbeat_interval_seconds = 25,
      g_chat_heartbeat_timeout_seconds = 75,
      g_chat_pending_send_ttl_seconds = 30,
      g_chat_ws_path = ''/flz/chat'',
      g_chat_frame_rate_limit_per_second = 20,
      g_chat_max_text_content_bytes = 8192\<rparr>"

record RabbitMqConfig =
  mq_host :: string
  mq_port :: int
  mq_vhost :: string
  mq_username :: string
  mq_password :: string
  mq_heartbeat :: int
  mq_frame_max :: int
  mq_publisher_confirm_select :: bool
  mq_publisher_queue_capacity :: int
  mq_consumer_queue :: string
  mq_consumer_prefetch :: int
  mq_consumer_auto_ack :: bool
  mq_consumer_tag :: string
  mq_reconnect_initial_backoff_ms :: int
  mq_reconnect_max_backoff_ms :: int

record JwtConfig =
  jwt_algorithm :: string
  jwt_secret :: string
  jwt_issuer :: string
  jwt_clock_skew_seconds :: int

record RedisConfig =
  redis_enabled :: bool
  redis_host :: string
  redis_port :: int
  redis_password :: string
  redis_db :: int
  redis_pool_size :: int
  redis_idempotency_ttl_seconds :: int

record ChatRuntimeConfig =
  chat_max_devices_per_user :: int
  chat_heartbeat_interval_seconds :: int
  chat_heartbeat_timeout_seconds :: int
  chat_pending_send_ttl_seconds :: int
  chat_ws_path :: string
  chat_frame_rate_limit_per_second :: int
  chat_max_text_content_bytes :: int

record ChatConfig =
  m_rabbitmq :: RabbitMqConfig
  m_jwt :: JwtConfig
  m_redis :: RedisConfig
  m_chat :: ChatRuntimeConfig

definition kPrefix :: string where
  "kPrefix = ''${ENV:''"

definition ResolveEnv :: "(string \<Rightarrow> string option) \<Rightarrow> string \<Rightarrow> string" where
  "ResolveEnv getenv value =
     (if length value \<le> length kPrefix + 1 then value
      else if take (length kPrefix) value \<noteq> kPrefix \<or> value ! (length value - 1) \<noteq> CHR ''}'' then value
      else
        let env_key = take (length value - length kPrefix - 1) (drop (length kPrefix) value)
        in case getenv env_key of Some env_val \<Rightarrow> env_val | None \<Rightarrow> '''')"

definition read_config :: "(string \<Rightarrow> string option) \<Rightarrow> config_vars \<Rightarrow> ChatConfig" where
  "read_config getenv v =
     \<lparr>m_rabbitmq =
        \<lparr>mq_host = g_rabbitmq_host v,
         mq_port = g_rabbitmq_port v,
         mq_vhost = g_rabbitmq_vhost v,
         mq_username = g_rabbitmq_username v,
         mq_password = g_rabbitmq_password v,
         mq_heartbeat = g_rabbitmq_heartbeat v,
         mq_frame_max = g_rabbitmq_frame_max v,
         mq_publisher_confirm_select = g_rabbitmq_publisher_confirm_select v,
         mq_publisher_queue_capacity = g_rabbitmq_publisher_queue_capacity v,
         mq_consumer_queue = g_rabbitmq_consumer_queue v,
         mq_consumer_prefetch = g_rabbitmq_consumer_prefetch v,
         mq_consumer_auto_ack = g_rabbitmq_consumer_auto_ack v,
         mq_consumer_tag = g_rabbitmq_consumer_tag v,
         mq_reconnect_initial_backoff_ms = g_rabbitmq_reconnect_initial_backoff_ms v,
         mq_reconnect_max_backoff_ms = g_rabbitmq_reconnect_max_backoff_ms v\<rparr>,
      m_jwt =
        \<lparr>jwt_algorithm = g_jwt_algorithm v,
         jwt_secret = ResolveEnv getenv (g_jwt_secret v),
         jwt_issuer = g_jwt_issuer v,
         jwt_clock_skew_seconds = g_jwt_clock_skew_seconds v\<rparr>,
      m_redis =
        \<lparr>redis_enabled = g_redis_enabled v,
         redis_host = g_redis_host v,
         redis_port = g_redis_port v,
         redis_password = g_redis_password v,
         redis_db = g_redis_db v,
         redis_pool_size = g_redis_pool_size v,
         redis_idempotency_ttl_seconds = g_redis_idempotency_ttl_seconds v\<rparr>,
      m_chat =
        \<lparr>chat_max_devices_per_user = g_chat_max_devices_per_user v,
         chat_heartbeat_interval_seconds = g_chat_heartbeat_interval_seconds v,
         chat_heartbeat_timeout_seconds = g_chat_heartbeat_timeout_seconds v,
         chat_pending_send_ttl_seconds = g_chat_pending_send_ttl_seconds v,
         chat_ws_path = g_chat_ws_path v,
         chat_frame_rate_limit_per_second = g_chat_frame_rate_limit_per_second v,
         chat_max_text_content_bytes = g_chat_max_text_content_bytes v\<rparr>\<rparr>"

definition check_config :: "ChatConfig \<Rightarrow> string option" where
  "check_config c =
     (if jwt_algorithm (m_jwt c) \<noteq> ''HS256'' then Some ''jwt.algorithm must be HS256''
      else if jwt_secret (m_jwt c) = [] then Some ''jwt.secret is empty''
      else if chat_max_devices_per_user (m_chat c) \<le> 0 \<or> chat_heartbeat_timeout_seconds (m_chat c) \<le> 0
              \<or> chat_heartbeat_interval_seconds (m_chat c) \<le> 0
      then Some ''chat config has non-positive value''
      else if chat_heartbeat_timeout_seconds (m_chat c) \<le> chat_heartbeat_interval_seconds (m_chat c)
      then Some ''heartbeat_timeout_seconds must be greater than heartbeat_interval_seconds''
      else if mq_port (m_rabbitmq c) \<le> 0 \<or> mq_port (m_rabbitmq c) > 65535
      then Some ''rabbitmq.port out of range''
      else None)"

definition Load :: "(string \<Rightarrow> string option) \<Rightarrow> config_vars \<Rightarrow> string option \<times> ChatConfig" where
  "Load getenv v = (let c = read_config getenv v in (check_config c, c))"

section \<open>Properties\<close>

text \<open>What the rest of the service relies on once \<open>Load\<close> has returned true.\<close>

definition config_valid :: "ChatConfig \<Rightarrow> bool" where
  "config_valid c \<longleftrightarrow> jwt_algorithm (m_jwt c) = ''HS256'' \<and> jwt_secret (m_jwt c) \<noteq> [] \<and>
     1 \<le> chat_max_devices_per_user (m_chat c) \<and>
     1 \<le> chat_heartbeat_interval_seconds (m_chat c) \<and>
     chat_heartbeat_interval_seconds (m_chat c) < chat_heartbeat_timeout_seconds (m_chat c) \<and>
     1 \<le> mq_port (m_rabbitmq c) \<and> mq_port (m_rabbitmq c) \<le> 65535"

lemma check_config_iff: "check_config c = None \<longleftrightarrow> config_valid c"
  by (auto simp: check_config_def config_valid_def)

text \<open>A placeholder \<open>${ENV:key}\<close> with a nonempty key is replaced by the variable's value.\<close>

lemma ResolveEnv_placeholder:
  "key \<noteq> [] \<Longrightarrow> ResolveEnv getenv (kPrefix @ key @ ''}'') =
     (case getenv key of Some x \<Rightarrow> x | None \<Rightarrow> '''')"
  by (cases key) (simp_all add: ResolveEnv_def kPrefix_def nth_append)

lemma ResolveEnv_plain:
  assumes "\<And>key. key \<noteq> [] \<Longrightarrow> value \<noteq> kPrefix @ key @ ''}''"
  shows "ResolveEnv getenv value = value"
proof (rule ccontr)
  assume a: "ResolveEnv getenv value \<noteq> value"
  let ?n = "length kPrefix" and ?key = "take (length value - length kPrefix - 1) (drop (length kPrefix) value)"
  from a have len: "length value > ?n + 1" and pre: "take ?n value = kPrefix"
    and fin: "value ! (length value - 1) = CHR ''}''"
    by (auto simp: ResolveEnv_def Let_def split: if_splits)
  have "value \<noteq> []" using len by auto
  then have "value = butlast value @ ''}''"
    using fin append_butlast_last_id [of "value"] by (simp add: last_conv_nth)
  moreover have "butlast value = kPrefix @ ?key"
    using len pre take_add [of ?n "length value - ?n - 1" "value"] by (simp add: butlast_conv_take)
  moreover have "?key \<noteq> []" using len by simp
  ultimately show False using assms [of ?key] by simp
qed

text \<open>
  \<open>ResolveEnv\<close> replaces exactly the values of the form \<open>${ENV:key}\<close> with a nonempty key, by the
  value of the environment variable or by the empty string when it is unset; every other value,
  \<open>${ENV:}\<close> included, is returned unchanged.
\<close>

theorem ResolveEnv_spec:
  "(\<forall>key. key \<noteq> [] \<longrightarrow> ResolveEnv getenv (kPrefix @ key @ ''}'') =
      (case getenv key of Some x \<Rightarrow> x | None \<Rightarrow> '''')) \<and>
   (\<forall>value. (\<forall>key. key \<noteq> [] \<longrightarrow> value \<noteq> kPrefix @ key @ ''}'') \<longrightarrow> ResolveEnv getenv value = value)"
  using ResolveEnv_placeholder ResolveEnv_plain by blast

theorem ResolveEnv_spec_witness:
  "ResolveEnv (\<lambda>k. if k = ''JWT_SECRET'' then Some ''s3cret'' else None) ''${ENV:JWT_SECRET}'' = ''s3cret''"
  using ResolveEnv_spec [of "\<lambda>k. if k = ''JWT_SECRET'' then Some ''s3cret'' else None",
      THEN conjunct1, rule_format, of "''JWT_SECRET''"]
  by (simp add: kPrefix_def)

text \<open>
  C38. \<open>Load\<close> resolves the secret and reports success exactly for a valid configuration. A secret written as
  \<open>${ENV:key}\<close> with a nonempty key is replaced by the variable of the environment, or by the empty text when it is
  unset; any other secret is taken as it is. \<open>Load\<close> succeeds exactly when the algorithm is HS256, the resolved
  secret is not empty, the device limit and the heartbeat interval are positive, the timeout is longer than the
  interval and the port is a TCP port; the configuration that it leaves behind is then the one the service relies
  on (\<open>config_valid\<close>). A missing secret is reported as such.
\<close>

theorem Load_accepts_valid:
  assumes "Load getenv v = (err, c)"
  shows "(\<forall>key. key \<noteq> [] \<longrightarrow> g_jwt_secret v = ''${ENV:'' @ key @ ''}'' \<longrightarrow>
      jwt_secret (m_jwt c) = (case getenv key of None \<Rightarrow> [] | Some x \<Rightarrow> x)) \<and>
    ((\<forall>key. key \<noteq> [] \<longrightarrow> g_jwt_secret v \<noteq> ''${ENV:'' @ key @ ''}'') \<longrightarrow> jwt_secret (m_jwt c) = g_jwt_secret v) \<and>
    (err = None \<longleftrightarrow> g_jwt_algorithm v = ''HS256'' \<and> jwt_secret (m_jwt c) \<noteq> [] \<and>
       1 \<le> g_chat_max_devices_per_user v \<and> 1 \<le> g_chat_heartbeat_interval_seconds v \<and>
       g_chat_heartbeat_interval_seconds v < g_chat_heartbeat_timeout_seconds v \<and>
       1 \<le> g_rabbitmq_port v \<and> g_rabbitmq_port v \<le> 65535) \<and>
    (err = None \<longleftrightarrow> config_valid c) \<and>
    (g_jwt_algorithm v = ''HS256'' \<longrightarrow> jwt_secret (m_jwt c) = [] \<longrightarrow> err = Some ''jwt.secret is empty'')"
proof -
  have c: "c = read_config getenv v" "err = check_config c" using assms by (auto simp: Load_def Let_def)
  have prefix: "kPrefix = ''${ENV:''" by (simp add: kPrefix_def)
  have "jwt_secret (m_jwt c) = ResolveEnv getenv (g_jwt_secret v)" by (simp add: c read_config_def)
  moreover have "err = None \<longleftrightarrow> config_valid c" by (simp add: c(2) check_config_iff)
  moreover have "config_valid c \<longleftrightarrow> g_jwt_algorithm v = ''HS256'' \<and> jwt_secret (m_jwt c) \<noteq> [] \<and>
       1 \<le> g_chat_max_devices_per_user v \<and> 1 \<le> g_chat_heartbeat_interval_seconds v \<and>
       g_chat_heartbeat_interval_seconds v < g_chat_heartbeat_timeout_seconds v \<and>
       1 \<le> g_rabbitmq_port v \<and> g_rabbitmq_port v \<le> 65535"
    by (auto simp: config_valid_def c(1) read_config_def)
  moreover have "g_jwt_algorithm v = ''HS256'' \<longrightarrow> jwt_secret (m_jwt c) = [] \<longrightarrow> err = Some ''jwt.secret is empty''"
    by (simp add: c(2) check_config_def) (simp add: c(1) read_config_def)
  ultimately show ?thesis
    using ResolveEnv_placeholder [of _ getenv, unfolded prefix] ResolveEnv_plain [of "g_jwt_secret v", unfolded prefix]
    by (auto split: option.splits)
qed

theorem Load_accepts_valid_witness:
  "\<exists>c. Load (\<lambda>k. if k = ''JWT_SECRET'' then Some ''s3cret'' else None)
       (default_vars\<lparr>g_jwt_secret := ''${ENV:JWT_SECRET}''\<rparr>) = (None, c) \<and> jwt_secret (m_jwt c) = ''s3cret''"
proof -
  let ?env = "\<lambda>k. if k = ''JWT_SECRET'' then Some ''s3cret'' else None"
  let ?v = "default_vars\<lparr>g_jwt_secret := ''${ENV:JWT_SECRET}''\<rparr>"
  obtain err c where L: "Load ?env ?v = (err, c)" by (rule prod.exhaust)
  have "g_jwt_secret ?v = ''${ENV:'' @ ''JWT_SECRET'' @ ''}''" by simp
  with Load_accepts_valid [OF L] have s: "jwt_secret (m_jwt c) = ''s3cret''" by fastforce
  with Load_accepts_valid [OF L] have "err = None" by (simp add: default_vars_def)
  with L s show ?thesis by blast
qed

end
