(* ===== verification/Amqp_Client.thy ===== *)
theory Amqp_Client
  imports Prelude Config "HOL-Library.Signed_Division"
begin

text \<open>
  \<open>chat/mq/amqp_client.{h,cc}\<close> and \<open>topology.{h,cc}\<close>. The RabbitMQ C library is not part of the
  repository: it is a parameter, \<open>amqp_lib\<close>, that answers each call from the whole history of
  calls (newest first), so its answers may depend on anything that happened before. A call is a
  constructor named after the C function, with the arguments that the code passes. The client record has the
  members of the class and the history. Every \<open>std::string& err\<close> is threaded through, since the
  code leaves it untouched on some paths.
\<close>

datatype table_value = FieldUtf8 string | FieldI32 int

record amqp_properties =
  p_content_type :: string
  p_delivery_mode :: int
  p_priority :: "8 word"
  p_message_id :: string

datatype amqp_call =
    amqp_new_connection
  | amqp_tcp_socket_new "nat option"
  | amqp_socket_open "nat option" string int
  | amqp_login "nat option" string int int int string string
  | amqp_channel_open "nat option" int
  | amqp_basic_qos "nat option" int int "16 word" bool
  | amqp_get_rpc_reply "nat option"
  | amqp_exchange_declare "nat option" int string string bool bool bool bool "(string \<times> table_value) list"
  | amqp_queue_declare "nat option" int string bool bool bool bool "(string \<times> table_value) list"
  | amqp_queue_bind "nat option" int string string string "(string \<times> table_value) list"
  | amqp_basic_consume "nat option" int string string bool bool bool "(string \<times> table_value) list"
  | amqp_basic_publish "nat option" int string string bool bool amqp_properties string
  | amqp_maybe_release_buffers "nat option"
  | amqp_consume_message "nat option" int int
  | amqp_destroy_envelope \<comment> \<open>frees the envelope that the last \<open>amqp_consume_message\<close> filled\<close>
  | amqp_basic_ack "nat option" int u64 bool
  | amqp_basic_nack "nat option" int u64 bool bool
  | amqp_channel_close "nat option" int int
  | amqp_connection_close "nat option" int
  | amqp_destroy_connection "nat option"

record amqp_rpc_reply =
  reply_type :: int
  library_error :: int
  reply_id :: int
  reply_code :: nat

record amqp_envelope =
  ev_delivery_tag :: u64
  ev_routing_key :: string
  ev_body :: string
  ev_message_id :: "string option" \<comment> \<open>\<open>None\<close>: the flag of the property is not set\<close>

record amqp_lib =
  STATUS_OK :: int
  STATUS_TIMEOUT :: int
  RESPONSE_NORMAL :: int
  RESPONSE_LIBRARY_EXCEPTION :: int
  RESPONSE_SERVER_EXCEPTION :: int
  CONNECTION_CLOSE_METHOD :: int
  CHANNEL_CLOSE_METHOD :: int
  REPLY_SUCCESS :: int
  amqp_error_string2 :: "int \<Rightarrow> string"
  res_handle :: "amqp_call list \<Rightarrow> nat option" \<comment> \<open>a new connection or socket; \<open>None\<close> is the null pointer\<close>
  res_status :: "amqp_call list \<Rightarrow> int"
  res_reply :: "amqp_call list \<Rightarrow> amqp_rpc_reply"
  res_envelope :: "amqp_call list \<Rightarrow> amqp_envelope"

record AmqpDelivery =
  delivery_tag :: u64
  routing_key :: string
  body :: string
  message_id :: string

record AmqpClient =
  m_conn :: "nat option"
  m_socket :: "nat option"
  m_channel_id :: int
  m_connected :: bool
  calls :: "amqp_call list"

definition new_AmqpClient :: AmqpClient where
  "new_AmqpClient = \<lparr>m_conn = None, m_socket = None, m_channel_id = 1, m_connected = False, calls = []\<rparr>"

definition issue :: "amqp_call \<Rightarrow> AmqpClient \<Rightarrow> AmqpClient" where
  "issue c cl = cl\<lparr>calls := c # calls cl\<rparr>"

definition RpcReplyToText :: "amqp_lib \<Rightarrow> amqp_rpc_reply \<Rightarrow> string" where
  "RpcReplyToText L r =
     (if reply_type r = RESPONSE_LIBRARY_EXCEPTION L then amqp_error_string2 L (library_error r)
      else if reply_type r = RESPONSE_SERVER_EXCEPTION L \<and> reply_id r = CONNECTION_CLOSE_METHOD L
      then ''server connection close: code='' @ show_nat (reply_code r)
      else if reply_type r = RESPONSE_SERVER_EXCEPTION L \<and> reply_id r = CHANNEL_CLOSE_METHOD L
      then ''server channel close: code='' @ show_nat (reply_code r)
      else ''unknown rpc reply type='' @ show_int (reply_type r))"

definition CheckRpcReply ::
  "amqp_lib \<Rightarrow> string \<Rightarrow> string \<Rightarrow> AmqpClient \<Rightarrow> bool \<times> string \<times> AmqpClient" where
  "CheckRpcReply L op_name err cl =
     (let cl = issue (amqp_get_rpc_reply (m_conn cl)) cl;
          r = res_reply L (calls cl)
      in if reply_type r = RESPONSE_NORMAL L then (True, err, cl)
         else (False, op_name @ '' failed: '' @ RpcReplyToText L r, cl))"

text \<open>\<open>if(!step) return false; rest\<close>, where \<open>step\<close> has set \<open>err\<close> and changed the client.\<close>

definition and_then ::
  "bool \<times> string \<times> AmqpClient \<Rightarrow> (string \<Rightarrow> AmqpClient \<Rightarrow> bool \<times> string \<times> AmqpClient)
     \<Rightarrow> bool \<times> string \<times> AmqpClient" where
  "and_then step rest = (case step of (ok, err, cl) \<Rightarrow> if ok then rest err cl else (False, err, cl))"

definition Close :: "amqp_lib \<Rightarrow> AmqpClient \<Rightarrow> AmqpClient" where
  "Close L cl =
     (let cl = (if m_conn cl \<noteq> None then
                  let cl = (if m_connected cl then
                              issue (amqp_connection_close (m_conn cl) (REPLY_SUCCESS L))
                                (issue (amqp_channel_close (m_conn cl) (m_channel_id cl)
                                   (REPLY_SUCCESS L)) cl)
                            else cl)
                  in issue (amqp_destroy_connection (m_conn cl)) cl
                else cl)
      in cl\<lparr>m_conn := None, m_socket := None, m_connected := False\<rparr>)"

definition Connect ::
  "amqp_lib \<Rightarrow> RabbitMqConfig \<Rightarrow> string \<Rightarrow> AmqpClient \<Rightarrow> bool \<times> string \<times> AmqpClient" where
  "Connect L cfg err cl =
     (let cl = Close L cl;
          cl = issue amqp_new_connection cl;
          cl = cl\<lparr>m_conn := res_handle L (calls cl)\<rparr>
      in if m_conn cl = None then (False, ''amqp_new_connection failed'', cl)
      else
        let cl = issue (amqp_tcp_socket_new (m_conn cl)) cl;
            cl = cl\<lparr>m_socket := res_handle L (calls cl)\<rparr>
        in if m_socket cl = None then (False, ''amqp_tcp_socket_new failed'', Close L cl)
      else
        let cl = issue (amqp_socket_open (m_socket cl) (c_str (mq_host cfg)) (mq_port cfg)) cl;
            ret = res_status L (calls cl)
        in if ret \<noteq> STATUS_OK L then (False, amqp_error_string2 L ret, Close L cl)
      else
        let cl = issue (amqp_login (m_conn cl) (c_str (mq_vhost cfg)) 0 (mq_frame_max cfg)
                   (mq_heartbeat cfg) (c_str (mq_username cfg)) (c_str (mq_password cfg))) cl;
            login_reply = res_reply L (calls cl)
        in if reply_type login_reply \<noteq> RESPONSE_NORMAL L
           then (False, RpcReplyToText L login_reply, Close L cl)
           else (True, err, cl\<lparr>m_connected := True\<rparr>))"

definition OpenChannel ::
  "amqp_lib \<Rightarrow> 16 word \<Rightarrow> string \<Rightarrow> AmqpClient \<Rightarrow> bool \<times> string \<times> AmqpClient" where
  "OpenChannel L prefetch_count err cl =
     (if \<not> m_connected cl then (False, ''not connected'', cl)
      else and_then
        (CheckRpcReply L ''amqp_channel_open'' err
           (issue (amqp_channel_open (m_conn cl) (m_channel_id cl)) cl))
        (\<lambda>err cl.
           if prefetch_count > 0
           then CheckRpcReply L ''amqp_basic_qos'' err
                  (issue (amqp_basic_qos (m_conn cl) (m_channel_id cl) 0 prefetch_count False) cl)
           else (True, err, cl)))"

definition queue_args :: "(string \<times> table_value) list" where
  "queue_args = [(''x-dead-letter-exchange'', FieldUtf8 ''chat.dlx''), (''x-message-ttl'', FieldI32 86400000)]"

definition declare_exchange :: "string \<Rightarrow> string \<Rightarrow> AmqpClient \<Rightarrow> AmqpClient" where
  "declare_exchange name kind cl =
     issue (amqp_exchange_declare (m_conn cl) (m_channel_id cl) name kind False True False False []) cl"

definition declare_queue :: "string \<Rightarrow> (string \<times> table_value) list \<Rightarrow> AmqpClient \<Rightarrow> AmqpClient" where
  "declare_queue name args cl =
     issue (amqp_queue_declare (m_conn cl) (m_channel_id cl) name False True False False args) cl"

definition bind_queue :: "string \<Rightarrow> string \<Rightarrow> string \<Rightarrow> AmqpClient \<Rightarrow> AmqpClient" where
  "bind_queue queue exchange key cl =
     issue (amqp_queue_bind (m_conn cl) (m_channel_id cl) queue exchange key []) cl"

definition DeclareChatTopology :: "amqp_lib \<Rightarrow> string \<Rightarrow> AmqpClient \<Rightarrow> bool \<times> string \<times> AmqpClient" where
  "DeclareChatTopology L err cl =
     and_then (CheckRpcReply L ''declare chat.exchange'' err
                 (declare_exchange ''chat.exchange'' ''topic'' cl)) (\<lambda>err cl.
     and_then (CheckRpcReply L ''declare chat.dlx'' err
                 (declare_exchange ''chat.dlx'' ''fanout'' cl)) (\<lambda>err cl.
     and_then (CheckRpcReply L ''declare chat.delivery.queue'' err
                 (declare_queue ''chat.delivery.queue'' queue_args cl)) (\<lambda>err cl.
     and_then (CheckRpcReply L ''bind chat.delivery.queue'' err
                 (bind_queue ''chat.delivery.queue'' ''chat.exchange'' ''chat.#'' cl)) (\<lambda>err cl.
     and_then (CheckRpcReply L ''declare chat.dlq'' err
                 (declare_queue ''chat.dlq'' [] cl)) (\<lambda>err cl.
     and_then (CheckRpcReply L ''bind chat.dlq'' err
                 (bind_queue ''chat.dlq'' ''chat.dlx'' '''' cl)) (\<lambda>err cl.
       (True, err, cl)))))))"

definition DeclareBusinessExchange ::
  "amqp_lib \<Rightarrow> string \<Rightarrow> AmqpClient \<Rightarrow> bool \<times> string \<times> AmqpClient" where
  "DeclareBusinessExchange L err cl =
     CheckRpcReply L ''declare business.exchange'' err
       (declare_exchange ''business.exchange'' ''topic'' cl)"

definition StartConsume ::
  "amqp_lib \<Rightarrow> string \<Rightarrow> string \<Rightarrow> bool \<Rightarrow> string \<Rightarrow> AmqpClient \<Rightarrow> bool \<times> string \<times> AmqpClient" where
  "StartConsume L queue consumer_tag auto_ack err cl =
     CheckRpcReply L ''amqp_basic_consume'' err
       (issue (amqp_basic_consume (m_conn cl) (m_channel_id cl) queue consumer_tag False auto_ack False []) cl)"

definition Publish ::
  "amqp_lib \<Rightarrow> string \<Rightarrow> string \<Rightarrow> string \<Rightarrow> 8 word \<Rightarrow> string \<Rightarrow> string \<Rightarrow> AmqpClient
     \<Rightarrow> bool \<times> string \<times> AmqpClient" where
  "Publish L exchange rk text priority mid err cl =
     (let props = \<lparr>p_content_type = ''application/json'', p_delivery_mode = 2, p_priority = priority,
                   p_message_id = mid\<rparr>;
          cl = issue (amqp_basic_publish (m_conn cl) (m_channel_id cl) exchange rk False False props text) cl;
          ret = res_status L (calls cl)
      in if ret \<noteq> STATUS_OK L then (False, amqp_error_string2 L ret, cl) else (True, err, cl))"

text \<open>\<open>Consume\<close>: the delivery is \<open>None\<close> when the code returns false.\<close>

definition Consume ::
  "amqp_lib \<Rightarrow> int \<Rightarrow> string \<Rightarrow> AmqpClient \<Rightarrow> AmqpDelivery option \<times> string \<times> AmqpClient" where
  "Consume L timeout_ms err cl =
     (let cl = issue (amqp_maybe_release_buffers (m_conn cl)) cl;
          tv_sec = timeout_ms sdiv 1000;
          tv_usec = (timeout_ms smod 1000) * 1000;
          cl = issue (amqp_consume_message (m_conn cl) tv_sec tv_usec) cl;
          reply = res_reply L (calls cl);
          envelope = res_envelope L (calls cl)
      in if reply_type reply = RESPONSE_LIBRARY_EXCEPTION L \<and> library_error reply = STATUS_TIMEOUT L
         then (None, err, cl)
         else if reply_type reply \<noteq> RESPONSE_NORMAL L then (None, RpcReplyToText L reply, cl)
         else let cl = issue amqp_destroy_envelope cl
         in (Some \<lparr>delivery_tag = ev_delivery_tag envelope, routing_key = ev_routing_key envelope,
                    body = ev_body envelope,
                    message_id = (case ev_message_id envelope of None \<Rightarrow> [] | Some i \<Rightarrow> i)\<rparr>, err, cl))"

definition Ack :: "amqp_lib \<Rightarrow> u64 \<Rightarrow> string \<Rightarrow> AmqpClient \<Rightarrow> bool \<times> string \<times> AmqpClient" where
  "Ack L tag err cl =
     (let cl = issue (amqp_basic_ack (m_conn cl) (m_channel_id cl) tag False) cl;
          ret = res_status L (calls cl)
      in if ret \<noteq> STATUS_OK L then (False, amqp_error_string2 L ret, cl) else (True, err, cl))"

definition Nack :: "amqp_lib \<Rightarrow> u64 \<Rightarrow> bool \<Rightarrow> string \<Rightarrow> AmqpClient \<Rightarrow> bool \<times> string \<times> AmqpClient" where
  "Nack L tag requeue err cl =
     (let cl = issue (amqp_basic_nack (m_conn cl) (m_channel_id cl) tag False requeue) cl;
          ret = res_status L (calls cl)
      in if ret \<noteq> STATUS_OK L then (False, amqp_error_string2 L ret, cl) else (True, err, cl))"

text \<open>\<open>topology.cc\<close>\<close>

definition DeclareForPublisher :: "amqp_lib \<Rightarrow> string \<Rightarrow> AmqpClient \<Rightarrow> bool \<times> string \<times> AmqpClient" where
  "DeclareForPublisher L err cl =
     and_then (DeclareBusinessExchange L err cl) (\<lambda>err cl.
     and_then (DeclareChatTopology L err cl) (\<lambda>err cl. (True, err, cl)))"

definition DeclareForConsumer :: "amqp_lib \<Rightarrow> string \<Rightarrow> AmqpClient \<Rightarrow> bool \<times> string \<times> AmqpClient" where
  "DeclareForConsumer L err cl = DeclareChatTopology L err cl"

section \<open>The connection protocol\<close>

text \<open>
  What the C library requires of its caller. \<open>live L h\<close> is the connection that exists after the history
  \<open>h\<close> (\<open>Some None\<close>: none does), and \<open>None\<close> once the history has broken the protocol: created a second
  connection while one exists (a leak), or used or destroyed one that is null or already destroyed.
\<close>

fun call_conn :: "amqp_call \<Rightarrow> nat option" where
  "call_conn amqp_new_connection = None"
| "call_conn (amqp_tcp_socket_new p) = p"
| "call_conn (amqp_socket_open _ _ _) = None"
| "call_conn (amqp_login p _ _ _ _ _ _) = p"
| "call_conn (amqp_channel_open p _) = p"
| "call_conn (amqp_basic_qos p _ _ _ _) = p"
| "call_conn (amqp_get_rpc_reply p) = p"
| "call_conn (amqp_exchange_declare p _ _ _ _ _ _ _ _) = p"
| "call_conn (amqp_queue_declare p _ _ _ _ _ _ _) = p"
| "call_conn (amqp_queue_bind p _ _ _ _ _) = p"
| "call_conn (amqp_basic_consume p _ _ _ _ _ _ _) = p"
| "call_conn (amqp_basic_publish p _ _ _ _ _ _ _) = p"
| "call_conn (amqp_maybe_release_buffers p) = p"
| "call_conn (amqp_consume_message p _ _) = p"
| "call_conn amqp_destroy_envelope = None"
| "call_conn (amqp_basic_ack p _ _ _) = p"
| "call_conn (amqp_basic_nack p _ _ _ _) = p"
| "call_conn (amqp_channel_close p _ _) = p"
| "call_conn (amqp_connection_close p _) = p"
| "call_conn (amqp_destroy_connection p) = p"

fun live :: "amqp_lib \<Rightarrow> amqp_call list \<Rightarrow> nat option option" where
  "live L [] = Some None"
| "live L (c # h) =
     (case live L h of
        None \<Rightarrow> None
      | Some cur \<Rightarrow>
          (case c of
             amqp_new_connection \<Rightarrow> if cur = None then Some (res_handle L (c # h)) else None
           | amqp_socket_open s _ _ \<Rightarrow> if cur \<noteq> None \<and> s \<noteq> None then Some cur else None
           | amqp_destroy_connection p \<Rightarrow> if cur \<noteq> None \<and> p = cur then Some None else None
           | amqp_destroy_envelope \<Rightarrow> Some cur
           | _ \<Rightarrow> if cur \<noteq> None \<and> call_conn c = cur then Some cur else None))"

definition amqp_inv :: "amqp_lib \<Rightarrow> AmqpClient \<Rightarrow> bool" where
  "amqp_inv L cl \<longleftrightarrow> live L (calls cl) = Some (m_conn cl) \<and> (m_connected cl \<longrightarrow> m_conn cl \<noteq> None)"

lemma new_AmqpClient_inv [amqp_rules]: "amqp_inv L new_AmqpClient"
  by (simp add: amqp_inv_def new_AmqpClient_def)

lemma Close_inv [amqp_rules]: "amqp_inv L cl \<Longrightarrow> amqp_inv L (Close L cl)"
  by (auto simp: amqp_inv_def Close_def Let_def issue_def)

lemma Close_closed [simp]: "m_connected (Close L cl) = False" "m_conn (Close L cl) = None"
  "m_channel_id (Close L cl) = m_channel_id cl"
  by (simp_all add: Close_def Let_def issue_def)

lemma Connect_keeps [amqp_rules]:
  assumes "amqp_inv L cl" "Connect L cfg err cl = (ok, err', cl')"
  shows "amqp_inv L cl' \<and> m_connected cl' = ok \<and> (m_conn cl' \<noteq> None \<longleftrightarrow> ok) \<and> (ok \<longrightarrow> err' = err)"
proof -
  define c0 where "c0 = Close L cl"
  have c0: "live L (calls c0) = Some None" "m_conn c0 = None" "\<not> m_connected c0"
    using Close_inv [OF assms(1)] by (simp_all add: c0_def amqp_inv_def)
  define c1 where "c1 = (issue amqp_new_connection c0)
    \<lparr>m_conn := res_handle L (calls (issue amqp_new_connection c0))\<rparr>"
  have c1: "amqp_inv L c1" "\<not> m_connected c1" using c0 by (simp_all add: c1_def amqp_inv_def issue_def)
  define c2 where "c2 = (issue (amqp_tcp_socket_new (m_conn c1)) c1)
    \<lparr>m_socket := res_handle L (calls (issue (amqp_tcp_socket_new (m_conn c1)) c1))\<rparr>"
  have c2: "amqp_inv L c2" "m_conn c2 \<noteq> None" "\<not> m_connected c2" if "m_conn c1 \<noteq> None"
    using c1 that by (simp_all add: c2_def amqp_inv_def issue_def)
  define c3 where "c3 = issue (amqp_socket_open (m_socket c2) (c_str (mq_host cfg)) (mq_port cfg)) c2"
  have c3: "amqp_inv L c3" "m_conn c3 \<noteq> None" "\<not> m_connected c3"
    if "m_conn c1 \<noteq> None" "m_socket c2 \<noteq> None"
    using c2 that by (simp_all add: c3_def amqp_inv_def issue_def)
  define c4 where "c4 = issue (amqp_login (m_conn c3) (c_str (mq_vhost cfg)) 0 (mq_frame_max cfg)
    (mq_heartbeat cfg) (c_str (mq_username cfg)) (c_str (mq_password cfg))) c3"
  have c4: "amqp_inv L c4" "m_conn c4 \<noteq> None" if "m_conn c1 \<noteq> None" "m_socket c2 \<noteq> None"
    using c3 that by (simp_all add: c4_def amqp_inv_def issue_def)
  have "Connect L cfg err cl =
      (if m_conn c1 = None then (False, ''amqp_new_connection failed'', c1)
       else if m_socket c2 = None then (False, ''amqp_tcp_socket_new failed'', Close L c2)
       else if res_status L (calls c3) \<noteq> STATUS_OK L
       then (False, amqp_error_string2 L (res_status L (calls c3)), Close L c3)
       else if reply_type (res_reply L (calls c4)) \<noteq> RESPONSE_NORMAL L
       then (False, RpcReplyToText L (res_reply L (calls c4)), Close L c4)
       else (True, err, c4\<lparr>m_connected := True\<rparr>))"
    by (simp only: Connect_def Let_def c0_def c1_def c2_def c3_def c4_def)
  moreover have "amqp_inv L (c4\<lparr>m_connected := True\<rparr>)" if "m_conn c1 \<noteq> None" "m_socket c2 \<noteq> None"
    using c4 [OF that] by (simp add: amqp_inv_def)
  ultimately show ?thesis
    using assms(2) c1 c2 c3 c4 Close_inv by (auto split: if_splits)
qed

text \<open>
  C28. Connecting follows the library's protocol from any legal state: the old connection is closed and
  destroyed before a new one is made, a failed attempt destroys what it made and leaves the client
  without a connection, and the client counts as connected just when \<open>Connect\<close> returned true.
\<close>

theorem Connect_correct:
  assumes "amqp_inv L cl" "Connect L cfg err cl = (ok, err', cl')"
  shows "amqp_inv L cl' \<and> m_connected cl' = ok \<and> (m_conn cl' \<noteq> None \<longleftrightarrow> ok) \<and> (ok \<longrightarrow> err' = err)"
  by (rule Connect_keeps [OF assms])

section \<open>Calls on an open connection\<close>

text \<open>A step that only issues calls on the live connection: what the callers of the client rely on.\<close>

definition uses_only :: "amqp_lib \<Rightarrow> AmqpClient \<Rightarrow> AmqpClient \<Rightarrow> bool" where
  "uses_only L cl cl' \<longleftrightarrow> amqp_inv L cl' \<and> m_conn cl' = m_conn cl \<and> m_connected cl' = m_connected cl"

lemma uses_only_refl: "amqp_inv L cl \<Longrightarrow> uses_only L cl cl"
  by (simp add: uses_only_def)

lemma uses_only_trans: "uses_only L a b \<Longrightarrow> uses_only L b c \<Longrightarrow> uses_only L a c"
  by (simp add: uses_only_def)

fun plain_call :: "amqp_call \<Rightarrow> bool" where
  "plain_call amqp_new_connection = False"
| "plain_call (amqp_socket_open _ _ _) = False"
| "plain_call (amqp_destroy_connection _) = False"
| "plain_call _ = True"

lemma live_plain:
  "plain_call c \<Longrightarrow> live L h = Some (Some p) \<Longrightarrow> call_conn c = Some p \<Longrightarrow> live L (c # h) = Some (Some p)"
  by (cases c) simp_all

lemma issue_uses_only:
  assumes "amqp_inv L cl" "m_conn cl \<noteq> None" "plain_call c" "call_conn c = m_conn cl"
  shows "uses_only L cl (issue c cl)"
proof -
  from assms(2) obtain p where p: "m_conn cl = Some p" by blast
  with assms live_plain [of c L "calls cl" p] show ?thesis
    by (auto simp: uses_only_def amqp_inv_def issue_def simp del: live.simps)
qed

lemma CheckRpcReply_uses_only:
  assumes "amqp_inv L cl" "m_conn cl \<noteq> None" "plain_call c" "call_conn c = m_conn cl"
    and "CheckRpcReply L nm err (issue c cl) = (ok, err', cl')"
  shows "uses_only L cl cl'"
proof -
  have 1: "uses_only L cl (issue c cl)" by (rule issue_uses_only [OF assms(1-4)])
  have m: "m_conn (issue c cl) = m_conn cl" by (simp add: issue_def)
  have "uses_only L (issue c cl) (issue (amqp_get_rpc_reply (m_conn (issue c cl))) (issue c cl))"
    using 1 assms(2) by (intro issue_uses_only) (simp_all add: uses_only_def m)
  moreover have "cl' = issue (amqp_get_rpc_reply (m_conn (issue c cl))) (issue c cl)"
    using assms(5) by (auto simp: CheckRpcReply_def Let_def split: if_splits)
  ultimately show ?thesis using uses_only_trans [OF 1] by simp
qed

text \<open>
  A list of synchronous calls, each checked, stopping at the first that fails: the common shape of
  \<open>OpenChannel\<close> and the topology declarations.
\<close>

fun run_rpcs :: "amqp_lib \<Rightarrow> (string \<times> amqp_call) list \<Rightarrow> string \<Rightarrow> AmqpClient
    \<Rightarrow> bool \<times> string \<times> AmqpClient" where
  "run_rpcs L [] err cl = (True, err, cl)"
| "run_rpcs L ((nm, c) # steps) err cl =
     and_then (CheckRpcReply L nm err (issue c cl)) (run_rpcs L steps)"

definition chat_topology :: "AmqpClient \<Rightarrow> (string \<times> amqp_call) list" where
  "chat_topology cl =
     (let p = m_conn cl; ch = m_channel_id cl in
     [(''declare chat.exchange'',
         amqp_exchange_declare p ch ''chat.exchange'' ''topic'' False True False False []),
      (''declare chat.dlx'',
         amqp_exchange_declare p ch ''chat.dlx'' ''fanout'' False True False False []),
      (''declare chat.delivery.queue'',
         amqp_queue_declare p ch ''chat.delivery.queue'' False True False False
           [(''x-dead-letter-exchange'', FieldUtf8 ''chat.dlx''), (''x-message-ttl'', FieldI32 86400000)]),
      (''bind chat.delivery.queue'',
         amqp_queue_bind p ch ''chat.delivery.queue'' ''chat.exchange'' ''chat.#'' []),
      (''declare chat.dlq'', amqp_queue_declare p ch ''chat.dlq'' False True False False []),
      (''bind chat.dlq'', amqp_queue_bind p ch ''chat.dlq'' ''chat.dlx'' '''' [])])"

definition publisher_topology :: "AmqpClient \<Rightarrow> (string \<times> amqp_call) list" where
  "publisher_topology cl =
     (''declare business.exchange'',
        amqp_exchange_declare (m_conn cl) (m_channel_id cl) ''business.exchange'' ''topic''
          False True False False []) # chat_topology cl"

definition reply_ok :: "amqp_lib \<Rightarrow> amqp_call list \<Rightarrow> bool" where
  "reply_ok L h \<longleftrightarrow> reply_type (res_reply L h) = RESPONSE_NORMAL L"

lemma CheckRpcReply_eq:
  "CheckRpcReply L nm err (issue c cl) =
    (let cl' = cl\<lparr>calls := amqp_get_rpc_reply (m_conn cl) # c # calls cl\<rparr> in
     if reply_ok L (calls cl') then (True, err, cl')
     else (False, nm @ '' failed: '' @ RpcReplyToText L (res_reply L (calls cl')), cl'))"
  by (simp add: CheckRpcReply_def issue_def Let_def reply_ok_def)

lemma and_then_True: "and_then r (\<lambda>err cl. (True, err, cl)) = r"
  by (simp add: and_then_def split: prod.splits)

lemma and_then_cong:
  assumes "\<And>err cl. r = (True, err, cl) \<Longrightarrow> f err cl = g err cl"
  shows "and_then r f = and_then r g"
  using assms by (cases r) (auto simp: and_then_def)

lemma CheckRpcReply_conn:
  "CheckRpcReply L nm err (issue c cl) = (ok, err', cl') \<Longrightarrow>
     m_conn cl' = m_conn cl \<and> m_channel_id cl' = m_channel_id cl"
  by (auto simp: CheckRpcReply_eq Let_def split: if_splits)

lemma and_then_check:
  "and_then (CheckRpcReply L nm err (issue c cl)) f =
    (let cl' = cl\<lparr>calls := amqp_get_rpc_reply (m_conn cl) # c # calls cl\<rparr> in
     if reply_ok L (calls cl') then f err cl'
     else (False, nm @ '' failed: '' @ RpcReplyToText L (res_reply L (calls cl')), cl'))"
  by (simp add: CheckRpcReply_eq and_then_def Let_def)

lemma DeclareChatTopology_rpcs: "DeclareChatTopology L err cl = run_rpcs L (chat_topology cl) err cl"
proof -
  have step: "and_then (CheckRpcReply L nm err (issue c cl)) f = and_then (CheckRpcReply L nm err (issue c' cl)) g"
    if "m_conn cl = p" "m_channel_id cl = ch" "c = c'"
      "\<And>err cl'. m_conn cl' = p \<Longrightarrow> m_channel_id cl' = ch \<Longrightarrow> f err cl' = g err cl'"
    for nm err c c' cl p ch f g
    unfolding that(3)
    by (rule and_then_cong, drule CheckRpcReply_conn, rule that(4), simp add: that(1), simp add: that(2))
  show ?thesis
    unfolding DeclareChatTopology_def declare_exchange_def declare_queue_def bind_queue_def
      queue_args_def chat_topology_def Let_def run_rpcs.simps
    by (rule step [of _ "m_conn cl" "m_channel_id cl"], simp, simp, simp)+ simp
qed

lemma DeclareForPublisher_rpcs:
  "DeclareForPublisher L err cl = run_rpcs L (publisher_topology cl) err cl"
proof -
  have "chat_topology (cl\<lparr>calls := h\<rparr>) = chat_topology cl" for h
    by (simp add: chat_topology_def)
  then show ?thesis
    by (simp only: DeclareForPublisher_def publisher_topology_def DeclareBusinessExchange_def
        declare_exchange_def and_then_check and_then_True DeclareChatTopology_rpcs Let_def
        run_rpcs.simps)
qed

text \<open>The history after the first \<open>n\<close> steps: each call is followed by the request for its reply.\<close>

definition hist_after :: "AmqpClient \<Rightarrow> (string \<times> amqp_call) list \<Rightarrow> nat \<Rightarrow> amqp_call list" where
  "hist_after cl steps n =
     rev (concat (map (\<lambda>s. [snd s, amqp_get_rpc_reply (m_conn cl)]) (take n steps))) @ calls cl"

lemma hist_after_Suc:
  "hist_after cl ((nm, c) # steps) (Suc n) =
     hist_after (cl\<lparr>calls := amqp_get_rpc_reply (m_conn cl) # c # calls cl\<rparr>) steps n"
  by (simp add: hist_after_def)

definition stops_at ::
  "amqp_lib \<Rightarrow> (string \<times> amqp_call) list \<Rightarrow> string \<Rightarrow> AmqpClient \<Rightarrow> nat \<Rightarrow> bool \<times> string \<times> AmqpClient \<Rightarrow> bool"
where
  "stops_at L steps err cl n r =
     (case r of (ok, err', cl') \<Rightarrow>
        n \<le> length steps \<and> cl' = cl\<lparr>calls := hist_after cl steps n\<rparr> \<and>
        (\<forall>k. Suc k < n \<longrightarrow> reply_ok L (hist_after cl steps (Suc k))) \<and>
        (if ok then n = length steps \<and> err' = err \<and> (0 < n \<longrightarrow> reply_ok L (hist_after cl steps n))
         else 0 < n \<and> \<not> reply_ok L (hist_after cl steps n) \<and>
           err' = fst (steps ! (n - 1)) @ '' failed: '' @ RpcReplyToText L (res_reply L (hist_after cl steps n))))"

lemma run_rpcs_stops: "\<exists>n. stops_at L steps err cl n (run_rpcs L steps err cl)"
proof (induction steps arbitrary: cl)
  case Nil
  show ?case by (simp add: stops_at_def hist_after_def)
next
  case (Cons s steps)
  obtain nm c where s: "s = (nm, c)" by (cases s)
  let ?cl = "cl\<lparr>calls := amqp_get_rpc_reply (m_conn cl) # c # calls cl\<rparr>"
  have h1: "hist_after cl (s # steps) (Suc 0) = calls ?cl" by (simp add: hist_after_def s)
  show ?case
  proof (cases "reply_ok L (calls ?cl)")
    case False
    with h1 have "stops_at L (s # steps) err cl 1 (run_rpcs L (s # steps) err cl)"
      by (simp add: stops_at_def and_then_check Let_def s)
    then show ?thesis ..
  next
    case True
    then have run: "run_rpcs L (s # steps) err cl = run_rpcs L steps err ?cl"
      by (simp add: and_then_check Let_def s)
    from Cons obtain n where n: "stops_at L steps err ?cl n (run_rpcs L steps err ?cl)" by blast
    have zero: "hist_after ?cl steps 0 = calls ?cl" by (simp add: hist_after_def)
    have ok: "reply_ok L (hist_after cl (s # steps) (Suc k))" if "Suc k < Suc n" for k
      using that n True zero
      by (cases k) (auto simp: s hist_after_Suc stops_at_def split: prod.splits)
    have "stops_at L (s # steps) err cl (Suc n) (run_rpcs L (s # steps) err cl)"
      using n ok True zero unfolding run
      by (cases n) (auto simp: stops_at_def s hist_after_Suc split: prod.splits)
    then show ?thesis ..
  qed
qed

text \<open>
  C27. Both topologies are declared as the fixed list of calls, in that order and each checked: the
  declaration succeeds just when all replies were normal, and otherwise it stops right after the
  first bad reply, having issued nothing more, and reports which step failed. The publisher
  declares the business exchange first; the consumer only the chat exchange, queues and bindings.
\<close>

theorem topology_declared:
  "(\<exists>n. stops_at L (publisher_topology cl) err cl n (DeclareForPublisher L err cl)) \<and>
   (\<exists>n. stops_at L (chat_topology cl) err cl n (DeclareForConsumer L err cl))"
  by (simp add: DeclareForPublisher_rpcs DeclareForConsumer_def DeclareChatTopology_rpcs run_rpcs_stops)

section \<open>Every operation keeps the protocol\<close>

lemma run_rpcs_uses_only:
  assumes "amqp_inv L cl" "m_conn cl \<noteq> None"
    and "\<forall>(nm, c) \<in> set steps. plain_call c \<and> call_conn c = m_conn cl"
    and "run_rpcs L steps err cl = (ok, err', cl')"
  shows "uses_only L cl cl'"
  using assms
proof (induction steps arbitrary: cl)
  case Nil
  then show ?case by (simp add: uses_only_refl)
next
  case (Cons s steps)
  obtain nm c where s: "s = (nm, c)" by (cases s)
  let ?cl = "cl\<lparr>calls := amqp_get_rpc_reply (m_conn cl) # c # calls cl\<rparr>"
  have c: "plain_call c" "call_conn c = m_conn cl" using Cons.prems(3) s by auto
  obtain ok1 err1 cl1 where chk: "CheckRpcReply L nm err (issue c cl) = (ok1, err1, cl1)"
    by (cases "CheckRpcReply L nm err (issue c cl)")
  have u: "uses_only L cl cl1"
    by (rule CheckRpcReply_uses_only [OF Cons.prems(1,2) c chk])
  then have cl1: "amqp_inv L cl1" "m_conn cl1 \<noteq> None" "m_conn cl1 = m_conn cl"
    using Cons.prems(2) by (simp_all add: uses_only_def)
  show ?case
  proof (cases ok1)
    case False
    with Cons.prems(4) chk s u show ?thesis by (simp add: and_then_def)
  next
    case True
    with chk Cons.prems(4) s have "run_rpcs L steps err1 cl1 = (ok, err', cl')"
      by (simp add: and_then_def)
    moreover have "err1 = err" using chk True by (auto simp: CheckRpcReply_eq Let_def split: if_splits)
    ultimately have "uses_only L cl1 cl'"
      using Cons.IH [OF cl1(1,2)] Cons.prems(3) cl1(3) by simp
    with u show ?thesis by (rule uses_only_trans)
  qed
qed

lemma topology_uses_only:
  assumes "amqp_inv L cl" "m_conn cl \<noteq> None"
  shows "DeclareForPublisher L err cl = (ok, err', cl') \<Longrightarrow> uses_only L cl cl'"
    "DeclareForConsumer L err cl = (ok, err', cl') \<Longrightarrow> uses_only L cl cl'"
proof -
  show "DeclareForPublisher L err cl = (ok, err', cl') \<Longrightarrow> uses_only L cl cl'"
    by (rule run_rpcs_uses_only [OF assms, of "publisher_topology cl"])
       (simp_all add: DeclareForPublisher_rpcs publisher_topology_def chat_topology_def Let_def)
  show "DeclareForConsumer L err cl = (ok, err', cl') \<Longrightarrow> uses_only L cl cl'"
    by (rule run_rpcs_uses_only [OF assms, of "chat_topology cl"])
       (simp_all add: DeclareForConsumer_def DeclareChatTopology_rpcs chat_topology_def Let_def)
qed

lemma OpenChannel_rpcs:
  "OpenChannel L n err cl =
     (if \<not> m_connected cl then (False, ''not connected'', cl)
      else run_rpcs L ((''amqp_channel_open'', amqp_channel_open (m_conn cl) (m_channel_id cl)) #
        (if n > 0 then [(''amqp_basic_qos'', amqp_basic_qos (m_conn cl) (m_channel_id cl) 0 n False)]
         else [])) err cl)"
  by (simp add: OpenChannel_def and_then_def CheckRpcReply_eq Let_def)

lemma OpenChannel_uses_only:
  assumes "amqp_inv L cl" "OpenChannel L n err cl = (ok, err', cl')"
  shows "uses_only L cl cl'"
proof (cases "m_connected cl")
  case False
  with assms uses_only_refl show ?thesis by (simp add: OpenChannel_def)
next
  case True
  with assms(1) have "m_conn cl \<noteq> None" by (simp add: amqp_inv_def)
  with True assms show ?thesis
    by (intro run_rpcs_uses_only [OF assms(1), of "(''amqp_channel_open'', amqp_channel_open (m_conn cl)
          (m_channel_id cl)) # (if n > 0 then [(''amqp_basic_qos'', amqp_basic_qos (m_conn cl)
          (m_channel_id cl) 0 n False)] else [])"])
       (simp_all add: OpenChannel_rpcs del: run_rpcs.simps)
qed

lemma StartConsume_uses_only:
  assumes "amqp_inv L cl" "m_conn cl \<noteq> None" "StartConsume L q t a err cl = (ok, err', cl')"
  shows "uses_only L cl cl'"
  by (rule CheckRpcReply_uses_only [OF assms(1,2) _ _ assms(3) [unfolded StartConsume_def]]) simp_all

lemma Publish_uses_only:
  assumes "amqp_inv L cl" "m_conn cl \<noteq> None" "Publish L x rk t pr mid err cl = (ok, err', cl')"
  shows "uses_only L cl cl'"
proof -
  obtain c where "cl' = issue c cl" "plain_call c" "call_conn c = m_conn cl"
    using assms(3) by (auto simp: Publish_def Let_def split: if_splits)
  with issue_uses_only [OF assms(1,2)] show ?thesis by simp
qed

lemma Ack_uses_only:
  assumes "amqp_inv L cl" "m_conn cl \<noteq> None" "Ack L tag err cl = (ok, err', cl')"
  shows "uses_only L cl cl'"
proof -
  obtain c where "cl' = issue c cl" "plain_call c" "call_conn c = m_conn cl"
    using assms(3) by (auto simp: Ack_def Let_def split: if_splits)
  with issue_uses_only [OF assms(1,2)] show ?thesis by simp
qed

lemma Nack_uses_only:
  assumes "amqp_inv L cl" "m_conn cl \<noteq> None" "Nack L tag rq err cl = (ok, err', cl')"
  shows "uses_only L cl cl'"
proof -
  obtain c where "cl' = issue c cl" "plain_call c" "call_conn c = m_conn cl"
    using assms(3) by (auto simp: Nack_def Let_def split: if_splits)
  with issue_uses_only [OF assms(1,2)] show ?thesis by simp
qed

lemma Consume_uses_only:
  assumes "amqp_inv L cl" "m_conn cl \<noteq> None" "Consume L ms err cl = (d, err', cl')"
  shows "uses_only L cl cl'"
proof -
  let ?c1 = "issue (amqp_maybe_release_buffers (m_conn cl)) cl"
  have 1: "uses_only L cl ?c1" by (rule issue_uses_only [OF assms(1,2)]) simp_all
  obtain s u where "cl' \<in> {issue (amqp_consume_message (m_conn ?c1) s u) ?c1,
      issue amqp_destroy_envelope (issue (amqp_consume_message (m_conn ?c1) s u) ?c1)}"
    using assms(3) by (auto simp: Consume_def Let_def split: if_splits)
  moreover have "uses_only L ?c1 (issue (amqp_consume_message (m_conn ?c1) s u) ?c1)"
    using 1 assms(2) by (intro issue_uses_only) (simp_all add: uses_only_def)
  moreover have "uses_only L c (issue amqp_destroy_envelope c)" if "uses_only L b c" for b c
    using that by (cases "m_connected c") (auto simp: uses_only_def amqp_inv_def issue_def)
  ultimately show ?thesis using uses_only_trans [OF 1] uses_only_trans by blast
qed

section \<open>Witnesses\<close>

text \<open>A library and broker that accept every call and deliver the given message.\<close>

definition accepting :: "amqp_envelope \<Rightarrow> amqp_lib" where
  "accepting e =
     \<lparr>STATUS_OK = 0, STATUS_TIMEOUT = - 13, RESPONSE_NORMAL = 1, RESPONSE_LIBRARY_EXCEPTION = 2,
      RESPONSE_SERVER_EXCEPTION = 3, CONNECTION_CLOSE_METHOD = 10, CHANNEL_CLOSE_METHOD = 20,
      REPLY_SUCCESS = 200, amqp_error_string2 = (\<lambda>_. ''error''), res_handle = (\<lambda>_. Some 1),
      res_status = (\<lambda>_. 0),
      res_reply = (\<lambda>_. \<lparr>reply_type = 1, library_error = 0, reply_id = 0, reply_code = 0\<rparr>),
      res_envelope = (\<lambda>_. e)\<rparr>"

definition no_message :: amqp_envelope where
  "no_message = \<lparr>ev_delivery_tag = 0, ev_routing_key = [], ev_body = [], ev_message_id = None\<rparr>"

theorem Connect_correct_witness:
  "\<exists>cl. Connect (accepting no_message) (m_rabbitmq (read_config (\<lambda>_. None) default_vars)) ''''
      new_AmqpClient = (True, '''', cl) \<and> m_connected cl \<and> m_conn cl \<noteq> None"
proof -
  let ?L = "accepting no_message" and ?c = "m_rabbitmq (read_config (\<lambda>_. None) default_vars)"
  obtain cl where cl: "Connect ?L ?c '''' new_AmqpClient = (True, '''', cl)"
    by (simp add: Connect_def Close_def new_AmqpClient_def issue_def accepting_def Let_def)
  with Connect_correct [OF new_AmqpClient_inv cl] show ?thesis by simp
qed

end
