(* ===== verification/Json_Lib.thy ===== *)
theory Json_Lib
  imports Prelude
begin

text \<open>
  The JSON library (JsonCpp's \<open>Json::Value\<close> and \<open>flz::JsonUtil\<close>) is not part of the repository:
  it is a parameter of the model, a record of the operations that the code calls. An accessor that
  throws (\<open>Json::LogicError\<close> on a value of the wrong type) returns \<open>None\<close>. \<open>json_laws\<close> collects
  the documented behaviour that some properties rely on; they name it as a hypothesis.
\<close>

record 'j json_lib =
  j_parse :: "string \<Rightarrow> 'j option" \<comment> \<open>\<open>JsonUtil::FromString\<close>; \<open>None\<close>: it returns false\<close>
  j_print :: "'j \<Rightarrow> string" \<comment> \<open>\<open>JsonUtil::ToString\<close>\<close>
  j_null :: 'j
  j_object :: 'j \<comment> \<open>\<open>Json::Value(Json::objectValue)\<close>\<close>
  j_string :: "string \<Rightarrow> 'j"
  j_int :: "int \<Rightarrow> 'j" \<comment> \<open>from \<open>int\<close> and \<open>Json::Int64\<close>\<close>
  j_uint :: "u64 \<Rightarrow> 'j" \<comment> \<open>from \<open>Json::UInt64\<close>\<close>
  j_set :: "'j \<Rightarrow> string \<Rightarrow> 'j \<Rightarrow> 'j" \<comment> \<open>\<open>v[key] = x\<close>, on null and object values only\<close>
  j_is_null :: "'j \<Rightarrow> bool"
  j_is_object :: "'j \<Rightarrow> bool"
  j_is_array :: "'j \<Rightarrow> bool"
  j_is_string :: "'j \<Rightarrow> bool"
  j_is_int :: "'j \<Rightarrow> bool"
  j_is_int64 :: "'j \<Rightarrow> bool"
  j_is_uint64 :: "'j \<Rightarrow> bool"
  j_as_string :: "'j \<Rightarrow> string option"
  j_as_int :: "'j \<Rightarrow> int option"
  j_as_int64 :: "'j \<Rightarrow> int option"
  j_as_uint64 :: "'j \<Rightarrow> u64 option"
  j_get :: "'j \<Rightarrow> string \<Rightarrow> 'j \<Rightarrow> 'j option" \<comment> \<open>\<open>v.get(key, default)\<close>\<close>
  j_is_member :: "'j \<Rightarrow> string \<Rightarrow> bool option"
  j_member :: "'j \<Rightarrow> string \<Rightarrow> 'j option" \<comment> \<open>\<open>v[key]\<close>, read: null when the key is absent\<close>
  j_size :: "'j \<Rightarrow> nat"
  j_at :: "'j \<Rightarrow> nat \<Rightarrow> 'j option" \<comment> \<open>\<open>v[i]\<close> of an array\<close>

text \<open>The typed reads \<open>v.get(key, "").asString()\<close> and its kin, as the code writes them.\<close>

definition get_string :: "'j json_lib \<Rightarrow> 'j \<Rightarrow> string \<Rightarrow> string option" where
  "get_string J v key = do { x \<leftarrow> j_get J v key (j_string J ''''); j_as_string J x }"

definition get_int64 :: "'j json_lib \<Rightarrow> 'j \<Rightarrow> string \<Rightarrow> int option" where
  "get_int64 J v key = do { x \<leftarrow> j_get J v key (j_int J 0); j_as_int64 J x }"

definition get_int :: "'j json_lib \<Rightarrow> 'j \<Rightarrow> string \<Rightarrow> int option" where
  "get_int J v key = do { x \<leftarrow> j_get J v key (j_int J 0); j_as_int J x }"

definition get_uint64 :: "'j json_lib \<Rightarrow> 'j \<Rightarrow> string \<Rightarrow> u64 option" where
  "get_uint64 J v key = do { x \<leftarrow> j_get J v key (j_int J 0); j_as_uint64 J x }"

text \<open>The elements of an array in the order of the loop \<open>for i < v.size(): v[i]\<close>.\<close>

definition j_elems :: "'j json_lib \<Rightarrow> 'j \<Rightarrow> 'j option list" where
  "j_elems J v = map (j_at J v) [0..<j_size J v]"

section \<open>Documented behaviour\<close>

definition j_container :: "'j json_lib \<Rightarrow> 'j \<Rightarrow> bool" where
  "j_container J v \<longleftrightarrow> j_is_null J v \<or> j_is_object J v"

definition json_laws :: "'j json_lib \<Rightarrow> bool" where
  "json_laws J \<longleftrightarrow>
     j_is_null J (j_null J) \<and> j_is_object J (j_object J) \<and>
     (\<forall>v. j_is_object J v \<longrightarrow> \<not> j_is_null J v) \<and>
     (\<forall>v k x. j_container J v \<longrightarrow> j_is_object J (j_set J v k x)) \<and>
     (\<forall>v k x k' d. j_container J v \<longrightarrow>
        j_get J (j_set J v k x) k' d = (if k' = k then Some x else j_get J v k' d)) \<and>
     (\<forall>v k x k'. j_container J v \<longrightarrow>
        j_is_member J (j_set J v k x) k' = (if k' = k then Some True else j_is_member J v k')) \<and>
     (\<forall>v k x k'. j_container J v \<longrightarrow>
        j_member J (j_set J v k x) k' = (if k' = k then Some x else j_member J v k')) \<and>
     (\<forall>k d. j_get J (j_null J) k d = Some d) \<and>
     (\<forall>k. j_is_member J (j_null J) k = Some False) \<and>
     (\<forall>k. j_member J (j_null J) k = Some (j_null J)) \<and>
     (\<forall>s. j_as_string J (j_string J s) = Some s) \<and>
     (\<forall>n. - (2 ^ 63) \<le> n \<and> n < 2 ^ 63 \<longrightarrow>
        j_is_int64 J (j_int J n) \<and> j_as_int64 J (j_int J n) = Some n) \<and>
     (\<forall>n. - (2 ^ 31) \<le> n \<and> n < 2 ^ 31 \<longrightarrow> j_as_int J (j_int J n) = Some n) \<and>
     (\<forall>u. j_as_uint64 J (j_uint J u) = Some u) \<and>
     (\<forall>n. 0 \<le> n \<and> n < 2 ^ 63 \<longrightarrow> j_as_uint64 J (j_int J n) = Some (word_of_int n))"

named_theorems json_rules \<open>consequences of the documented behaviour of the JSON library\<close>

lemma json_set [json_rules]:
  assumes "json_laws J" "j_container J v"
  shows "j_is_object J (j_set J v k x)" "j_container J (j_set J v k x)"
    "j_get J (j_set J v k x) k' d = (if k' = k then Some x else j_get J v k' d)"
    "j_is_member J (j_set J v k x) k' = (if k' = k then Some True else j_is_member J v k')"
    "j_member J (j_set J v k x) k' = (if k' = k then Some x else j_member J v k')"
proof -
  show obj: "j_is_object J (j_set J v k x)" using assms by (simp add: json_laws_def)
  then show "j_container J (j_set J v k x)" by (simp add: j_container_def)
qed (use assms in \<open>simp_all add: json_laws_def\<close>)

lemma json_null [json_rules]:
  assumes "json_laws J"
  shows "j_container J (j_null J)" "j_is_object J (j_object J)" "j_get J (j_null J) k d = Some d"
    "j_is_member J (j_null J) k = Some False" "j_member J (j_null J) k = Some (j_null J)"
  using assms by (simp_all add: json_laws_def j_container_def)

lemma json_conv [json_rules]:
  assumes "json_laws J"
  shows "j_as_string J (j_string J s) = Some s" "j_as_uint64 J (j_uint J u) = Some u"
    "j_as_int64 J (j_int J 0) = Some 0"
    "- (2 ^ 63) \<le> n \<Longrightarrow> n < 2 ^ 63 \<Longrightarrow> j_as_int64 J (j_int J n) = Some n"
    "- (2 ^ 63) \<le> n \<Longrightarrow> n < 2 ^ 63 \<Longrightarrow> j_is_int64 J (j_int J n)"
    "- (2 ^ 31) \<le> n \<Longrightarrow> n < 2 ^ 31 \<Longrightarrow> j_as_int J (j_int J n) = Some n"
    "0 \<le> n \<Longrightarrow> n < 2 ^ 63 \<Longrightarrow> j_as_uint64 J (j_int J n) = Some (word_of_int n)"
  using assms by (simp_all add: json_laws_def)

lemma get_default [json_rules]:
  assumes "json_laws J"
  shows "j_get J v k (j_string J '''') = Some (j_string J s) \<Longrightarrow> get_string J v k = Some s"
    "j_get J v k (j_int J 0) = Some (j_uint J u) \<Longrightarrow> get_uint64 J v k = Some u"
  using assms by (simp_all add: get_string_def get_uint64_def json_conv)

end
