(* ===== verification/Ref_Json.thy ===== *)
theory Ref_Json
  imports Json_Lib
begin

text \<open>
  A concrete JSON library for the witnesses: values as a datatype, the accessors as JsonCpp
  documents them (conversions between scalars, exceptions on the wrong type), compact printing.
  Parsing is a finite table of texts and their values, given with each witness. The model of the
  program never refers to this theory.
\<close>

datatype json = JNull | JBool bool | JInt int | JUInt u64 | JStr string
  | JArr "json list" | JObj "(string \<times> json) list"

definition json_integer :: "json \<Rightarrow> int option" where
  "json_integer v = (case v of JInt n \<Rightarrow> Some n | JUInt u \<Rightarrow> Some (uint u) | _ \<Rightarrow> None)"

definition in_range :: "int \<Rightarrow> int \<Rightarrow> json \<Rightarrow> bool" where
  "in_range lo hi v = (case json_integer v of None \<Rightarrow> False | Some n \<Rightarrow> lo \<le> n \<and> n < hi)"

definition as_number :: "int \<Rightarrow> int \<Rightarrow> json \<Rightarrow> int option" where
  "as_number lo hi v =
     (case v of JNull \<Rightarrow> Some 0 | JBool b \<Rightarrow> Some (if b then 1 else 0)
      | _ \<Rightarrow> if in_range lo hi v then json_integer v else None)"

definition as_str :: "json \<Rightarrow> string option" where
  "as_str v =
     (case v of JNull \<Rightarrow> Some '''' | JBool b \<Rightarrow> Some (if b then ''true'' else ''false'')
      | JInt n \<Rightarrow> Some (show_int n) | JUInt u \<Rightarrow> Some (show_u64 u) | JStr s \<Rightarrow> Some s | _ \<Rightarrow> None)"

definition members :: "json \<Rightarrow> (string \<times> json) list option" where
  "members v = (case v of JNull \<Rightarrow> Some [] | JObj m \<Rightarrow> Some m | _ \<Rightarrow> None)"

definition commas :: "string list \<Rightarrow> string" where
  "commas xs = concat (case xs of [] \<Rightarrow> [] | y # ys \<Rightarrow> y # map ((#) (CHR '','')) ys)"

definition quoted :: "string \<Rightarrow> string" where
  "quoted s = ''\"'' @ s @ ''\"''"

fun print_json :: "json \<Rightarrow> string" where
  "print_json JNull = ''null''"
| "print_json (JBool b) = (if b then ''true'' else ''false'')"
| "print_json (JInt n) = show_int n"
| "print_json (JUInt u) = show_u64 u"
| "print_json (JStr s) = quoted s"
| "print_json (JArr vs) = ''['' @ commas (map print_json vs) @ '']''"
| "print_json (JObj m) =
     ''{'' @ commas (map (\<lambda>(k, v). quoted k @ '':'' @ print_json v) m) @ ''}''"

definition ref_json :: "(string \<times> json) list \<Rightarrow> json json_lib" where
  "ref_json texts =
     \<lparr>j_parse = map_of texts, j_print = print_json, j_null = JNull, j_object = JObj [],
      j_string = JStr, j_int = JInt, j_uint = JUInt,
      j_set = (\<lambda>v k x. JObj (AList.update k x (case members v of None \<Rightarrow> [] | Some m \<Rightarrow> m))),
      j_is_null = (\<lambda>v. v = JNull),
      j_is_object = (\<lambda>v. case v of JObj _ \<Rightarrow> True | _ \<Rightarrow> False),
      j_is_array = (\<lambda>v. case v of JArr _ \<Rightarrow> True | _ \<Rightarrow> False),
      j_is_string = (\<lambda>v. case v of JStr _ \<Rightarrow> True | _ \<Rightarrow> False),
      j_is_int = in_range (- (2 ^ 31)) (2 ^ 31), j_is_int64 = in_range (- (2 ^ 63)) (2 ^ 63),
      j_is_uint64 = in_range 0 (2 ^ 64),
      j_as_string = as_str, j_as_int = as_number (- (2 ^ 31)) (2 ^ 31),
      j_as_int64 = as_number (- (2 ^ 63)) (2 ^ 63),
      j_as_uint64 = (\<lambda>v. map_option word_of_int (as_number 0 (2 ^ 64) v)),
      j_get = (\<lambda>v k d. map_option (\<lambda>m. case map_of m k of None \<Rightarrow> d | Some x \<Rightarrow> x) (members v)),
      j_is_member = (\<lambda>v k. map_option (\<lambda>m. map_of m k \<noteq> None) (members v)),
      j_member = (\<lambda>v k. map_option (\<lambda>m. case map_of m k of None \<Rightarrow> JNull | Some x \<Rightarrow> x) (members v)),
      j_size = (\<lambda>v. case v of JArr vs \<Rightarrow> length vs | JObj m \<Rightarrow> length m | _ \<Rightarrow> 0),
      j_at = (\<lambda>v i. case v of JArr vs \<Rightarrow> Some (if i < length vs then vs ! i else JNull)
                    | JNull \<Rightarrow> Some JNull | _ \<Rightarrow> None)\<rparr>"

lemmas ref_json_defs = ref_json_def members_def as_str_def as_number_def in_range_def
  json_integer_def get_string_def get_int64_def get_int_def get_uint64_def j_elems_def

lemma ref_json_laws: "json_laws (ref_json texts)"
proof -
  have u: "uint u < 2 ^ 64" "0 \<le> uint u" for u :: u64
    using uint_lt2p [of u] by simp_all
  have C: "j_container (ref_json texts) v \<longleftrightarrow> v = JNull \<or> (\<exists>m. v = JObj m)" for v
    by (cases v) (simp_all add: ref_json_def j_container_def)
  show ?thesis
    unfolding json_laws_def C
    using u by (auto simp: ref_json_def as_number_def as_str_def in_range_def json_integer_def
        members_def split: json.splits)
qed

end
