(* ===== verification/Time_Util.thy ===== *)
theory Time_Util
  imports Prelude "HOL-Library.Signed_Division"
begin

text \<open>
  \<open>chat/util/time_util.{h,cc}\<close>: ISO 8601 text of a millisecond timestamp at a fixed offset. The
  clock reading \<open>NowMs()\<close> is an input of every operation that takes one. \<open>gmtime_r\<close> of the C
  library is modelled on the proleptic Gregorian calendar (the year of a \<open>time_t\<close> obtained from
  64-bit milliseconds always fits \<open>tm_year\<close>). Division and remainder of signed values truncate
  towards zero, as in C++ (\<open>sdiv\<close>, \<open>smod\<close>).
\<close>

record tm =
  tm_year :: int
  tm_mon :: int
  tm_mday :: int
  tm_hour :: int
  tm_min :: int
  tm_sec :: int

definition is_leap :: "int \<Rightarrow> bool" where
  "is_leap y \<longleftrightarrow> y mod 4 = 0 \<and> (y mod 100 \<noteq> 0 \<or> y mod 400 = 0)"

definition month_lengths :: "bool \<Rightarrow> int list" where
  "month_lengths leap = [31, if leap then 29 else 28, 31, 30, 31, 30, 31, 31, 30, 31, 30, 31]"

fun month_day :: "int list \<Rightarrow> int \<Rightarrow> int \<Rightarrow> int \<times> int" where
  "month_day [] m d = (m, d)"
| "month_day (l # ls) m d = (if d < l then (m, d) else month_day ls (m + 1) (d - l))"

text \<open>Year and zero-based day of the year of a day number counted from 1 January of year 1.\<close>

definition year_yday :: "int \<Rightarrow> int \<times> int" where
  "year_yday n =
     (let n400 = n div 146097; r = n mod 146097;
          n100 = min 3 (r div 36524); r = r - n100 * 36524;
          n4 = r div 1461; r = r mod 1461;
          n1 = min 3 (r div 365)
      in (400 * n400 + 100 * n100 + 4 * n4 + n1 + 1, r - 365 * n1))"

definition gmtime :: "int \<Rightarrow> tm" where
  "gmtime t =
     (let days = t div 86400; s = t mod 86400;
          (y, yday) = year_yday (days + 719162);
          (m, d) = month_day (month_lengths (is_leap y)) 0 yday
      in \<lparr>tm_year = y - 1900, tm_mon = m, tm_mday = d + 1,
          tm_hour = s div 3600, tm_min = s mod 3600 div 60, tm_sec = s mod 60\<rparr>)"

text \<open>\<open>setfill('0') << setw(w) << x\<close>\<close>

definition setw :: "nat \<Rightarrow> int \<Rightarrow> string" where
  "setw w x = (let s = show_int x in replicate (w - length s) (CHR ''0'') @ s)"

definition Iso8601FromMs :: "int \<Rightarrow> int \<Rightarrow> string" where
  "Iso8601FromMs ts_ms timezone_offset_minutes =
     (let ts_seconds = ts_ms sdiv 1000;
          offset_seconds = i32 (timezone_offset_minutes * 60);
          shifted = i64 (ts_seconds + offset_seconds);
          tm_time = gmtime shifted;
          tz_hour = timezone_offset_minutes sdiv 60;
          tz_min = timezone_offset_minutes smod 60;
          tz_min = (if tz_min < 0 then - tz_min else tz_min)
      in setw 4 (tm_year tm_time + 1900) @ ''-'' @ setw 2 (tm_mon tm_time + 1) @ ''-''
         @ setw 2 (tm_mday tm_time) @ ''T'' @ setw 2 (tm_hour tm_time) @ '':''
         @ setw 2 (tm_min tm_time) @ '':'' @ setw 2 (tm_sec tm_time)
         @ (if timezone_offset_minutes \<ge> 0 then ''+'' else ''-'')
         @ setw 2 \<bar>tz_hour\<bar> @ '':'' @ setw 2 tz_min)"

definition Iso8601Now :: "int \<Rightarrow> string" where
  "Iso8601Now now_ms = Iso8601FromMs now_ms (8 * 60)"

section \<open>The calendar\<close>

text \<open>Days before 1 January of year \<open>y\<close>, counted from 1 January of year 1.\<close>

definition days_before_year :: "int \<Rightarrow> int" where
  "days_before_year y = 365 * (y - 1) + (y - 1) div 4 - (y - 1) div 100 + (y - 1) div 400"

definition days_before_month :: "bool \<Rightarrow> int \<Rightarrow> int" where
  "days_before_month leap m = sum_list (take (nat m) (month_lengths leap))"

lemma month_day_spec:
  assumes "0 \<le> d" "d < sum_list ls" "month_day ls m0 d = (m, e)"
  shows "m0 \<le> m \<and> nat (m - m0) < length ls \<and> 0 \<le> e \<and> e < ls ! nat (m - m0) \<and>
    sum_list (take (nat (m - m0)) ls) + e = d"
  using assms
proof (induction ls arbitrary: m0 d)
  case Nil
  then show ?case by simp
next
  case (Cons l ls)
  show ?case
  proof (cases "d < l")
    case True
    with Cons.prems show ?thesis by simp
  next
    case False
    with Cons.prems Cons.IH [of "d - l" "m0 + 1"]
    have IH: "m0 + 1 \<le> m \<and> nat (m - (m0 + 1)) < length ls \<and> 0 \<le> e \<and>
      e < ls ! nat (m - (m0 + 1)) \<and> sum_list (take (nat (m - (m0 + 1))) ls) + e = d - l" by simp
    then have "nat (m - m0) = Suc (nat (m - (m0 + 1)))" by linarith
    with IH show ?thesis by simp
  qed
qed

text \<open>The last year of four is a leap year, unless it ends a century other than the fourth.\<close>

lemma fourth_year_leap:
  assumes "y = 400 * a + 100 * b + 4 * c + 4" "0 \<le> b" "b \<le> 3" "0 \<le> c" "c \<le> 24" "c = 24 \<longrightarrow> b = 3"
  shows "is_leap y"
proof -
  have "y = 4 * (100 * a + 25 * b + c + 1)" by (simp add: assms(1))
  then have m4: "y mod 4 = 0" by simp
  show ?thesis
  proof (cases "c = 24")
    case False
    have "y = (4 * c + 4) + 100 * (4 * a + b)" by (simp add: assms(1))
    then have "y mod 100 = (4 * c + 4) mod 100" by (simp only: mod_mult_self2)
    also have "\<dots> = 4 * c + 4" using False assms(4,5) by (intro mod_pos_pos_trivial) simp_all
    finally have "y mod 100 \<noteq> 0" using assms(4) by simp
    with m4 show ?thesis by (simp add: is_leap_def)
  next
    case True
    with assms(1,6) have "y = 400 * (a + 1)" by simp
    then have "y mod 400 = 0" by (simp only: mod_mult_self1_is_0)
    with m4 show ?thesis by (simp add: is_leap_def)
  qed
qed

text \<open>The days before a year that is counted in spans of 400, 100, 4 and 1 years.\<close>

lemma days_before_year_parts:
  assumes "0 \<le> b" "b \<le> 3" "0 \<le> c" "c \<le> 24" "0 \<le> e" "e \<le> 3"
  shows "days_before_year (400 * a + 100 * b + 4 * c + e + 1) = 146097 * a + 36524 * b + 1461 * c + 365 * e"
proof -
  have "400 * a + 100 * b + 4 * c + e = 4 * (100 * a + 25 * b + c) + e" by simp
  then have "(400 * a + 100 * b + 4 * c + e) div 4 = 100 * a + 25 * b + c" using assms(5,6) by simp
  moreover have "(400 * a + 100 * b + 4 * c + e) div 100 = 4 * a + b" "(400 * a + 100 * b + 4 * c + e) div 400 = a"
    using assms by simp_all
  ultimately show ?thesis by (simp add: days_before_year_def)
qed

lemma year_yday_spec:
  assumes "year_yday n = (y, yd)"
  shows "days_before_year y + yd = n \<and> 0 \<le> yd \<and> yd < (if is_leap y then 366 else 365)"
proof -
  define a where "a = n div 146097"
  define r where "r = n mod 146097"
  define b where "b = min 3 (r div 36524)"
  define r1 where "r1 = r - b * 36524"
  define c where "c = r1 div 1461"
  define r2 where "r2 = r1 mod 1461"
  define e where "e = min 3 (r2 div 365)"
  have y: "y = 400 * a + 100 * b + 4 * c + e + 1" and yd: "yd = r2 - 365 * e"
  proof -
    have "year_yday n = (400 * a + 100 * b + 4 * c + e + 1, r2 - 365 * e)"
      by (simp only: year_yday_def Let_def a_def r_def b_def r1_def c_def r2_def e_def)
    with assms show "y = 400 * a + 100 * b + 4 * c + e + 1" "yd = r2 - 365 * e"
      by (simp_all only: prod.inject)
  qed
  have n: "n = 146097 * a + r" and r: "0 \<le> r" "r < 146097" by (simp_all add: a_def r_def)
  have b: "0 \<le> b" "b \<le> 3" using r by (simp_all add: b_def)
  have r1: "0 \<le> r1" "r1 < 36525" "b < 3 \<longrightarrow> r1 < 36524"
    using r unfolding r1_def b_def min_def by (auto split: if_splits)
  have r1c: "r1 = 1461 * c + r2" and r2: "0 \<le> r2" "r2 < 1461" by (simp_all add: c_def r2_def)
  have c: "0 \<le> c" "c \<le> 24" "c = 24 \<longrightarrow> b < 3 \<longrightarrow> r2 < 1460"
    using r1 r1c r2 by linarith+
  have e: "0 \<le> e" "e \<le> 3" "0 \<le> yd" "e < 3 \<longrightarrow> yd < 365" "e = 3 \<longrightarrow> yd < 366"
    "e = 3 \<longrightarrow> r2 = 1095 + yd"
    using r2 unfolding yd e_def min_def by (auto split: if_splits)
  have eq: "days_before_year y + yd = n"
    using days_before_year_parts [OF b c(1,2) e(1,2), of a] r1c unfolding r1_def y yd n by simp
  have "yd < 366 \<and> (\<not> is_leap y \<longrightarrow> yd < 365)"
  proof (cases "e = 3")
    case False
    with e show ?thesis by simp
  next
    case True
    have y4: "y = 400 * a + 100 * b + 4 * c + 4" using True by (simp add: y)
    consider "c = 24 \<longrightarrow> b = 3" | "c = 24" "b < 3" using b by linarith
    then show ?thesis
    proof cases
      case 1
      with fourth_year_leap [OF y4 b c(1,2)] e(5) True show ?thesis by simp
    next
      case 2
      with True c(3) e(6) show ?thesis by simp
    qed
  qed
  with eq e(3) show ?thesis by auto
qed

lemma month_lengths_sum: "sum_list (month_lengths leap) = (if leap then 366 else 365)"
  by (simp add: month_lengths_def)

lemma gmtime_date:
  obtains y m d where "tm_year (gmtime t) = y - 1900" "tm_mon (gmtime t) = m" "tm_mday (gmtime t) = d"
    "0 \<le> m" "m < 12" "1 \<le> d" "d \<le> month_lengths (is_leap y) ! nat m"
    "days_before_year y + (days_before_month (is_leap y) m + (d - 1)) = t div 86400 + 719162"
    "0 \<le> days_before_month (is_leap y) m + (d - 1)" "days_before_month (is_leap y) m + (d - 1) < 366"
proof -
  obtain y yd where y: "year_yday (t div 86400 + 719162) = (y, yd)" by force
  obtain m d where m: "month_day (month_lengths (is_leap y)) 0 yd = (m, d)" by force
  note ys = year_yday_spec [OF y]
  from ys have "yd < sum_list (month_lengths (is_leap y))" by (simp add: month_lengths_sum)
  from month_day_spec [OF _ this m] ys have "0 \<le> m" "nat m < length (month_lengths (is_leap y))"
    "0 \<le> d" "d < month_lengths (is_leap y) ! nat m" "days_before_month (is_leap y) m + d = yd"
    by (auto simp: days_before_month_def)
  moreover from ys have "0 \<le> yd" "yd < 366" by (auto split: if_splits)
  ultimately show ?thesis
    using y m ys that [of y m "d + 1"]
    by (simp add: gmtime_def Let_def month_lengths_def)
qed

lemma days_before_year_Suc: "days_before_year y < days_before_year (y + 1)"
proof -
  have "y div 4 \<ge> (y - 1) div 4" "y div 100 \<le> (y - 1) div 100 + 1" "y div 400 \<ge> (y - 1) div 400"
    by (simp_all add: zdiv_mono1)
  then show ?thesis by (simp add: days_before_year_def)
qed

lemma days_before_year_mono: "y \<le> z \<Longrightarrow> days_before_year y \<le> days_before_year z"
proof (induction z rule: int_ge_induct)
  case base
  show ?case by simp
next
  case (step i)
  then show ?case using days_before_year_Suc [of i] by linarith
qed

section \<open>Reading the text back\<close>

definition dec_value :: "string \<Rightarrow> nat" where
  "dec_value s = foldl (\<lambda>v c. 10 * v + digit_value c) 0 s"

definition iso_field :: "string \<Rightarrow> nat \<Rightarrow> nat \<Rightarrow> int" where
  "iso_field s i n = int (dec_value (take n (drop i s)))"

text \<open>The second denoted by a text \<open>YYYY-MM-DDThh:mm:ss+hh:mm\<close>, counted from the epoch.\<close>

definition iso_seconds :: "string \<Rightarrow> int" where
  "iso_seconds s =
     (let y = iso_field s 0 4
      in 86400 * (days_before_year y + days_before_month (is_leap y) (iso_field s 5 2 - 1)
                  + (iso_field s 8 2 - 1) - 719162)
         + 3600 * iso_field s 11 2 + 60 * iso_field s 14 2 + iso_field s 17 2
         - 60 * (60 * iso_field s 20 2 + iso_field s 23 2))"

lemma show_nat_length:
  "n < 10 \<Longrightarrow> length (show_nat n) = 1" "n < 100 \<Longrightarrow> length (show_nat n) \<le> 2"
  "n < 10000 \<Longrightarrow> length (show_nat n) \<le> 4"
proof -
  have 1: "length (show_nat n) = 1" if "n < 10" for n
    using that by (simp add: show_nat.simps [of n])
  have 2: "length (show_nat n) \<le> 2" if "n < 100" for n
    using that 1 [of "n div 10"] by (subst show_nat.simps) simp
  have 3: "length (show_nat n) \<le> 3" if "n < 1000" for n
    using that 2 [of "n div 10"] by (subst show_nat.simps) simp
  have 4: "length (show_nat n) \<le> 4" if "n < 10000" for n
    using that 3 [of "n div 10"] by (subst show_nat.simps) simp
  show "n < 10 \<Longrightarrow> length (show_nat n) = 1" "n < 100 \<Longrightarrow> length (show_nat n) \<le> 2"
    "n < 10000 \<Longrightarrow> length (show_nat n) \<le> 4" by (simp_all add: 1 2 4)
qed

lemma dec_value_zeros [simp]: "foldl (\<lambda>v c. 10 * v + digit_value c) 0 (replicate k (CHR ''0'')) = 0"
  by (induction k) (simp_all add: digit_value_def)

lemma setw_length: "0 \<le> x \<Longrightarrow> x < 100 \<Longrightarrow> length (setw 2 x) = 2"
  "0 \<le> x \<Longrightarrow> x < 10000 \<Longrightarrow> length (setw 4 x) = 4"
  using show_nat_length(2,3) [of "nat x"] by (simp_all add: setw_def Let_def show_int_def)

lemma setw_value: "0 \<le> x \<Longrightarrow> dec_value (setw w x) = nat x"
  by (simp add: setw_def Let_def show_int_def dec_value_def show_nat_value)

text \<open>The bounds of the fields that \<open>gmtime_r\<close> fills.\<close>

lemma gmtime_clock:
  "3600 * tm_hour (gmtime t) + 60 * tm_min (gmtime t) + tm_sec (gmtime t) = t mod 86400"
  "0 \<le> tm_hour (gmtime t)" "tm_hour (gmtime t) < 100" "0 \<le> tm_min (gmtime t)" "tm_min (gmtime t) < 100"
  "0 \<le> tm_sec (gmtime t)" "tm_sec (gmtime t) < 100"
proof -
  have r: "0 \<le> t mod 86400" "t mod 86400 < 86400" by simp_all
  have hms: "tm_hour (gmtime t) = t mod 86400 div 3600" "tm_min (gmtime t) = t mod 86400 mod 3600 div 60"
    "tm_sec (gmtime t) = t mod 86400 mod 60"
    by (simp_all add: gmtime_def Let_def split_beta)
  show "3600 * tm_hour (gmtime t) + 60 * tm_min (gmtime t) + tm_sec (gmtime t) = t mod 86400"
    unfolding hms using mult_div_mod_eq [of 3600 "t mod 86400"] mult_div_mod_eq [of 60 "t mod 86400 mod 3600"]
    by (simp add: mod_mod_cancel)
  show "0 \<le> tm_hour (gmtime t)" "tm_hour (gmtime t) < 100" "0 \<le> tm_min (gmtime t)" "tm_min (gmtime t) < 100"
    "0 \<le> tm_sec (gmtime t)" "tm_sec (gmtime t) < 100"
    using r unfolding hms by simp_all
qed

lemma month_lengths_le:
  assumes "0 \<le> m" "m < 12" shows "month_lengths leap ! nat m \<le> 31"
proof -
  have "\<forall>x \<in> set (month_lengths leap). x \<le> 31" by (simp add: month_lengths_def)
  moreover have "nat m < length (month_lengths leap)" using assms by (simp add: month_lengths_def)
  ultimately show ?thesis using nth_mem by blast
qed

lemma year_in_range:
  assumes "days_before_year y + n = t div 86400 + 719162" "0 \<le> n" "n < 366" "0 \<le> t" "t < 253402300800"
  shows "1 \<le> y" "y < 10000"
proof -
  have "days_before_year 0 = - 366" "days_before_year 10000 = 3652059" by (simp_all add: days_before_year_def)
  moreover have "0 \<le> t div 86400" "t div 86400 < 2932897" using assms(4,5) by simp_all
  ultimately show "1 \<le> y" "y < 10000"
    using assms(1-3) days_before_year_mono [of y 0] days_before_year_mono [of 10000 y] by linarith+
qed

text \<open>The fields of a text made of fields of the right widths.\<close>

lemma iso_fields:
  assumes "length a = 4" "length b = 2" "length c = 2" "length d = 2" "length e = 2" "length f = 2"
    "length g = 2" "length h = 2"
    and s: "s = a @ ''-'' @ b @ ''-'' @ c @ ''T'' @ d @ '':'' @ e @ '':'' @ f @ ''+'' @ g @ '':'' @ h"
  shows "iso_field s 0 4 = int (dec_value a)" "iso_field s 5 2 = int (dec_value b)" "iso_field s 8 2 = int (dec_value c)"
    "iso_field s 11 2 = int (dec_value d)" "iso_field s 14 2 = int (dec_value e)" "iso_field s 17 2 = int (dec_value f)"
    "iso_field s 20 2 = int (dec_value g)" "iso_field s 23 2 = int (dec_value h)" "length s = 25"
  using assms by (simp_all add: iso_field_def)

section \<open>Properties\<close>

text \<open>
  C37. Up to the end of the year 9999, \<open>Iso8601Now\<close> renders the clock as a 25-character text
  \<open>YYYY-MM-DDThh:mm:ss+08:00\<close> that denotes the second of the clock reading: parsing the fields
  back with the Gregorian calendar gives \<open>now_ms div 1000\<close>.
\<close>

theorem Iso8601Now_correct:
  assumes "0 \<le> now_ms" "now_ms < 253402272000000"
  shows "length (Iso8601Now now_ms) = 25 \<and> iso_seconds (Iso8601Now now_ms) = now_ms div 1000"
proof -
  define t where "t = now_ms div 1000 + 28800"
  have t: "28800 \<le> t" "t < 253402300800" using assms by (simp_all add: t_def) 
  have sd: "now_ms sdiv 1000 = now_ms div 1000" "(8 * 60 :: int) sdiv 60 = 8" "(8 * 60 :: int) smod 60 = 0"
    using assms by (simp_all add: signed_divide_int_def signed_modulo_int_def sgn_if)
  obtain y m d where g: "tm_year (gmtime t) = y - 1900" "tm_mon (gmtime t) = m"
    "tm_mday (gmtime t) = d" "0 \<le> m" "m < 12" "1 \<le> d" "d \<le> month_lengths (is_leap y) ! nat m"
    and day: "days_before_year y + (days_before_month (is_leap y) m + (d - 1)) = t div 86400 + 719162"
    and yd: "0 \<le> days_before_month (is_leap y) m + (d - 1)"
      "days_before_month (is_leap y) m + (d - 1) < 366"
    by (rule gmtime_date [of t])
  have y: "1 \<le> y" "y < 10000" using year_in_range [OF day yd] t by simp_all
  have dd: "d < 100" using g(7) month_lengths_le [OF g(4,5), of "is_leap y"] by linarith
  note b = gmtime_clock(2-7) [of t]
  have "Iso8601Now now_ms = setw 4 y @ ''-'' @ setw 2 (m + 1) @ ''-'' @ setw 2 d @ ''T''
      @ setw 2 (tm_hour (gmtime t)) @ '':'' @ setw 2 (tm_min (gmtime t)) @ '':''
      @ setw 2 (tm_sec (gmtime t)) @ ''+'' @ setw 2 8 @ '':'' @ setw 2 0"
    using t sd g unfolding t_def by (simp add: Iso8601Now_def Iso8601FromMs_def Let_def)
  note f = iso_fields [OF _ _ _ _ _ _ _ _ this]
  then have len: "length (Iso8601Now now_ms) = 25"
    using y g(4-6) dd b by (simp add: setw_length)
  have "iso_seconds (Iso8601Now now_ms) =
      86400 * (days_before_year y + days_before_month (is_leap y) m + (d - 1) - 719162)
      + 3600 * tm_hour (gmtime t) + 60 * tm_min (gmtime t) + tm_sec (gmtime t) - 28800"
    using f y g(4-6) dd b by (simp add: setw_length setw_value iso_seconds_def)
  also have "\<dots> = 86400 * (t div 86400) + t mod 86400 - 28800"
  proof -
    have "days_before_year y + days_before_month (is_leap y) m + (d - 1) - 719162 = t div 86400"
      using day by simp
    then show ?thesis by (simp only: gmtime_clock(1) [symmetric])
  qed
  also have "\<dots> = now_ms div 1000" by (simp add: t_def)
  finally show ?thesis using len by simp
qed

theorem Iso8601Now_correct_witness:
  "Iso8601Now 1709209845678 = ''2024-02-29T20:30:45+08:00'' \<and>
   iso_seconds (Iso8601Now 1709209845678) = 1709209845"
proof -
  have "Iso8601Now 1709209845678 = ''2024-02-29T20:30:45+08:00''"
    by code_simp
  with Iso8601Now_correct [of 1709209845678] show ?thesis by simp
qed

end
