(* ===== verification/Uuid.thy ===== *)
theory Uuid
  imports Prelude
begin

unbundle bit_operations_syntax

text \<open>
  \<open>chat/util/uuid.{h,cc}\<close>. The outcome of OpenSSL's \<open>RAND_bytes\<close> is an input: \<open>None\<close> when it does
  not return 1, otherwise the 16 bytes it wrote. \<open>snprintf\<close>'s \<open>%02x\<close> is \<open>hex2\<close>.
\<close>

definition hex_digit :: "nat \<Rightarrow> char" where
  "hex_digit n = ''0123456789abcdef'' ! n"

definition hex2 :: "8 word \<Rightarrow> string" where
  "hex2 b = [hex_digit (unat b div 16), hex_digit (unat b mod 16)]"

definition V4 :: "(nat \<Rightarrow> 8 word) option \<Rightarrow> string" where
  "V4 rand_bytes =
     (case rand_bytes of None \<Rightarrow> ''''
      | Some b \<Rightarrow>
          let b = b(6 := (b 6 AND 0x0F) OR 0x40);
              b = b(8 := (b 8 AND 0x3F) OR 0x80)
          in hex2 (b 0) @ hex2 (b 1) @ hex2 (b 2) @ hex2 (b 3) @ ''-''
             @ hex2 (b 4) @ hex2 (b 5) @ ''-'' @ hex2 (b 6) @ hex2 (b 7) @ ''-''
             @ hex2 (b 8) @ hex2 (b 9) @ ''-'' @ hex2 (b 10) @ hex2 (b 11) @ hex2 (b 12)
             @ hex2 (b 13) @ hex2 (b 14) @ hex2 (b 15))"

section \<open>The layout of a version 4 UUID\<close>

definition is_hex :: "char \<Rightarrow> bool" where
  "is_hex c \<longleftrightarrow> c \<in> set ''0123456789abcdef''"

text \<open>Groups of 8, 4, 4, 4 and 12 hexadecimal digits, version digit 4, variant digit 8 to b.\<close>

definition uuid_v4_format :: "string \<Rightarrow> bool" where
  "uuid_v4_format s \<longleftrightarrow> length s = 36 \<and>
     s ! 8 = CHR ''-'' \<and> s ! 13 = CHR ''-'' \<and> s ! 18 = CHR ''-'' \<and> s ! 23 = CHR ''-'' \<and>
     list_all is_hex (take 8 s @ take 4 (drop 9 s) @ take 4 (drop 14 s) @ take 4 (drop 19 s)
       @ drop 24 s) \<and>
     s ! 14 = CHR ''4'' \<and> s ! 19 \<in> set ''89ab''"

lemma hex_digit_is_hex: "n < 16 \<Longrightarrow> is_hex (hex_digit n)"
  unfolding is_hex_def hex_digit_def by (rule nth_mem) simp

lemma hex2_length [simp]: "length (hex2 b) = 2"
  by (simp add: hex2_def)

lemma unat8: "unat (b :: 8 word) < 256"
  using unsigned_less [of b] by simp

lemma hex2_hex: "c \<in> set (hex2 b) \<Longrightarrow> is_hex c"
  using unat8 [of b] by (auto simp: hex2_def intro!: hex_digit_is_hex)

lemma unat_div16: "unat (b :: 8 word) div 16 = unat (drop_bit 4 b)"
  by (simp add: drop_bit_eq_div unat_div)

lemma version_nibble: "unat ((b AND 0x0F) OR 0x40 :: 8 word) div 16 = 4"
  by (simp add: unat_div16 drop_bit_or drop_bit_and)

lemma variant_nibble: "unat ((b AND 0x3F) OR 0x80 :: 8 word) div 16 \<in> {8, 9, 10, 11}"
proof -
  have "drop_bit 4 ((b AND 0x3F) OR 0x80) = (drop_bit 4 b AND 3) OR 8"
    by (simp add: drop_bit_or drop_bit_and)
  moreover have "drop_bit 4 b AND 3 \<in> {0, 1, 2, 3 :: 8 word}"
  proof -
    have "drop_bit 4 b AND 3 \<le> (3 :: 8 word)" by (rule word_and_le1)
    then have "unat (drop_bit 4 b AND 3) \<le> 3" by (simp add: word_le_nat_alt)
    then have "unat (drop_bit 4 b AND 3) \<in> {0, 1, 2, 3}" by auto
    then show ?thesis by (auto simp: word_unat_eq_iff)
  qed
  ultimately show ?thesis by (auto simp: unat_div16)
qed

text \<open>
  C39. Whenever \<open>RAND_bytes\<close> succeeds, \<open>Uuid::V4\<close> returns a 36-character text in the layout of a
  random (version 4, RFC 4122 variant) UUID, whatever the random bytes are; when it fails the
  result is the empty string.
\<close>

theorem V4_format: "(\<forall>b. uuid_v4_format (V4 (Some b))) \<and> V4 None = ''''"
proof (intro conjI allI)
  fix b :: "nat \<Rightarrow> 8 word"
  let ?s = "V4 (Some b)"
  let ?v = "(b 6 AND 0x0F) OR 0x40" and ?w = "(b 8 AND 0x3F) OR 0x80"
  have v: "hex_digit (unat ?v div 16) = CHR ''4''"
    by (simp only: version_nibble) (simp add: hex_digit_def)
  have w: "hex_digit (unat ?w div 16) \<in> set ''89ab''"
    using variant_nibble [of "b 8"] by (auto simp: hex_digit_def simp del: unat_div16)
  have hex: "is_hex (hex_digit (unat x div 16))" "is_hex (hex_digit (unat x mod 16))" for x :: "8 word"
    using hex2_hex [of _ x] by (simp_all add: hex2_def)
  show "uuid_v4_format ?s"
    using v w hex by (simp add: is_hex_def uuid_v4_format_def V4_def hex2_def Let_def)
qed (simp add: V4_def)

end
