(* ===== verification/Envelope.thy ===== *)
theory Envelope
  imports Json_Lib Ref_Json Time_Util Uuid
begin

text \<open>
  \<open>chat/mq/envelope.{h,cc}\<close>: the message format on the broker, in both directions.
\<close>

record 'j Envelope =
  msg_id :: string
  version :: int
  occurred_at :: string
  source :: string
  env_type :: string
  payload :: 'j

definition EnvelopeToJson :: "'j json_lib \<Rightarrow> 'j Envelope \<Rightarrow> 'j" where
  "EnvelopeToJson J env =
     (let out = j_null J;
          out = j_set J out ''msgId'' (j_string J (msg_id env));
          out = j_set J out ''version'' (j_int J (version env));
          out = j_set J out ''occurredAt'' (j_string J (occurred_at env));
          out = j_set J out ''source'' (j_string J (source env));
          out = j_set J out ''type'' (j_string J (env_type env))
      in j_set J out ''payload'' (payload env))"

definition EnvelopeToString :: "'j json_lib \<Rightarrow> 'j Envelope \<Rightarrow> string" where
  "EnvelopeToString J env = j_print J (EnvelopeToJson J env)"

definition EnvelopeFromJson :: "'j json_lib \<Rightarrow> 'j \<Rightarrow> (string + 'j Envelope) option" where
  "EnvelopeFromJson J input =
     (if \<not> j_is_object J input then Some (Inl ''envelope must be object'')
      else do {
        mi \<leftarrow> get_string J input ''msgId'';
        ver \<leftarrow> get_int J input ''version'';
        oa \<leftarrow> get_string J input ''occurredAt'';
        src \<leftarrow> get_string J input ''source'';
        ty \<leftarrow> get_string J input ''type'';
        pl \<leftarrow> j_member J input ''payload'';
        if mi = [] \<or> ty = [] \<or> ver \<le> 0 then Some (Inl ''envelope required fields missing'')
        else
          let pl = (if \<not> j_is_object J pl \<and> \<not> j_is_array J pl then j_object J else pl)
          in Some (Inr \<lparr>msg_id = mi, version = ver, occurred_at = oa, source = src, env_type = ty,
                       payload = pl\<rparr>)
      })"

definition EnvelopeFromString :: "'j json_lib \<Rightarrow> string \<Rightarrow> (string + 'j Envelope) option" where
  "EnvelopeFromString J input =
     (case j_parse J input of
        None \<Rightarrow> Some (Inl ''envelope json parse failed'')
      | Some json \<Rightarrow> EnvelopeFromJson J json)"

definition BuildEnvelope ::
  "(nat \<Rightarrow> 8 word) option \<Rightarrow> int \<Rightarrow> string \<Rightarrow> string \<Rightarrow> 'j \<Rightarrow> 'j Envelope" where
  "BuildEnvelope rand_bytes now_ms src type pl =
     \<lparr>msg_id = V4 rand_bytes, version = 1, occurred_at = Iso8601Now now_ms, source = src,
      env_type = type, payload = pl\<rparr>"

section \<open>Properties\<close>

definition envelope_valid :: "'j json_lib \<Rightarrow> 'j Envelope \<Rightarrow> bool" where
  "envelope_valid J env \<longleftrightarrow> msg_id env \<noteq> [] \<and> env_type env \<noteq> [] \<and> 0 < version env \<and>
     version env < 2 ^ 31 \<and> (j_is_object J (payload env) \<or> j_is_array J (payload env))"

lemma EnvelopeToJson_reads:
  assumes "json_laws J"
  shows "j_is_object J (EnvelopeToJson J env)"
    "get_string J (EnvelopeToJson J env) ''msgId'' = Some (msg_id env)"
    "- (2 ^ 31) \<le> version env \<Longrightarrow> version env < 2 ^ 31 \<Longrightarrow>
       get_int J (EnvelopeToJson J env) ''version'' = Some (version env)"
    "get_string J (EnvelopeToJson J env) ''occurredAt'' = Some (occurred_at env)"
    "get_string J (EnvelopeToJson J env) ''source'' = Some (source env)"
    "get_string J (EnvelopeToJson J env) ''type'' = Some (env_type env)"
    "j_member J (EnvelopeToJson J env) ''payload'' = Some (payload env)"
  by (simp_all add: EnvelopeToJson_def Let_def get_string_def get_int_def json_set [OF assms]
      json_null [OF assms] json_conv [OF assms])

lemma Envelope_decodes:
  assumes "json_laws J" "envelope_valid J env"
    and "j_parse J (EnvelopeToString J env) = Some (EnvelopeToJson J env)"
  shows "EnvelopeFromString J (EnvelopeToString J env) = Some (Inr env)"
  using assms(2) EnvelopeToJson_reads [OF assms(1), of env]
  by (auto simp: EnvelopeFromString_def assms(3) EnvelopeFromJson_def envelope_valid_def Let_def)

text \<open>
  C34. Every valid envelope (message id, type, positive version, object or array payload) is read
  back unchanged from the text it is published as, provided the JSON library parses its own output.
\<close>

theorem Envelope_roundtrip:
  assumes "json_laws J" "envelope_valid J env"
    and "j_parse J (EnvelopeToString J env) = Some (EnvelopeToJson J env)"
  shows "EnvelopeFromString J (EnvelopeToString J env) = Some (Inr env)"
  by (rule Envelope_decodes [OF assms])

definition demo_env :: "json Envelope" where
  "demo_env = \<lparr>msg_id = ''m'', version = 1, occurred_at = ''t'', source = ''s'', env_type = ''x'',
     payload = JObj []\<rparr>"

definition demo_env_json :: json where
  "demo_env_json = JObj [(''msgId'', JStr ''m''), (''version'', JInt 1), (''occurredAt'', JStr ''t''),
     (''source'', JStr ''s''), (''type'', JStr ''x''), (''payload'', JObj [])]"

theorem Envelope_roundtrip_witness:
  "EnvelopeFromString (ref_json [(print_json demo_env_json, demo_env_json)])
     (print_json demo_env_json) = Some (Inr demo_env)"
proof -
  let ?J = "ref_json [(print_json demo_env_json, demo_env_json)]"
  have j: "EnvelopeToJson ?J demo_env = demo_env_json"
    by (simp add: EnvelopeToJson_def demo_env_def demo_env_json_def ref_json_defs)
  then have s: "EnvelopeToString ?J demo_env = print_json demo_env_json"
    by (simp add: EnvelopeToString_def) (simp add: ref_json_def)
  have "envelope_valid ?J demo_env"
    by (simp add: envelope_valid_def demo_env_def ref_json_def)
  moreover have "j_parse ?J (print_json demo_env_json) = Some demo_env_json"
    by (simp add: ref_json_def)
  ultimately show ?thesis
    using Envelope_roundtrip [OF ref_json_laws, of "[(print_json demo_env_json, demo_env_json)]" demo_env]
      j s by simp
qed

text \<open>
  Whatever text arrives from the broker, an envelope that is accepted has a nonempty message id
  and type, a positive version, and a payload that is an object or an array (anything else is
  replaced by the empty object).
\<close>

theorem EnvelopeFromString_valid:
  assumes "json_laws J" "EnvelopeFromString J input = Some (Inr env)"
  shows "msg_id env \<noteq> [] \<and> env_type env \<noteq> [] \<and> 0 < version env \<and>
    (j_is_object J (payload env) \<or> j_is_array J (payload env))"
  using assms(2) json_null(2) [OF assms(1)]
  by (auto simp: EnvelopeFromString_def EnvelopeFromJson_def Let_def
      split: option.splits bind_splits if_splits)

theorem EnvelopeFromString_valid_witness:
  "\<exists>env. EnvelopeFromString (ref_json [(''E'', JObj [(''msgId'', JStr ''m''), (''version'', JInt 2),
       (''type'', JStr ''x''), (''payload'', JInt 3)])]) ''E'' = Some (Inr env) \<and>
     msg_id env \<noteq> [] \<and> payload env = JObj []"
proof -
  let ?J = "ref_json [(''E'', JObj [(''msgId'', JStr ''m''), (''version'', JInt 2),
       (''type'', JStr ''x''), (''payload'', JInt 3)])]"
  obtain env where e: "EnvelopeFromString ?J ''E'' = Some (Inr env)" "payload env = JObj []"
    by (simp add: EnvelopeFromString_def EnvelopeFromJson_def Let_def ref_json_defs)
  with EnvelopeFromString_valid [OF ref_json_laws e(1)] show ?thesis by blast
qed

lemma BuildEnvelope_is_valid:
  assumes "json_laws J" "type \<noteq> []" "j_is_object J pl"
  shows "envelope_valid J (BuildEnvelope rand_bytes now src type pl) \<longleftrightarrow> rand_bytes \<noteq> None"
proof -
  have "V4 (Some b) \<noteq> []" for b
    by (simp add: V4_def Let_def hex2_def)
  then show ?thesis
    using assms by (cases rand_bytes) (simp_all add: envelope_valid_def BuildEnvelope_def V4_def)
qed

text \<open>
  The code builds envelopes that survive the round trip: with random bytes available, a nonempty
  routing key and an object payload, \<open>BuildEnvelope\<close> yields a valid envelope; when \<open>RAND_bytes\<close> fails
  the message id is empty and every receiver rejects the envelope.
\<close>

theorem BuildEnvelope_valid:
  assumes "json_laws J" "type \<noteq> []" "j_is_object J pl"
  shows "(envelope_valid J (BuildEnvelope rand_bytes now src type pl) \<longleftrightarrow> rand_bytes \<noteq> None) \<and>
    EnvelopeFromJson J (EnvelopeToJson J (BuildEnvelope None now src type pl)) =
      Some (Inl ''envelope required fields missing'')"
proof -
  have "envelope_valid J (BuildEnvelope rand_bytes now src type pl) \<longleftrightarrow> rand_bytes \<noteq> None"
    by (rule BuildEnvelope_is_valid [OF assms])
  moreover have "EnvelopeFromJson J (EnvelopeToJson J (BuildEnvelope None now src type pl)) =
      Some (Inl ''envelope required fields missing'')"
    using EnvelopeToJson_reads [OF assms(1), of "BuildEnvelope None now src type pl"]
    by (simp add: EnvelopeFromJson_def) (simp add: BuildEnvelope_def V4_def)
  ultimately show ?thesis by blast
qed

theorem BuildEnvelope_valid_witness:
  "envelope_valid (ref_json []) (BuildEnvelope (Some (\<lambda>_. 0)) 0 ''chat'' ''k'' (JObj []))"
  using BuildEnvelope_valid [OF ref_json_laws, of "''k''" "[]" "JObj []" "Some (\<lambda>_. 0)" 0 "''chat''"]
  by (simp add: ref_json_def)

end
