(* ===== verification/Session_Registry.thy ===== *)
theory Session_Registry
  imports Prelude
begin

text \<open>
  \<open>chat/session/online_conn.h\<close> and \<open>session_registry.{h,cc}\<close>. The connection objects are shared
  (registry, scheduled closures, callers), so they live in a heap: a \<open>shared_ptr\<close> is an address, the
  null pointer is \<open>None\<close>, and a \<open>shared_ptr\<close> always points to a live object (a total heap). The two
  nested \<open>unordered_map\<close>s are association lists in their iteration order. A null session or IO
  manager pointer of a connection is \<open>None\<close>.
\<close>

type_synonym ptr = nat

record OnlineConn =
  oc_user_id :: u64
  oc_device_id :: string
  oc_session :: "nat option"
  oc_io_manager :: "nat option"
  oc_login_at :: int
  oc_last_active_ts :: int
  oc_bucket_refill_ts :: int
  oc_bucket_tokens :: int

type_synonym heap = "ptr \<Rightarrow> OnlineConn"

definition new_OnlineConn ::
  "u64 \<Rightarrow> string \<Rightarrow> nat option \<Rightarrow> nat option \<Rightarrow> int \<Rightarrow> int \<Rightarrow> OnlineConn" where
  "new_OnlineConn uid did s iom now_ms rate_limit =
     \<lparr>oc_user_id = uid, oc_device_id = did, oc_session = s, oc_io_manager = iom, oc_login_at = now_ms,
      oc_last_active_ts = now_ms, oc_bucket_refill_ts = now_ms, oc_bucket_tokens = rate_limit\<rparr>"

definition ConsumeToken :: "int \<Rightarrow> int \<Rightarrow> OnlineConn \<Rightarrow> bool \<times> OnlineConn" where
  "ConsumeToken now_ms rate_limit c =
     (let refill_ts = oc_bucket_refill_ts c;
          tokens = oc_bucket_tokens c;
          (tokens, c) = (if i64 (now_ms - refill_ts) \<ge> 1000
                         then (rate_limit, c\<lparr>oc_bucket_refill_ts := now_ms,
                                             oc_bucket_tokens := rate_limit\<rparr>)
                         else (tokens, c))
      in if tokens \<le> 0 then (False, c)
         else (True, c\<lparr>oc_bucket_tokens := tokens - 1\<rparr>))"

record SessionRegistry =
  m_conns :: "(u64 \<times> (string \<times> ptr) list) list"

definition empty_registry :: SessionRegistry where
  "empty_registry = \<lparr>m_conns = []\<rparr>"

text \<open>The inner map of a user, empty when \<open>m_conns[user_id]\<close> has to create it.\<close>

definition devices :: "SessionRegistry \<Rightarrow> u64 \<Rightarrow> (string \<times> ptr) list" where
  "devices r uid = (case map_of (m_conns r) uid of None \<Rightarrow> [] | Some m \<Rightarrow> m)"

text \<open>The scan for the oldest login: from \<open>begin()\<close>, replaced on a strictly smaller login time.\<close>

fun oldest_scan :: "heap \<Rightarrow> string \<times> ptr \<Rightarrow> (string \<times> ptr) list \<Rightarrow> string \<times> ptr" where
  "oldest_scan h oldest [] = oldest"
| "oldest_scan h oldest (it # its) =
     oldest_scan h (if oc_login_at (h (snd it)) < oc_login_at (h (snd oldest)) then it else oldest) its"

definition oldest :: "heap \<Rightarrow> (string \<times> ptr) list \<Rightarrow> string \<times> ptr" where
  "oldest h m = oldest_scan h (hd m) m"

text \<open>The eviction loop: evicted connections in order, and the map that is left.\<close>

lemma oldest_scan_in: "oldest_scan h p m \<in> set (p # m)"
proof (induction m arbitrary: p)
  case Nil
  show ?case by simp
next
  case (Cons q m)
  from Cons [of "if oc_login_at (h (snd q)) < oc_login_at (h (snd p)) then q else p"]
  show ?case by (auto split: if_splits)
qed

lemma oldest_in: "m \<noteq> [] \<Longrightarrow> oldest h m \<in> set m"
  using oldest_scan_in [of h "hd m" m] by (auto simp: oldest_def)

function evict_loop :: "heap \<Rightarrow> nat \<Rightarrow> (string \<times> ptr) list \<Rightarrow> ptr list \<times> (string \<times> ptr) list" where
  "evict_loop h max_devices m =
     (if length m > max_devices \<and> m \<noteq> [] then
        let old = oldest h m;
            (evicted, m') = evict_loop h max_devices (AList.delete (fst old) m)
        in (snd old # evicted, m')
      else ([], m))"
  by pat_completeness auto
termination
proof (relation "measure (\<lambda>(h, n, m). length m)", goal_cases)
  case 1
  show ?case by simp
next
  case (2 h n m x)
  then have "x \<in> set m" using oldest_in [of m h] by simp
  then have "length (filter (\<lambda>p. fst p \<noteq> fst x) m) < length m"
    by (intro length_filter_less) auto
  then show ?case by (simp add: delete_filter)
qed

declare evict_loop.simps [simp del]

definition Add ::
  "heap \<Rightarrow> ptr option \<Rightarrow> nat \<Rightarrow> SessionRegistry \<Rightarrow> ptr option \<times> ptr list \<times> SessionRegistry" where
  "Add h conn max_devices r =
     (case conn of
        None \<Rightarrow> (None, [], r)
      | Some c \<Rightarrow>
          let uid = oc_user_id (h c); did = oc_device_id (h c);
              by_device = devices r uid;
              replaced = map_of by_device did;
              by_device = AList.update did c (AList.delete did by_device);
              (evicted, by_device) = evict_loop h max_devices by_device
          in (replaced, evicted, r\<lparr>m_conns := AList.update uid by_device (m_conns r)\<rparr>))"

definition Remove :: "u64 \<Rightarrow> string \<Rightarrow> SessionRegistry \<Rightarrow> bool \<times> SessionRegistry" where
  "Remove uid did r =
     (case map_of (m_conns r) uid of
        None \<Rightarrow> (False, r)
      | Some m \<Rightarrow>
          let m = AList.delete did m
          in (True, r\<lparr>m_conns := (if m = [] then AList.delete uid (m_conns r)
                                  else AList.update uid m (m_conns r))\<rparr>))"

definition Get :: "u64 \<Rightarrow> string \<Rightarrow> SessionRegistry \<Rightarrow> ptr option" where
  "Get uid did r = (case map_of (m_conns r) uid of None \<Rightarrow> None | Some m \<Rightarrow> map_of m did)"

definition GetByUser :: "u64 \<Rightarrow> SessionRegistry \<Rightarrow> ptr list" where
  "GetByUser uid r = (case map_of (m_conns r) uid of None \<Rightarrow> [] | Some m \<Rightarrow> map snd m)"

definition IsUserOnline :: "u64 \<Rightarrow> SessionRegistry \<Rightarrow> bool" where
  "IsUserOnline uid r = (map_of (m_conns r) uid \<noteq> None)"

definition UserConnectionCount :: "u64 \<Rightarrow> SessionRegistry \<Rightarrow> nat" where
  "UserConnectionCount uid r = (case map_of (m_conns r) uid of None \<Rightarrow> 0 | Some m \<Rightarrow> length m)"

definition Touch :: "u64 \<Rightarrow> string \<Rightarrow> int \<Rightarrow> SessionRegistry \<Rightarrow> heap \<Rightarrow> heap" where
  "Touch uid did now_ms r h =
     (case map_of (m_conns r) uid of
        None \<Rightarrow> h
      | Some m \<Rightarrow> (case map_of m did of
                    None \<Rightarrow> h
                  | Some c \<Rightarrow> h(c := (h c)\<lparr>oc_last_active_ts := now_ms\<rparr>)))"

definition CollectTimeouted :: "heap \<Rightarrow> int \<Rightarrow> SessionRegistry \<Rightarrow> ptr list" where
  "CollectTimeouted h deadline_ms r =
     concat (map (\<lambda>(uid, m). filter (\<lambda>c. oc_last_active_ts (h c) \<le> deadline_ms) (map snd m)) (m_conns r))"

definition OnlineUsers :: "SessionRegistry \<Rightarrow> nat" where
  "OnlineUsers r = length (m_conns r)"

definition OnlineConnections :: "SessionRegistry \<Rightarrow> nat" where
  "OnlineConnections r = foldl (\<lambda>total (uid, m). total + length m) 0 (m_conns r)"

section \<open>The invariant\<close>

text \<open>
  Keys are distinct, no user has an empty map or more than \<open>max\<close> devices, and every connection is
  filed under the user and device it was created for.
\<close>

definition devices_wf :: "heap \<Rightarrow> nat \<Rightarrow> u64 \<Rightarrow> (string \<times> ptr) list \<Rightarrow> bool" where
  "devices_wf h mx uid m \<longleftrightarrow> distinct (keys m) \<and> m \<noteq> [] \<and> length m \<le> mx \<and>
     (\<forall>did c. (did, c) \<in> set m \<longrightarrow> oc_user_id (h c) = uid \<and> oc_device_id (h c) = did)"

definition registry_wf :: "heap \<Rightarrow> nat \<Rightarrow> SessionRegistry \<Rightarrow> bool" where
  "registry_wf h mx r \<longleftrightarrow> distinct (keys (m_conns r)) \<and>
     (\<forall>uid m. map_of (m_conns r) uid = Some m \<longrightarrow> devices_wf h mx uid m)"

lemma registry_wf_empty [reg_rules]: "registry_wf h mx empty_registry"
  by (simp add: registry_wf_def empty_registry_def)

lemma Get_devices: "Get uid did r = map_of (devices r uid) did"
  by (simp add: Get_def devices_def split: option.split)

lemma GetByUser_devices: "GetByUser uid r = map snd (devices r uid)"
  by (simp add: GetByUser_def devices_def split: option.split)

lemma UserConnectionCount_devices: "UserConnectionCount uid r = length (devices r uid)"
  by (simp add: UserConnectionCount_def devices_def split: option.split)

lemma IsUserOnline_devices: "registry_wf h mx r \<Longrightarrow> IsUserOnline uid r \<longleftrightarrow> devices r uid \<noteq> []"
  by (auto simp: IsUserOnline_def devices_def registry_wf_def devices_wf_def split: option.split)

lemma devices_facts [reg_rules]:
  assumes "registry_wf h mx r"
  shows "distinct (keys (devices r uid))" "length (devices r uid) \<le> mx"
    "(did, c) \<in> set (devices r uid) \<Longrightarrow> oc_user_id (h c) = uid \<and> oc_device_id (h c) = did"
  using assms by (auto simp: devices_def registry_wf_def devices_wf_def split: option.splits)

text \<open>The eviction loop keeps the newest logins.\<close>

lemma oldest_scan_le:
  "\<forall>q \<in> set (p # m). oc_login_at (h (snd (oldest_scan h p m))) \<le> oc_login_at (h (snd q))"
proof (induction m arbitrary: p)
  case Nil
  show ?case by simp
next
  case (Cons q m)
  from Cons [of "if oc_login_at (h (snd q)) < oc_login_at (h (snd p)) then q else p"]
  show ?case by (auto split: if_splits)
qed

lemma oldest_le: "q \<in> set m \<Longrightarrow> oc_login_at (h (snd (oldest h m))) \<le> oc_login_at (h (snd q))"
  using oldest_scan_le [of "hd m" m h] by (auto simp: oldest_def)

lemma evict_loop_spec:
  assumes "distinct (keys m)" "evict_loop h n m = (ev, m')"
  shows "distinct (keys m') \<and> set m' \<subseteq> set m \<and> length m' = min n (length m) \<and>
    length ev + length m' = length m \<and> set ev = snd ` (set m - set m') \<and>
    (\<forall>e \<in> set ev. \<forall>k \<in> set m'. oc_login_at (h e) \<le> oc_login_at (h (snd k)))"
  using assms
proof (induction h n m arbitrary: ev m' rule: evict_loop.induct)
  case (1 h n m)
  show ?case
  proof (cases "length m > n \<and> m \<noteq> []")
    case False
    with "1.prems" show ?thesis by (auto simp: evict_loop.simps [of h n m])
  next
    case True
    define x where "x = oldest h m"
    define d where "d = AList.delete (fst x) m"
    obtain ev' where ev': "evict_loop h n d = (ev', m')" "ev = snd x # ev'"
      using "1.prems"(2) True
      by (auto simp: evict_loop.simps [of h n m] Let_def x_def d_def split: prod.splits)
    have xm: "x \<in> set m" using True oldest_in by (simp add: x_def)
    have dd: "distinct (keys d)" using "1.prems"(1) by (simp add: d_def keys_delete)
    have set_d: "set d = set m - {x}"
      using "1.prems"(1) xm by (auto simp: d_def set_delete distinct_map inj_on_def)
    have len: "length m = Suc (length d)"
      using length_delete_distinct [OF "1.prems"(1), of "fst x"] xm True
      by (auto simp: d_def)
    from "1.IH" [OF True x_def] dd ev'(1)
    have IH: "distinct (keys m') \<and> set m' \<subseteq> set d \<and> length m' = min n (length d) \<and>
      length ev' + length m' = length d \<and> set ev' = snd ` (set d - set m') \<and>
      (\<forall>e \<in> set ev'. \<forall>k \<in> set m'. oc_login_at (h e) \<le> oc_login_at (h (snd k)))"
      by (simp add: d_def)
    moreover have "oc_login_at (h (snd x)) \<le> oc_login_at (h (snd k))" if "k \<in> set m'" for k
      using that IH set_d oldest_le [of k m h] by (auto simp: x_def)
    moreover have "set m - set m' = insert x (set d - set m')" using set_d xm IH by auto
    ultimately show ?thesis using True len set_d by (auto simp: ev'(2))
  qed
qed

section \<open>Add\<close>

lemma devices_update:
  "devices (r\<lparr>m_conns := AList.update uid m (m_conns r)\<rparr>) u = (if u = uid then m else devices r u)"
  by (simp add: devices_def)

lemma registry_wf_update:
  assumes "registry_wf h mx r" "devices_wf h mx uid m"
  shows "registry_wf h mx (r\<lparr>m_conns := AList.update uid m (m_conns r)\<rparr>)"
  using assms by (simp add: registry_wf_def distinct_update)

lemma Add_unfold:
  assumes "registry_wf h mx r" "1 \<le> mx" "Add h (Some c) mx r = (rep, ev, r')"
  obtains m' where
    "evict_loop h mx (AList.delete (oc_device_id (h c)) (devices r (oc_user_id (h c)))
        @ [(oc_device_id (h c), c)]) = (ev, m')"
    "rep = Get (oc_user_id (h c)) (oc_device_id (h c)) r"
    "\<And>u. devices r' u = (if u = oc_user_id (h c) then m' else devices r u)"
    "devices_wf h mx (oc_user_id (h c)) m'"
    "registry_wf h mx r'"
proof -
  let ?u = "oc_user_id (h c)" and ?d = "oc_device_id (h c)"
  let ?m = "AList.delete ?d (devices r ?u) @ [(?d, c)]"
  have m: "AList.update ?d c (AList.delete ?d (devices r ?u)) = ?m"
    by (rule update_new_key) (auto simp: keys_delete)
  obtain m' where ev: "evict_loop h mx ?m = (ev, m')"
    and rep: "rep = map_of (devices r ?u) ?d"
    and r': "r' = r\<lparr>m_conns := AList.update ?u m' (m_conns r)\<rparr>"
  proof (cases "evict_loop h mx ?m")
    case (Pair ev1 m1)
    with assms(3) m show ?thesis by (simp add: Add_def Let_def that)
  qed
  have "distinct (keys ?m)" using devices_facts(1) [OF assms(1)] by (auto simp: keys_delete)
  note spec = evict_loop_spec [OF this ev]
  have mem: "oc_user_id (h p) = ?u \<and> oc_device_id (h p) = d" if "(d, p) \<in> set ?m" for d p
  proof -
    from that consider "(d, p) \<in> set (devices r ?u)" | "d = ?d" "p = c" by (auto simp: set_delete)
    then show ?thesis using devices_facts(3) [OF assms(1)] by cases simp_all
  qed
  have "length m' = min mx (length ?m)" using spec by blast
  then have "m' \<noteq> []" "length m' \<le> mx" using assms(2) by auto
  moreover have "oc_user_id (h p) = ?u \<and> oc_device_id (h p) = d" if "(d, p) \<in> set m'" for d p
    using spec that by (intro mem) blast
  ultimately have wf: "devices_wf h mx ?u m'"
    using spec by (simp add: devices_wf_def)
  show ?thesis
  proof (rule that [OF ev _ _ wf])
    show "rep = Get ?u ?d r" by (simp add: rep Get_devices)
    show "\<And>u. devices r' u = (if u = ?u then m' else devices r u)"
      unfolding r' by (rule devices_update)
    show "registry_wf h mx r'" unfolding r' by (rule registry_wf_update [OF assms(1) wf])
  qed
qed

lemma Add_result:
  assumes "registry_wf h mx r" "1 \<le> mx" "Add h (Some c) mx r = (rep, ev, r')"
  shows "registry_wf h mx r' \<and> rep = Get (oc_user_id (h c)) (oc_device_id (h c)) r \<and>
    (\<forall>u. u \<noteq> oc_user_id (h c) \<longrightarrow> devices r' u = devices r u) \<and> length ev \<le> 1 \<and>
    set ev \<union> set (GetByUser (oc_user_id (h c)) r') =
      insert c {p. \<exists>d. d \<noteq> oc_device_id (h c) \<and> Get (oc_user_id (h c)) d r = Some p} \<and>
    (\<forall>e \<in> set ev. \<forall>k \<in> set (GetByUser (oc_user_id (h c)) r').
       oc_login_at (h e) \<le> oc_login_at (h k))"
proof (rule Add_unfold [OF assms])
  let ?u = "oc_user_id (h c)" and ?d = "oc_device_id (h c)"
  let ?m = "AList.delete ?d (devices r ?u) @ [(?d, c)]"
  fix m'
  assume ev: "evict_loop h mx ?m = (ev, m')" and rep: "rep = Get ?u ?d r"
    and dev: "\<And>u. devices r' u = (if u = ?u then m' else devices r u)"
    and wf: "registry_wf h mx r'"
  have dist: "distinct (keys ?m)" using devices_facts(1) [OF assms(1)] by (auto simp: keys_delete)
  note spec = evict_loop_spec [OF dist ev]
  have "length (AList.delete ?d (devices r ?u)) \<le> mx"
    using devices_facts(2) [OF assms(1), of ?u] length_filter_le
    by (metis delete_filter le_trans)
  then have "length ev \<le> 1" using spec by auto
  moreover have "snd ` set ?m = insert c {p. \<exists>d. d \<noteq> ?d \<and> Get ?u d r = Some p}"
    using devices_facts(1) [OF assms(1), of ?u]
    by (force simp: set_delete Get_devices)
  moreover have "set ev \<union> snd ` set m' = snd ` set ?m"
  proof -
    have "set m' \<subseteq> set ?m" "set ev = snd ` (set ?m - set m')" using spec by blast+
    then show ?thesis by (simp only: image_Un [symmetric] Un_Diff_cancel2 Un_absorb2)
  qed
  moreover have "GetByUser ?u r' = map snd m'" using dev by (simp add: GetByUser_devices)
  moreover have "\<forall>e \<in> set ev. \<forall>k \<in> snd ` set m'. oc_login_at (h e) \<le> oc_login_at (h k)"
    using spec by blast
  ultimately show ?thesis using wf rep dev by simp
qed

text \<open>
  C19. Adding a connection keeps the registry well formed (in particular no user exceeds the device
  limit), returns the previous connection of the same device as \<open>replaced\<close>, and leaves every other
  user alone. Of the user's other connections and the new one, all are kept or reported as evicted,
  at most one is evicted, and an evicted one is no newer than any that is kept.
\<close>

theorem Add_spec:
  assumes "registry_wf h mx r" "1 \<le> mx" "Add h (Some c) mx r = (rep, ev, r')"
  shows "registry_wf h mx r' \<and> rep = Get (oc_user_id (h c)) (oc_device_id (h c)) r \<and>
    (\<forall>u. u \<noteq> oc_user_id (h c) \<longrightarrow> devices r' u = devices r u) \<and> length ev \<le> 1 \<and>
    set ev \<union> set (GetByUser (oc_user_id (h c)) r') =
      insert c {p. \<exists>d. d \<noteq> oc_device_id (h c) \<and> Get (oc_user_id (h c)) d r = Some p} \<and>
    (\<forall>e \<in> set ev. \<forall>k \<in> set (GetByUser (oc_user_id (h c)) r').
       oc_login_at (h e) \<le> oc_login_at (h k))"
  by (rule Add_result [OF assms])

text \<open>
  The new connection itself survives \<open>Add\<close> whenever it logged in strictly later than the user's
  other devices: it is found under its user and device afterwards and is not reported as evicted.
\<close>

text \<open>The eviction keeps an entry that logged in after all the others.\<close>

lemma evict_keeps_newest:
  assumes "distinct (keys m)" "evict_loop h mx m = (ev, m')" "m' \<noteq> []" "(d, c) \<in> set m"
    and newest: "\<And>d' p. (d', p) \<in> set m \<Longrightarrow> d' \<noteq> d \<Longrightarrow> oc_login_at (h p) < oc_login_at (h c)"
  shows "(d, c) \<in> set m' \<and> c \<notin> set ev"
proof -
  note spec = evict_loop_spec [OF assms(1,2)]
  from spec have sub: "set m' \<subseteq> set m" and gone: "set ev = snd ` (set m - set m')"
    and older: "\<forall>e \<in> set ev. \<forall>k \<in> set m'. oc_login_at (h e) \<le> oc_login_at (h (snd k))" by blast+
  have only: "d' = d" if "(d', c) \<in> set m" for d' using newest [OF that] by auto
  have not_ev: "c \<notin> set ev"
  proof
    assume c: "c \<in> set ev"
    then obtain d1 where "(d1, c) \<in> set m - set m'" unfolding gone by auto
    with only have out: "(d, c) \<notin> set m'" by blast
    obtain d' p where p: "(d', p) \<in> set m'" using assms(3) by (cases m') auto
    with older c have le: "oc_login_at (h c) \<le> oc_login_at (h p)" by force
    have "d' \<noteq> d"
    proof
      assume "d' = d"
      with p sub assms(1,4) have "p = c" by (metis Some_eq_map_of_iff option.inject subsetD)
      with \<open>d' = d\<close> p out show False by simp
    qed
    with newest p sub le show False by fastforce
  qed
  moreover have "(d, c) \<in> set m'"
  proof (rule ccontr)
    assume "(d, c) \<notin> set m'"
    with assms(4) have "c \<in> set ev" unfolding gone by force
    with not_ev show False ..
  qed
  ultimately show ?thesis by simp
qed

lemma Add_newest:
  assumes "registry_wf h mx r" "1 \<le> mx" "Add h (Some c) mx r = (rep, ev, r')"
    and newest: "\<forall>p \<in> set (GetByUser (oc_user_id (h c)) r).
      oc_device_id (h p) \<noteq> oc_device_id (h c) \<longrightarrow> oc_login_at (h p) < oc_login_at (h c)"
  shows "Get (oc_user_id (h c)) (oc_device_id (h c)) r' = Some c \<and> c \<notin> set ev"
proof (rule Add_unfold [OF assms(1-3)])
  let ?u = "oc_user_id (h c)" and ?d = "oc_device_id (h c)"
  let ?m = "AList.delete ?d (devices r ?u) @ [(?d, c)]"
  fix m'
  assume ev: "evict_loop h mx ?m = (ev, m')"
    and dev: "\<And>u. devices r' u = (if u = ?u then m' else devices r u)"
    and wf: "devices_wf h mx ?u m'"
  have dist: "distinct (keys ?m)" using devices_facts(1) [OF assms(1)] by (auto simp: keys_delete)
  have older: "oc_login_at (h p) < oc_login_at (h c)" if "(d, p) \<in> set ?m" "d \<noteq> ?d" for d p
  proof -
    from that have "(d, p) \<in> set (devices r ?u)" by (auto simp: set_delete)
    with devices_facts(3) [OF assms(1) this] newest that(2) show ?thesis
      by (force simp: GetByUser_devices)
  qed
  have "m' \<noteq> []" using wf by (simp add: devices_wf_def)
  moreover have "(?d, c) \<in> set ?m" by simp
  ultimately have "(?d, c) \<in> set m' \<and> c \<notin> set ev"
    by (rule evict_keeps_newest [OF dist ev _ _ older])
  moreover from wf have "distinct (keys m')" by (simp add: devices_wf_def)
  ultimately show ?thesis using dev by (simp add: Get_devices)
qed

section \<open>Remove\<close>

lemma Remove_wf [reg_rules]:
  assumes "registry_wf h mx r"
  shows "registry_wf h mx (snd (Remove uid did r))"
proof (cases "map_of (m_conns r) uid")
  case None
  with assms show ?thesis by (simp add: Remove_def)
next
  case (Some m)
  from assms Some have m: "devices_wf h mx uid m" by (simp add: registry_wf_def)
  show ?thesis
  proof (cases "AList.delete did m = []")
    case True
    with assms Some show ?thesis
      by (simp add: Remove_def registry_wf_def keys_delete)
  next
    case False
    have "length (AList.delete did m) \<le> length m" by (simp add: delete_filter)
    with m False have "devices_wf h mx uid (AList.delete did m)"
      by (auto simp: devices_wf_def keys_delete set_delete)
    from registry_wf_update [OF assms this] Some False show ?thesis by (simp add: Remove_def)
  qed
qed

lemma Remove_devices:
  "devices (snd (Remove uid did r)) u =
     (if u = uid then AList.delete did (devices r uid) else devices r u)"
proof (cases "map_of (m_conns r) uid")
  case None
  then show ?thesis by (simp add: Remove_def devices_def)
next
  case (Some m)
  then show ?thesis by (cases "AList.delete did m = []") (simp_all add: Remove_def devices_def)
qed

text \<open>
  Removing a device keeps the registry well formed, forgets exactly the connection filed under that
  user and device, reports whether the user had any connection, and the user stays online just
  when another device of theirs is connected.
\<close>

lemma Remove_result:
  assumes "registry_wf h mx r" "Remove uid did r = (known, r')"
  shows "registry_wf h mx r' \<and> known = IsUserOnline uid r \<and>
    (\<forall>u d. Get u d r' = (if u = uid \<and> d = did then None else Get u d r)) \<and>
    (IsUserOnline uid r' \<longleftrightarrow> (\<exists>d c. d \<noteq> did \<and> Get uid d r = Some c))"
proof -
  from assms have r': "r' = snd (Remove uid did r)" by simp
  have wf: "registry_wf h mx r'" using Remove_wf [OF assms(1)] by (simp add: r')
  have known: "known = IsUserOnline uid r"
    using assms(2) by (auto simp: Remove_def IsUserOnline_def Let_def split: option.splits)
  have dev: "devices r' uid = AList.delete did (devices r uid)"
    by (simp add: r' Remove_devices)
  have dist: "distinct (keys (devices r uid))" by (rule devices_facts(1) [OF assms(1)])
  have online: "IsUserOnline uid r' \<longleftrightarrow> (\<exists>d c. d \<noteq> did \<and> Get uid d r = Some c)"
  proof -
    have "IsUserOnline uid r' \<longleftrightarrow> set (AList.delete did (devices r uid)) \<noteq> {}"
      using IsUserOnline_devices [OF wf] dev by simp
    also have "\<dots> \<longleftrightarrow> (\<exists>d c. d \<noteq> did \<and> (d, c) \<in> set (devices r uid))"
      by (auto simp: set_delete)
    finally show ?thesis using dist by (simp add: Get_devices)
  qed
  have "\<forall>u d. Get u d r' = (if u = uid \<and> d = did then None else Get u d r)"
    by (simp add: Get_devices r' Remove_devices)
  with wf known online show ?thesis by blast
qed

section \<open>Runs of the registry's operations\<close>

datatype reg_op = OpAdd (op_conn: "ptr option") | OpRemove u64 string

fun reg_exec :: "heap \<Rightarrow> nat \<Rightarrow> reg_op \<Rightarrow> SessionRegistry \<Rightarrow> SessionRegistry" where
  "reg_exec h mx (OpAdd c) r = snd (snd (Add h c mx r))"
| "reg_exec h mx (OpRemove uid did) r = snd (Remove uid did r)"

lemma Add_wf [reg_rules]:
  assumes "registry_wf h mx r" "1 \<le> mx"
  shows "registry_wf h mx (snd (snd (Add h c mx r)))"
proof (cases c)
  case None
  with assms show ?thesis by (simp add: Add_def)
next
  case (Some p)
  obtain rep ev r' where A: "Add h (Some p) mx r = (rep, ev, r')" by (cases "Add h (Some p) mx r")
  from Add_unfold [OF assms A] have "registry_wf h mx r'" by blast
  with Some A show ?thesis by simp
qed

text \<open>A registry that allows at least one device per user; the model's instance of the interface.\<close>

interpretation registry: preserved "reg_exec h (Suc k)" "registry_wf h (Suc k)" for h k
proof
  fix s and x :: reg_op
  assume "registry_wf h (Suc k) s"
  then show "registry_wf h (Suc k) (reg_exec h (Suc k) x s)"
    by (cases x) (simp_all add: reg_rules)
qed

section \<open>Counts and timeouts\<close>

lemma OnlineConnections_sum: "OnlineConnections r = sum_list (map (length \<circ> snd) (m_conns r))"
proof -
  have "foldl (\<lambda>total (uid, m). total + length m) n xs = n + sum_list (map (length \<circ> snd) xs)"
    for n and xs :: "(u64 \<times> (string \<times> ptr) list) list"
    by (induction xs arbitrary: n) auto
  then show ?thesis by (simp add: OnlineConnections_def)
qed

text \<open>
  Whatever sequence of connects and disconnects runs from the empty registry (with a device limit
  of at least one), the registry is well formed: every connection is filed once, under its own user
  and device, no user has more than the limit, a user counts as online just when one of their
  devices is found, and there are at most \<open>max_devices\<close> connections per online user.
\<close>

theorem registry_runs:
  assumes "1 \<le> mx" and r: "r = fold (reg_exec h mx) ops empty_registry"
  shows "registry_wf h mx r \<and> UserConnectionCount uid r \<le> mx \<and>
    (IsUserOnline uid r \<longleftrightarrow> (\<exists>did c. Get uid did r = Some c)) \<and>
    (Get uid did r = Some c \<longrightarrow> oc_user_id (h c) = uid \<and> oc_device_id (h c) = did) \<and>
    OnlineUsers r \<le> OnlineConnections r \<and> OnlineConnections r \<le> mx * OnlineUsers r"
proof -
  from assms(1) obtain k where k: "mx = Suc k" by (cases mx) auto
  from registry.run [OF registry_wf_empty] r k have wf: "registry_wf h mx r" by blast
  note facts = devices_facts [OF wf]
  have online: "IsUserOnline uid r \<longleftrightarrow> (\<exists>did c. Get uid did r = Some c)"
  proof -
    have "IsUserOnline uid r \<longleftrightarrow> set (devices r uid) \<noteq> {}" using IsUserOnline_devices [OF wf] by simp
    also have "\<dots> \<longleftrightarrow> (\<exists>d c. (d, c) \<in> set (devices r uid))" by (cases "devices r uid") auto
    finally show ?thesis using facts(1) by (simp add: Get_devices)
  qed
  have each: "1 \<le> length (snd p) \<and> length (snd p) \<le> mx" if "p \<in> set (m_conns r)" for p
  proof -
    from wf that have "devices_wf h mx (fst p) (snd p)" by (cases p) (auto simp: registry_wf_def)
    then show ?thesis by (cases "snd p") (auto simp: devices_wf_def)
  qed
  have "length xs \<le> sum_list (map (length \<circ> snd) xs) \<and> sum_list (map (length \<circ> snd) xs) \<le> mx * length xs"
    if "\<forall>p \<in> set xs. 1 \<le> length (snd p) \<and> length (snd p) \<le> mx" for xs :: "(u64 \<times> (string \<times> ptr) list) list"
    using that by (induction xs) auto
  with each have "OnlineUsers r \<le> OnlineConnections r \<and> OnlineConnections r \<le> mx * OnlineUsers r"
    by (simp add: OnlineConnections_sum OnlineUsers_def)
  with wf online facts show ?thesis
    by (simp add: UserConnectionCount_devices Get_devices)
qed

text \<open>
  A timeout scan returns a connection just when it is registered and was last active at or
  before the deadline; touching one connection takes exactly it out of the scans with an earlier
  deadline and disturbs no other.
\<close>

lemma Timeouted_result:
  assumes "registry_wf h mx r"
  shows "(c \<in> set (CollectTimeouted h deadline r) \<longleftrightarrow>
      (\<exists>uid did. Get uid did r = Some c) \<and> oc_last_active_ts (h c) \<le> deadline) \<and>
    (Get uid did r = Some p \<longrightarrow> deadline < now \<longrightarrow>
      set (CollectTimeouted (Touch uid did now r h) deadline r) =
      set (CollectTimeouted h deadline r) - {p})"
proof -
  have mem: "(\<exists>u d. Get u d r = Some c) \<longleftrightarrow> (\<exists>u m. (u, m) \<in> set (m_conns r) \<and> c \<in> snd ` set m)" for c
  proof
    assume "\<exists>u d. Get u d r = Some c"
    then show "\<exists>u m. (u, m) \<in> set (m_conns r) \<and> c \<in> snd ` set m"
      by (force simp: Get_def dest: map_of_SomeD split: option.splits)
  next
    assume "\<exists>u m. (u, m) \<in> set (m_conns r) \<and> c \<in> snd ` set m"
    then obtain u m d where um: "(u, m) \<in> set (m_conns r)" "(d, c) \<in> set m" by auto
    with assms have "map_of (m_conns r) u = Some m" "distinct (keys m)"
      by (auto simp: registry_wf_def devices_wf_def)
    with um have "Get u d r = Some c" by (simp add: Get_def)
    then show "\<exists>u d. Get u d r = Some c" by blast
  qed
  have scan: "c \<in> set (CollectTimeouted h' deadline r) \<longleftrightarrow>
      (\<exists>uid did. Get uid did r = Some c) \<and> oc_last_active_ts (h' c) \<le> deadline" for c h'
    unfolding mem by (auto simp: CollectTimeouted_def)
  have touch: "Touch uid did now r h = h(p := (h p)\<lparr>oc_last_active_ts := now\<rparr>)"
    if "Get uid did r = Some p"
    using that by (auto simp: Get_def Touch_def split: option.splits)
  have "set (CollectTimeouted (Touch uid did now r h) deadline r) =
      set (CollectTimeouted h deadline r) - {p}" if "Get uid did r = Some p" "deadline < now"
  proof (rule set_eqI)
    fix x
    show "x \<in> set (CollectTimeouted (Touch uid did now r h) deadline r) \<longleftrightarrow>
        x \<in> set (CollectTimeouted h deadline r) - {p}"
      using that(2) by (cases "x = p") (simp_all add: scan touch [OF that(1)])
  qed
  with scan show ?thesis by blast
qed

section \<open>The rate limiter\<close>

text \<open>A connection's calls of \<open>ConsumeToken\<close> at the given times: how many were granted, and the state after.\<close>

fun consume_run :: "int \<Rightarrow> int list \<Rightarrow> OnlineConn \<Rightarrow> nat \<times> OnlineConn" where
  "consume_run rate [] c = (0, c)"
| "consume_run rate (t # ts) c =
     (let (ok, c') = ConsumeToken t rate c; (n, c'') = consume_run rate ts c'
      in ((if ok then Suc n else n), c''))"

lemma ConsumeToken_budget:
  assumes "0 \<le> rate" "0 \<le> oc_bucket_refill_ts c" "oc_bucket_refill_ts c \<le> t" "t < 2 ^ 63"
    "0 \<le> oc_bucket_tokens c" "ConsumeToken t rate c = (ok, c')"
  shows "1000 * ((if ok then 1 else 0) + oc_bucket_tokens c') \<le>
      1000 * oc_bucket_tokens c + rate * (oc_bucket_refill_ts c' - oc_bucket_refill_ts c) \<and>
    oc_bucket_refill_ts c \<le> oc_bucket_refill_ts c' \<and> oc_bucket_refill_ts c' \<le> t \<and>
    0 \<le> oc_bucket_tokens c'"
proof -
  let ?d = "t - oc_bucket_refill_ts c"
  have i: "i64 ?d = ?d" using assms by simp
  show ?thesis
  proof (cases "?d \<ge> 1000")
    case False
    with assms show ?thesis by (auto simp: ConsumeToken_def i split: if_splits)
  next
    case True
    then have "1000 * rate \<le> rate * ?d" using assms(1)
      by (simp add: mult.commute mult_left_mono)
    with True assms show ?thesis
      by (auto simp: ConsumeToken_def i algebra_simps split: if_splits)
  qed
qed

lemma consume_run_budget:
  assumes "0 \<le> rate" "0 \<le> oc_bucket_refill_ts c" "0 \<le> oc_bucket_tokens c"
    "sorted (oc_bucket_refill_ts c # ts)" "\<forall>t \<in> set ts. t < 2 ^ 63"
    "consume_run rate ts c = (n, c')"
  shows "1000 * (int n + oc_bucket_tokens c') \<le>
      1000 * oc_bucket_tokens c + rate * (oc_bucket_refill_ts c' - oc_bucket_refill_ts c) \<and>
    oc_bucket_refill_ts c' \<le> last (oc_bucket_refill_ts c # ts) \<and>
    oc_bucket_refill_ts c \<le> oc_bucket_refill_ts c' \<and> 0 \<le> oc_bucket_tokens c'"
  using assms
proof (induction ts arbitrary: c n)
  case Nil
  then show ?case by simp
next
  case (Cons t ts)
  obtain ok c1 where 1: "ConsumeToken t rate c = (ok, c1)" by (cases "ConsumeToken t rate c")
  obtain n1 c2 where 2: "consume_run rate ts c1 = (n1, c2)" by (cases "consume_run rate ts c1")
  from Cons.prems(6) have n: "n = (if ok then Suc n1 else n1)" and c': "c' = c2"
    by (simp_all add: 1 2)
  have step: "1000 * ((if ok then 1 else 0) + oc_bucket_tokens c1) \<le>
      1000 * oc_bucket_tokens c + rate * (oc_bucket_refill_ts c1 - oc_bucket_refill_ts c) \<and>
    oc_bucket_refill_ts c \<le> oc_bucket_refill_ts c1 \<and> oc_bucket_refill_ts c1 \<le> t \<and>
    0 \<le> oc_bucket_tokens c1"
    using Cons.prems by (intro ConsumeToken_budget [OF _ _ _ _ _ 1]) auto
  with Cons.prems have "sorted (oc_bucket_refill_ts c1 # ts)" "0 \<le> oc_bucket_refill_ts c1" by auto
  with Cons.IH [of c1 n1] Cons.prems step 2 c' have IH:
    "1000 * (int n1 + oc_bucket_tokens c') \<le>
      1000 * oc_bucket_tokens c1 + rate * (oc_bucket_refill_ts c' - oc_bucket_refill_ts c1) \<and>
    oc_bucket_refill_ts c' \<le> last (oc_bucket_refill_ts c1 # ts) \<and>
    oc_bucket_refill_ts c1 \<le> oc_bucket_refill_ts c' \<and> 0 \<le> oc_bucket_tokens c'"
    by simp
  have "last (oc_bucket_refill_ts c1 # ts) \<le> last (oc_bucket_refill_ts c # t # ts)"
    using step by simp
  with step IH n show ?case by (auto simp: algebra_simps)
qed

text \<open>
  The rate limiter: a connection created at \<open>t0\<close> with \<open>rate\<close> messages per second is granted at
  most \<open>rate\<close> tokens for each full second that has passed plus one initial bucket of \<open>rate\<close>, however
  its calls fall (\<open>1000 * granted <= rate * (1000 + elapsed)\<close>); and once a second has passed since
  the last refill the next call is granted (for a positive rate).
\<close>

theorem rate_limit_bound:
  assumes "0 \<le> rate" "0 \<le> t0" "sorted (t0 # ts)" "\<forall>t \<in> set ts. t < 2 ^ 63"
    and run: "consume_run rate ts (new_OnlineConn uid did s iom t0 rate) = (n, c)"
  shows "1000 * int n \<le> rate * (1000 + (last (t0 # ts) - t0)) \<and>
    (0 < rate \<longrightarrow> oc_bucket_refill_ts c + 1000 \<le> t \<longrightarrow> t < 2 ^ 63 \<longrightarrow>
       ConsumeToken t rate c =
         (True, c\<lparr>oc_bucket_refill_ts := t, oc_bucket_tokens := rate - 1\<rparr>))"
proof -
  let ?c = "new_OnlineConn uid did s iom t0 rate"
  have B: "1000 * (int n + oc_bucket_tokens c) \<le>
      1000 * oc_bucket_tokens ?c + rate * (oc_bucket_refill_ts c - oc_bucket_refill_ts ?c) \<and>
    oc_bucket_refill_ts c \<le> last (oc_bucket_refill_ts ?c # ts) \<and>
    oc_bucket_refill_ts ?c \<le> oc_bucket_refill_ts c \<and> 0 \<le> oc_bucket_tokens c"
    by (rule consume_run_budget [OF assms(1) _ _ _ assms(4) run])
       (use assms in \<open>simp_all add: new_OnlineConn_def\<close>)
  then have refill: "oc_bucket_refill_ts c \<le> last (t0 # ts)" "0 \<le> oc_bucket_refill_ts c"
    using assms(2) by (simp_all add: new_OnlineConn_def)
  have "rate * (oc_bucket_refill_ts c - t0) \<le> rate * (last (t0 # ts) - t0)"
    using refill assms(1) by (intro mult_left_mono) simp_all
  with B have "1000 * int n \<le> 1000 * rate + rate * (last (t0 # ts) - t0)"
    by (simp add: new_OnlineConn_def)
  moreover have "ConsumeToken t rate c =
      (True, c\<lparr>oc_bucket_refill_ts := t, oc_bucket_tokens := rate - 1\<rparr>)"
    if "0 < rate" "oc_bucket_refill_ts c + 1000 \<le> t" "t < 2 ^ 63"
  proof -
    have "i64 (t - oc_bucket_refill_ts c) = t - oc_bucket_refill_ts c"
      using that refill by simp
    with that show ?thesis by (simp add: ConsumeToken_def)
  qed
  ultimately show ?thesis by (simp add: algebra_simps)
qed

section \<open>Witnesses\<close>

text \<open>Two devices of one user, the second logged in later; at most one device is allowed.\<close>

definition two_devices :: heap where
  "two_devices p = (if p = 0 then new_OnlineConn 7 ''a'' (Some 0) (Some 1) 100 20
                    else new_OnlineConn 7 ''b'' (Some 1) (Some 1) 200 20)"

definition first_online :: SessionRegistry where
  "first_online = \<lparr>m_conns = [(7, [(''a'', 0)])]\<rparr>"

lemma first_online_wf: "registry_wf two_devices 1 first_online"
  by (simp add: registry_wf_def devices_wf_def first_online_def two_devices_def new_OnlineConn_def)

lemma second_add:
  "Add two_devices (Some 1) 1 first_online = (None, [0], \<lparr>m_conns = [(7, [(''b'', 1)])]\<rparr>)"
  by (simp add: Add_def devices_def first_online_def two_devices_def new_OnlineConn_def
      evict_loop.simps oldest_def)

theorem Add_spec_witness:
  "length [0::ptr] \<le> 1 \<and> registry_wf two_devices 1 \<lparr>m_conns = [(7, [(''b'', 1)])]\<rparr>"
  using Add_spec [OF first_online_wf _ second_add] by simp

lemma Add_newest_example:
  "Get 7 ''b'' \<lparr>m_conns = [(7, [(''b'', 1)])]\<rparr> = Some 1 \<and> (1::ptr) \<notin> set [0]"
  using Add_newest [OF first_online_wf _ second_add]
  by (simp add: GetByUser_def first_online_def two_devices_def new_OnlineConn_def)

lemma Remove_result_example: "\<not> IsUserOnline 7 \<lparr>m_conns = []\<rparr>"
proof -
  have "Remove 7 ''a'' first_online = (True, \<lparr>m_conns = []\<rparr>)"
    by (simp add: Remove_def first_online_def)
  from Remove_result [OF first_online_wf this] show ?thesis
    by (auto simp: Get_def first_online_def)
qed

theorem registry_runs_witness:
  "UserConnectionCount 7 (fold (reg_exec two_devices 1) [OpAdd (Some 0), OpAdd (Some 1)] empty_registry) \<le> 1"
  using registry_runs [of 1 _ two_devices "[OpAdd (Some 0), OpAdd (Some 1)]" 7] by simp

lemma Timeouted_result_example:
  "set (CollectTimeouted (Touch 7 ''a'' 301 first_online two_devices) 300 first_online) = {}"
proof -
  have G: "Get 7 ''a'' first_online = Some 0" by (simp add: Get_def first_online_def)
  have C: "CollectTimeouted two_devices 300 first_online = [0]"
    by (simp add: CollectTimeouted_def first_online_def two_devices_def new_OnlineConn_def)
  show ?thesis
    using Timeouted_result [OF first_online_wf, of 0 300 7 "''a''" 0 301] G C by simp
qed

theorem rate_limit_bound_witness:
  "fst (consume_run 2 [10, 20, 30, 1500] (new_OnlineConn 7 ''a'' None None 0 2)) = 3 \<and>
    1000 * int 3 \<le> 2 * (1000 + (1500 - 0))"
proof -
  have run: "consume_run 2 [10, 20, 30, 1500] (new_OnlineConn 7 ''a'' None None 0 2) =
      (3, (new_OnlineConn 7 ''a'' None None 0 2)
            \<lparr>oc_bucket_refill_ts := 1500, oc_bucket_tokens := 1\<rparr>)"
    by (simp add: ConsumeToken_def new_OnlineConn_def)
  from rate_limit_bound [OF _ _ _ _ run, of 2500] run show ?thesis by simp
qed

end
