(* ===== verification/Metrics.thy ===== *)
theory Metrics
  imports Session_Registry
begin

text \<open>
  \<open>chat/metrics/metrics.{h,cc}\<close>. A \<open>std::map<std::string, uint64_t>\<close> is an association list that
  \<open>bump\<close> (the code's \<open>++m[key]\<close>) keeps in increasing key order, the order in which the code
  iterates; strings are compared bytewise, as \<open>std::string\<close> is. The singleton's state is passed
  explicitly and the registry that \<open>RenderPrometheus\<close> asks for is an argument.
\<close>

type_synonym counters = "(string \<times> u64) list"

fun bump :: "string \<Rightarrow> counters \<Rightarrow> counters" where
  "bump k [] = [(k, 1)]"
| "bump k ((k', v) # m) =
     (if k = k' then (k', v + 1) # m
      else if k < k' then (k, 1) # (k', v) # m
      else (k', v) # bump k m)"

record ChatMetrics =
  m_ws_in :: counters
  m_ws_out :: counters
  m_mq_publish :: counters
  m_mq_consume :: counters
  m_mq_reconnect :: counters
  m_jwt_fail :: counters
  m_hist_buckets :: "u64 list"
  m_hist_bucket_counts :: "u64 list"
  m_hist_sum :: u64
  m_hist_count :: u64

definition new_ChatMetrics :: ChatMetrics where
  "new_ChatMetrics =
     \<lparr>m_ws_in = [], m_ws_out = [], m_mq_publish = [], m_mq_consume = [], m_mq_reconnect = [],
      m_jwt_fail = [], m_hist_buckets = [5, 10, 20, 50, 100, 200, 500, 1000],
      m_hist_bucket_counts = replicate 8 0, m_hist_sum = 0, m_hist_count = 0\<rparr>"

definition IncWsIn :: "string \<Rightarrow> ChatMetrics \<Rightarrow> ChatMetrics" where
  "IncWsIn ty m = m\<lparr>m_ws_in := bump ty (m_ws_in m)\<rparr>"

definition IncWsOut :: "string \<Rightarrow> ChatMetrics \<Rightarrow> ChatMetrics" where
  "IncWsOut ty m = m\<lparr>m_ws_out := bump ty (m_ws_out m)\<rparr>"

definition IncMqPublish :: "string \<Rightarrow> string \<Rightarrow> ChatMetrics \<Rightarrow> ChatMetrics" where
  "IncMqPublish routing_key result m =
     m\<lparr>m_mq_publish := bump (routing_key @ ''|'' @ result) (m_mq_publish m)\<rparr>"

definition IncMqConsume :: "string \<Rightarrow> string \<Rightarrow> ChatMetrics \<Rightarrow> ChatMetrics" where
  "IncMqConsume routing_key result m =
     m\<lparr>m_mq_consume := bump (routing_key @ ''|'' @ result) (m_mq_consume m)\<rparr>"

definition IncMqReconnect :: "string \<Rightarrow> ChatMetrics \<Rightarrow> ChatMetrics" where
  "IncMqReconnect role m = m\<lparr>m_mq_reconnect := bump role (m_mq_reconnect m)\<rparr>"

definition IncJwtVerifyFail :: "string \<Rightarrow> ChatMetrics \<Rightarrow> ChatMetrics" where
  "IncJwtVerifyFail reason m = m\<lparr>m_jwt_fail := bump reason (m_jwt_fail m)\<rparr>"

text \<open>The loop of \<open>ObserveMsgSendLatencyMs\<close> over the buckets, stopping at the first that fits.\<close>

fun bucket_loop :: "u64 \<Rightarrow> u64 list \<Rightarrow> u64 list \<Rightarrow> u64 list" where
  "bucket_loop v (b # bs) (n # ns) = (if v \<le> b then (n + 1) # ns else n # bucket_loop v bs ns)"
| "bucket_loop v bs ns = ns"

definition ObserveMsgSendLatencyMs :: "u64 \<Rightarrow> ChatMetrics \<Rightarrow> ChatMetrics" where
  "ObserveMsgSendLatencyMs value_ms m =
     m\<lparr>m_hist_bucket_counts := bucket_loop value_ms (m_hist_buckets m) (m_hist_bucket_counts m),
       m_hist_sum := m_hist_sum m + value_ms, m_hist_count := m_hist_count m + 1\<rparr>"

text \<open>
  Rendering. \<open>split_key\<close> is the pair of \<open>substr\<close> calls around the first bar; a key without one would
  give the whole key and \<open>ok\<close>.
\<close>

definition quoted :: "string \<Rightarrow> string" where
  "quoted s = [CHR 0x22] @ s @ [CHR 0x22]"

definition newline :: string where
  "newline = [CHR 0x0A]"

definition split_key :: "string \<Rightarrow> string \<times> string" where
  "split_key k =
     (case dropWhile (\<lambda>c. c \<noteq> CHR ''|'') k of
        [] \<Rightarrow> (k, ''ok'')
      | _ # rest \<Rightarrow> (takeWhile (\<lambda>c. c \<noteq> CHR ''|'') k, rest))"

definition ws_line :: "string \<Rightarrow> string \<times> u64 \<Rightarrow> string" where
  "ws_line direction p =
     ''chat_ws_frames_total{direction='' @ quoted direction @ '',type='' @ quoted (fst p) @ ''} ''
     @ show_u64 (snd p) @ newline"

definition mq_line :: "string \<Rightarrow> string \<times> u64 \<Rightarrow> string" where
  "mq_line name p =
     (case split_key (fst p) of (rk, rs) \<Rightarrow>
        name @ ''{routing_key='' @ quoted rk @ '',result='' @ quoted rs @ ''} ''
        @ show_u64 (snd p) @ newline)"

definition reconnect_line :: "string \<times> u64 \<Rightarrow> string" where
  "reconnect_line p =
     ''chat_mq_reconnect_total{role='' @ quoted (fst p) @ ''} '' @ show_u64 (snd p) @ newline"

definition jwt_line :: "string \<times> u64 \<Rightarrow> string" where
  "jwt_line p =
     ''chat_jwt_verify_fail_total{reason='' @ quoted (fst p) @ ''} '' @ show_u64 (snd p) @ newline"

definition bucket_line :: "string \<Rightarrow> u64 \<Rightarrow> string" where
  "bucket_line le n =
     ''chat_msg_send_latency_ms_bucket{le='' @ quoted le @ ''} '' @ show_u64 n @ newline"

fun bucket_lines :: "u64 \<Rightarrow> u64 list \<Rightarrow> u64 list \<Rightarrow> string" where
  "bucket_lines cumulative (b # bs) (n # ns) =
     bucket_line (show_u64 b) (cumulative + n) @ bucket_lines (cumulative + n) bs ns"
| "bucket_lines cumulative bs ns = []"

definition render_histogram :: "ChatMetrics \<Rightarrow> string" where
  "render_histogram m =
     bucket_lines 0 (m_hist_buckets m) (m_hist_bucket_counts m)
     @ bucket_line ''+Inf'' (m_hist_count m)
     @ ''chat_msg_send_latency_ms_sum '' @ show_u64 (m_hist_sum m) @ newline
     @ ''chat_msg_send_latency_ms_count '' @ show_u64 (m_hist_count m) @ newline"

definition RenderPrometheus :: "SessionRegistry \<Rightarrow> ChatMetrics \<Rightarrow> string" where
  "RenderPrometheus reg m =
     ''chat_online_users '' @ show_nat (OnlineUsers reg) @ newline
     @ ''chat_online_connections '' @ show_nat (OnlineConnections reg) @ newline
     @ concat (map (ws_line ''in'') (m_ws_in m))
     @ concat (map (ws_line ''out'') (m_ws_out m))
     @ concat (map (mq_line ''chat_mq_publish_total'') (m_mq_publish m))
     @ concat (map (mq_line ''chat_mq_consume_total'') (m_mq_consume m))
     @ concat (map reconnect_line (m_mq_reconnect m))
     @ render_histogram m
     @ concat (map jwt_line (m_jwt_fail m))"

section \<open>Runs\<close>

datatype metric_op =
    WsIn string | WsOut string | MqPublish string string | MqConsume string string
  | MqReconnect string | JwtFail string | Latency u64

fun metric_exec :: "metric_op \<Rightarrow> ChatMetrics \<Rightarrow> ChatMetrics" where
  "metric_exec (WsIn ty) = IncWsIn ty"
| "metric_exec (WsOut ty) = IncWsOut ty"
| "metric_exec (MqPublish rk rs) = IncMqPublish rk rs"
| "metric_exec (MqConsume rk rs) = IncMqConsume rk rs"
| "metric_exec (MqReconnect role) = IncMqReconnect role"
| "metric_exec (JwtFail reason) = IncJwtVerifyFail reason"
| "metric_exec (Latency v) = ObserveMsgSendLatencyMs v"

definition counters_wf :: "counters \<Rightarrow> bool" where
  "counters_wf m \<longleftrightarrow> sorted_wrt (<) (keys m)"

lemma bump_keys: "set (keys (bump k m)) = insert k (set (keys m))"
  by (induction k m rule: bump.induct) auto

lemma bump_wf: "counters_wf m \<Longrightarrow> counters_wf (bump k m)"
proof (induction k m rule: bump.induct)
  case (1 k)
  show ?case by (simp add: counters_wf_def)
next
  case (2 k k' v m)
  consider "k = k'" | "k < k'" | "k' < k" by fastforce
  then show ?case
  proof cases
    case 1
    with 2 show ?thesis by (simp add: counters_wf_def)
  next
    case 2
    with "2.prems" show ?thesis by (auto simp: counters_wf_def)
  next
    case 3
    then have "\<not> k < k'" "k \<noteq> k'" by auto
    moreover from this "2.IH" "2.prems" have "counters_wf (bump k m)" by (simp add: counters_wf_def)
    ultimately show ?thesis using "2.prems" 3 bump_keys [of k m] by (auto simp: counters_wf_def)
  qed
qed

text \<open>The value of a counter; a key that was never counted reads as zero.\<close>

definition counter :: "string \<Rightarrow> counters \<Rightarrow> u64" where
  "counter k m = (case map_of m k of None \<Rightarrow> 0 | Some v \<Rightarrow> v)"

lemma counter_bump: "counters_wf m \<Longrightarrow> counter k (bump k' m) = counter k m + (if k = k' then 1 else 0)"
proof (induction k' m rule: bump.induct)
  case (1 k')
  show ?case by (simp add: counter_def)
next
  case (2 k1 k2 v m)
  have tail: "counters_wf m" "k2 \<notin> set (keys m)" using "2.prems" by (auto simp: counters_wf_def)
  have None: "k1 < k2 \<Longrightarrow> map_of m k1 = None"
    using "2.prems" by (auto simp: counters_wf_def map_of_None_keys)
  show ?case
    using "2.IH" tail None by (auto simp: counter_def split: option.splits)
qed

lemma bump_Some: "\<exists>v. map_of (bump k m) k = Some v"
  by (induction k m rule: bump.induct) auto

lemma bumps_wf: "counters_wf m \<Longrightarrow> counters_wf (fold bump ks m)"
  by (induction ks arbitrary: m) (simp_all add: bump_wf)

lemma bumps_keys: "set (keys (fold bump ks m)) = set ks \<union> set (keys m)"
proof (induction ks arbitrary: m)
  case Nil
  show ?case by simp
next
  case (Cons k ks)
  from Cons.IH [of "bump k m"] show ?case by (simp only: fold_simps bump_keys) auto
qed

lemma bumps_counter:
  "counters_wf m \<Longrightarrow> counter k (fold bump ks m) = counter k m + of_nat (count_list ks k)"
  by (induction ks arbitrary: m) (simp_all add: bump_wf counter_bump)

text \<open>The keys a run counts in each family, in order, and the latencies it observes.\<close>

fun ws_in_key where "ws_in_key (WsIn k) = Some k" | "ws_in_key _ = None"
fun ws_out_key where "ws_out_key (WsOut k) = Some k" | "ws_out_key _ = None"
fun publish_key where
  "publish_key (MqPublish rk rs) = Some (rk @ ''|'' @ rs)" | "publish_key _ = None"
fun consume_key where
  "consume_key (MqConsume rk rs) = Some (rk @ ''|'' @ rs)" | "consume_key _ = None"
fun reconnect_key where "reconnect_key (MqReconnect k) = Some k" | "reconnect_key _ = None"
fun jwt_key where "jwt_key (JwtFail k) = Some k" | "jwt_key _ = None"
fun latency where "latency (Latency v) = Some v" | "latency _ = None"

lemmas metric_ops = IncWsIn_def IncWsOut_def IncMqPublish_def IncMqConsume_def IncMqReconnect_def
  IncJwtVerifyFail_def ObserveMsgSendLatencyMs_def

lemma run_families:
  "m_ws_in (fold metric_exec ops m) = fold bump (List.map_filter ws_in_key ops) (m_ws_in m)"
  "m_ws_out (fold metric_exec ops m) = fold bump (List.map_filter ws_out_key ops) (m_ws_out m)"
  "m_mq_publish (fold metric_exec ops m) = fold bump (List.map_filter publish_key ops) (m_mq_publish m)"
  "m_mq_consume (fold metric_exec ops m) = fold bump (List.map_filter consume_key ops) (m_mq_consume m)"
  "m_mq_reconnect (fold metric_exec ops m) =
     fold bump (List.map_filter reconnect_key ops) (m_mq_reconnect m)"
  "m_jwt_fail (fold metric_exec ops m) = fold bump (List.map_filter jwt_key ops) (m_jwt_fail m)"
proof (induction ops arbitrary: m)
  case Nil
  { case 1 show ?case by (simp add: List.map_filter_def) next
    case 2 show ?case by (simp add: List.map_filter_def) next
    case 3 show ?case by (simp add: List.map_filter_def) next
    case 4 show ?case by (simp add: List.map_filter_def) next
    case 5 show ?case by (simp add: List.map_filter_def) next
    case 6 show ?case by (simp add: List.map_filter_def) }
next
  case (Cons x ops)
  { case 1 show ?case by (cases x) (simp_all add: Cons metric_ops) next
    case 2 show ?case by (cases x) (simp_all add: Cons metric_ops) next
    case 3 show ?case by (cases x) (simp_all add: Cons metric_ops) next
    case 4 show ?case by (cases x) (simp_all add: Cons metric_ops) next
    case 5 show ?case by (cases x) (simp_all add: Cons metric_ops) next
    case 6 show ?case by (cases x) (simp_all add: Cons metric_ops) }
qed

lemma count_key:
  assumes "\<And>x. x \<in> set xs \<Longrightarrow> f x = Some k \<longleftrightarrow> x = y"
  shows "count_list (List.map_filter f xs) k = count_list xs y"
  using assms
proof (induction xs)
  case Nil
  show ?case by (simp add: List.map_filter_def)
next
  case (Cons x xs)
  from Cons.prems [of x] Cons.IH Cons.prems show ?case
    by (cases "f x") (auto simp: List.map_filter_def)
qed

lemma key_inject:
  "CHR ''|'' \<notin> set rk \<Longrightarrow> CHR ''|'' \<notin> set rk' \<Longrightarrow>
     rk @ ''|'' @ rs = rk' @ ''|'' @ rs' \<longleftrightarrow> rk = rk' \<and> rs = rs'"
proof (induction rk arbitrary: rk')
  case Nil
  then show ?case by (cases rk') auto
next
  case (Cons a rk)
  then show ?case by (cases rk') auto
qed

lemma split_key_join:
  "CHR ''|'' \<notin> set rk \<Longrightarrow> split_key (rk @ ''|'' @ rs) = (rk, rs)"
proof -
  assume "CHR ''|'' \<notin> set rk"
  then have "dropWhile (\<lambda>c. c \<noteq> CHR ''|'') (rk @ ''|'' @ rs) = ''|'' @ rs"
    "takeWhile (\<lambda>c. c \<noteq> CHR ''|'') (rk @ ''|'' @ rs) = rk"
    by (auto intro: dropWhile_append2 [THEN trans] takeWhile_append2 [THEN trans])
  then show ?thesis by (simp add: split_key_def)
qed

text \<open>
  Whatever operations run since the start, every counter holds the number of its own operations
  (modulo \<open>2^64\<close>) and none of another family; the publish and consume counters of a routing key and
  a result likewise, as long as no routing key contains a bar, and their rendered lines then show
  that routing key and that result.
\<close>

theorem metrics_count:
  assumes m: "m = fold metric_exec ops new_ChatMetrics"
    and bar: "CHR ''|'' \<notin> set rk"
      "\<forall>rk' rs'. MqPublish rk' rs' \<in> set ops \<or> MqConsume rk' rs' \<in> set ops \<longrightarrow> CHR ''|'' \<notin> set rk'"
  shows "counter k (m_ws_in m) = of_nat (count_list ops (WsIn k)) \<and>
    counter k (m_ws_out m) = of_nat (count_list ops (WsOut k)) \<and>
    counter (rk @ ''|'' @ rs) (m_mq_publish m) = of_nat (count_list ops (MqPublish rk rs)) \<and>
    counter (rk @ ''|'' @ rs) (m_mq_consume m) = of_nat (count_list ops (MqConsume rk rs)) \<and>
    counter k (m_mq_reconnect m) = of_nat (count_list ops (MqReconnect k)) \<and>
    counter k (m_jwt_fail m) = of_nat (count_list ops (JwtFail k)) \<and>
    mq_line name (rk @ ''|'' @ rs, v) =
      name @ ''{routing_key='' @ quoted rk @ '',result='' @ quoted rs @ ''} '' @ show_u64 v @ newline"
proof -
  have zero: "counters_wf []" "counter k [] = 0" for k
    by (simp_all add: counters_wf_def counter_def)
  note runs = bumps_counter [OF zero(1), unfolded zero(2)]
  have key: "ws_in_key x = Some k \<longleftrightarrow> x = WsIn k" "ws_out_key x = Some k \<longleftrightarrow> x = WsOut k"
    "reconnect_key x = Some k \<longleftrightarrow> x = MqReconnect k" "jwt_key x = Some k \<longleftrightarrow> x = JwtFail k" for x k
    by (cases x; simp)+
  have p: "publish_key x = Some (rk @ ''|'' @ rs) \<longleftrightarrow> x = MqPublish rk rs" if "x \<in> set ops" for x
  proof (cases x)
    case (MqPublish rk' rs')
    with that bar(2) have "CHR ''|'' \<notin> set rk'" by blast
    from key_inject [OF this bar(1), of rs' rs] MqPublish show ?thesis by simp
  qed simp_all
  have c: "consume_key x = Some (rk @ ''|'' @ rs) \<longleftrightarrow> x = MqConsume rk rs" if "x \<in> set ops" for x
  proof (cases x)
    case (MqConsume rk' rs')
    with that bar(2) have "CHR ''|'' \<notin> set rk'" by blast
    from key_inject [OF this bar(1), of rs' rs] MqConsume show ?thesis by simp
  qed simp_all
  have "count_list (List.map_filter publish_key ops) (rk @ ''|'' @ rs) = count_list ops (MqPublish rk rs)"
    "count_list (List.map_filter consume_key ops) (rk @ ''|'' @ rs) = count_list ops (MqConsume rk rs)"
    by (rule count_key, erule p, rule count_key, erule c)
  moreover have "count_list (List.map_filter ws_in_key ops) k = count_list ops (WsIn k)"
    "count_list (List.map_filter ws_out_key ops) k = count_list ops (WsOut k)"
    "count_list (List.map_filter reconnect_key ops) k = count_list ops (MqReconnect k)"
    "count_list (List.map_filter jwt_key ops) k = count_list ops (JwtFail k)" for k
    by (rule count_key, rule key)+
  ultimately show ?thesis
    using bar(1)
    by (simp only: m run_families new_ChatMetrics_def ChatMetrics.simps runs mq_line_def fst_conv
        snd_conv split_key_join prod.case add_0 simp_thms)
qed

section \<open>The latency histogram\<close>

fun cums :: "u64 \<Rightarrow> u64 list \<Rightarrow> u64 list" where
  "cums c [] = []"
| "cums c (n # ns) = (c + n) # cums (c + n) ns"

lemma cums_shift: "cums (c + d) ns = map (\<lambda>x. x + d) (cums c ns)"
proof (induction ns arbitrary: c)
  case Nil
  show ?case by simp
next
  case (Cons n ns)
  from Cons [of "c + n"] show ?case by (simp add: add.commute add.left_commute)
qed

lemma bucket_lines_cums:
  "bucket_lines c bs ns = concat (map2 (\<lambda>b n. bucket_line (show_u64 b) n) bs (cums c ns))"
  by (induction c bs ns rule: bucket_lines.induct) auto

lemma length_cums [simp]: "length (cums c ns) = length ns"
  by (induction ns arbitrary: c) auto

lemma length_bucket_loop [simp]: "length (bucket_loop v bs ns) = length ns"
  by (induction v bs ns rule: bucket_loop.induct) auto

lemma map2_all: "length xs = length ys \<Longrightarrow> \<forall>x \<in> set xs. P x \<Longrightarrow>
    map2 (\<lambda>x y. if P x then f y else g y) xs ys = map f ys"
  by (induction xs ys rule: list_induct2) auto

lemma cums_bucket_loop:
  "length bs = length ns \<Longrightarrow> sorted bs \<Longrightarrow>
     cums c (bucket_loop v bs ns) = map2 (\<lambda>b s. if v \<le> b then s + 1 else s) bs (cums c ns)"
proof (induction bs ns arbitrary: c rule: list_induct2)
  case Nil
  show ?case by simp
next
  case (Cons b bs n ns)
  show ?case
  proof (cases "v \<le> b")
    case True
    with Cons.prems have "\<forall>b \<in> set bs. v \<le> b" by auto
    with Cons.hyps True show ?thesis
      using cums_shift [of "c + n" 1 ns]
      by (simp add: map2_all add.assoc)
  next
    case False
    with Cons show ?thesis by simp
  qed
qed

lemma cums_run:
  "length bs = length ns \<Longrightarrow> sorted bs \<Longrightarrow>
     cums c (fold (\<lambda>v. bucket_loop v bs) vs ns) =
     map2 (\<lambda>b s. s + of_nat (length (filter (\<lambda>v. v \<le> b) vs))) bs (cums c ns)"
proof (induction vs arbitrary: ns)
  case Nil
  have "map2 (\<lambda>b s. s) bs xs = xs" if "length bs = length xs" for xs :: "u64 list"
    using that by (induction bs xs rule: list_induct2) auto
  with Nil show ?case by simp
next
  case (Cons v vs)
  have "map2 (\<lambda>b s. s + of_nat (f b)) bs (map2 (\<lambda>b s. if v \<le> b then s + 1 else s) bs xs) =
      map2 (\<lambda>b s. s + of_nat (if v \<le> b then Suc (f b) else f b)) bs xs"
    if "length bs = length xs" for xs :: "u64 list" and f
    using that by (induction bs xs rule: list_induct2) (auto simp: add.commute add.left_commute)
  note merge = this [of "cums c ns" "\<lambda>b. length (filter (\<lambda>v. v \<le> b) vs)"]
  have "filter (\<lambda>x. x \<le> b) (v # vs) = (if v \<le> b then v # filter (\<lambda>x. x \<le> b) vs else filter (\<lambda>x. x \<le> b) vs)"
    for b by simp
  with Cons merge show ?case by (simp add: cums_bucket_loop if_distrib [of length] cong: if_cong)
qed

lemma latency_run:
  "m_hist_buckets (fold metric_exec ops m) = m_hist_buckets m"
  "m_hist_bucket_counts (fold metric_exec ops m) =
     fold (\<lambda>v. bucket_loop v (m_hist_buckets m)) (List.map_filter latency ops) (m_hist_bucket_counts m)"
  "m_hist_sum (fold metric_exec ops m) = m_hist_sum m + sum_list (List.map_filter latency ops)"
  "m_hist_count (fold metric_exec ops m) = m_hist_count m + of_nat (length (List.map_filter latency ops))"
proof (induction ops arbitrary: m)
  case Nil
  { case 1 show ?case by simp next
    case 2 show ?case by (simp add: List.map_filter_def) next
    case 3 show ?case by (simp add: List.map_filter_def) next
    case 4 show ?case by (simp add: List.map_filter_def) }
next
  case (Cons x ops)
  { case 1 show ?case by (cases x) (simp_all add: Cons metric_ops) next
    case 2 show ?case by (cases x) (simp_all add: Cons metric_ops) next
    case 3 show ?case by (cases x) (simp_all add: Cons metric_ops) next
    case 4 show ?case by (cases x) (simp_all add: Cons metric_ops) }
qed

text \<open>
  C31. The histogram that is rendered after any run is the cumulative one: the line of each bucket
  shows how many of the observed latencies were at most its bound, and the last lines their number
  and their sum (all modulo \<open>2^64\<close>).
\<close>

theorem histogram_correct:
  "render_histogram (fold metric_exec ops new_ChatMetrics) =
    (let vs = List.map_filter latency ops in
     concat (map (\<lambda>b. bucket_line (show_u64 b) (of_nat (length (filter (\<lambda>v. v \<le> b) vs))))
       [5, 10, 20, 50, 100, 200, 500, 1000])
     @ bucket_line ''+Inf'' (of_nat (length vs))
     @ ''chat_msg_send_latency_ms_sum '' @ show_u64 (sum_list vs) @ newline
     @ ''chat_msg_send_latency_ms_count '' @ show_u64 (of_nat (length vs)) @ newline)"
proof -
  let ?bs = "[5, 10, 20, 50, 100, 200, 500, 1000] :: u64 list"
  have "sorted ?bs" by simp
  from cums_run [OF _ this, of "replicate 8 0" 0]
  have "cums 0 (fold (\<lambda>v. bucket_loop v ?bs) vs (replicate 8 0)) =
      map (\<lambda>b. of_nat (length (filter (\<lambda>v. v \<le> b) vs))) ?bs" for vs
    by (simp add: numeral_nat)
  then show ?thesis
    by (simp add: render_histogram_def latency_run new_ChatMetrics_def bucket_lines_cums Let_def)
qed

text \<open>
  Label values are written without escaping, so a key that contains a quote and a line break reads
  like further metrics: counting one frame type chosen by a client renders the same text as counting
  two other ones.
\<close>

definition injected :: "string \<Rightarrow> string" where
  "injected a = a @ [CHR 0x22] @ ''} 1'' @ newline @ ''chat_ws_frames_total{direction='' @ quoted ''in''
     @ '',type='' @ [CHR 0x22] @ a @ ''x''"

theorem labels_not_escaped:
  "RenderPrometheus reg (IncWsIn (injected a) new_ChatMetrics) =
    RenderPrometheus reg (IncWsIn (a @ ''x'') (IncWsIn a new_ChatMetrics))"
proof -
  have "a < a @ ''x''" by (induction a) simp_all
  then have "bump (a @ ''x'') [(a, 1)] = [(a, 1), (a @ ''x'', 1)]" by (simp add: less_not_sym)
  then have b: "m_ws_in (IncWsIn (a @ ''x'') (IncWsIn a new_ChatMetrics)) = [(a, 1), (a @ ''x'', 1)]"
    by (simp add: IncWsIn_def new_ChatMetrics_def)
  have one: "show_u64 1 = ''1''" by (simp add: show_u64_def show_nat.simps digit_def)
  have "concat (map (ws_line ''in'') [(injected a, 1)]) =
      concat (map (ws_line ''in'') [(a, 1), (a @ ''x'', 1)])"
    by (simp add: ws_line_def injected_def quoted_def one)
  then show ?thesis
    unfolding RenderPrometheus_def b
    by (simp add: IncWsIn_def new_ChatMetrics_def render_histogram_def)
qed

section \<open>Witnesses\<close>

theorem metrics_count_witness:
  "counter ''msg.send|ok'' (m_mq_publish (fold metric_exec
     [MqPublish ''msg.send'' ''ok'', WsIn ''ping'', MqPublish ''msg.send'' ''ok''] new_ChatMetrics)) = 2"
  using metrics_count [OF refl, of "''msg.send''"
      "[MqPublish ''msg.send'' ''ok'', WsIn ''ping'', MqPublish ''msg.send'' ''ok'']" _ "''ok''"]
  by auto

end
