(* ===== verification/Publisher.thy ===== *)
theory Publisher
  imports Amqp_Client Envelope Metrics "HOL-Library.Sublist"
begin

text \<open>
  \<open>chat/mq/publisher.{h,cc}\<close>: the bounded queue of outgoing messages and the thread that sends them.
  The thread's loop is one iteration at a time (\<open>Run_iteration\<close>), taken when \<open>wait_for\<close> has returned,
  so that calls of \<open>Publish\<close> from other threads come between iterations; \<open>backoff\<close> is the loop's
  local variable. The random bytes and the clock that an iteration reads are arguments. Sleeping,
  notifying and logging are left out.
\<close>

record 'j Task =
  t_routing_key :: string
  t_payload :: 'j
  t_priority :: "8 word"

record 'j MqPublisher =
  m_running :: bool
  m_queue :: "'j Task list"
  m_client :: AmqpClient

definition new_MqPublisher :: "'j MqPublisher" where
  "new_MqPublisher = \<lparr>m_running = False, m_queue = [], m_client = new_AmqpClient\<rparr>"

definition queue_capacity :: "RabbitMqConfig \<Rightarrow> nat" where
  "queue_capacity cfg = unat (word_of_int (mq_publisher_queue_capacity cfg) :: 64 word)"

definition Publish ::
  "RabbitMqConfig \<Rightarrow> string \<Rightarrow> 'j \<Rightarrow> 8 word \<Rightarrow> 'j MqPublisher \<times> ChatMetrics
     \<Rightarrow> bool \<times> 'j MqPublisher \<times> ChatMetrics" where
  "Publish cfg rk pl priority = (\<lambda>(pub, met).
     if length (m_queue pub) \<ge> queue_capacity cfg then (False, pub, IncMqPublish rk ''fail'' met)
     else (True, pub\<lparr>m_queue := m_queue pub @
             [\<lparr>t_routing_key = rk, t_payload = pl, t_priority = priority\<rparr>]\<rparr>, met))"

definition PublishUserOnline ::
  "'j json_lib \<Rightarrow> RabbitMqConfig \<Rightarrow> u64 \<Rightarrow> 'j MqPublisher \<times> ChatMetrics
     \<Rightarrow> bool \<times> 'j MqPublisher \<times> ChatMetrics" where
  "PublishUserOnline J cfg uid =
     Publish cfg ''business.user.online'' (j_set J (j_null J) ''userId'' (j_uint J uid)) 5"

definition PublishUserOffline ::
  "'j json_lib \<Rightarrow> RabbitMqConfig \<Rightarrow> u64 \<Rightarrow> 'j MqPublisher \<times> ChatMetrics
     \<Rightarrow> bool \<times> 'j MqPublisher \<times> ChatMetrics" where
  "PublishUserOffline J cfg uid =
     Publish cfg ''business.user.offline'' (j_set J (j_null J) ''userId'' (j_uint J uid)) 5"

definition PublishMsgAck ::
  "'j json_lib \<Rightarrow> RabbitMqConfig \<Rightarrow> int \<Rightarrow> int \<Rightarrow> u64 \<Rightarrow> 'j MqPublisher \<times> ChatMetrics
     \<Rightarrow> bool \<times> 'j MqPublisher \<times> ChatMetrics" where
  "PublishMsgAck J cfg now_ms mid receiver_id =
     (let pl = j_null J;
          pl = j_set J pl ''messageId'' (j_int J mid);
          pl = j_set J pl ''receiverId'' (j_uint J receiver_id);
          pl = j_set J pl ''ackAt'' (j_string J (Iso8601Now now_ms))
      in Publish cfg ''business.msg.ack'' pl 0)"

definition EnsureConnected ::
  "amqp_lib \<Rightarrow> RabbitMqConfig \<Rightarrow> 'j MqPublisher \<times> ChatMetrics \<Rightarrow> bool \<times> 'j MqPublisher \<times> ChatMetrics"
where
  "EnsureConnected L cfg = (\<lambda>(pub, met).
     if m_connected (m_client pub) then (True, pub, met)
     else case Connect L cfg '''' (m_client pub) of (ok, err, cl) \<Rightarrow>
       if \<not> ok then (False, pub\<lparr>m_client := cl\<rparr>, IncMqReconnect ''publisher'' met)
       else case OpenChannel L 0 err cl of (ok, err, cl) \<Rightarrow>
         if \<not> ok then (False, pub\<lparr>m_client := Close L cl\<rparr>, IncMqReconnect ''publisher'' met)
         else case DeclareForPublisher L err cl of (ok, err, cl) \<Rightarrow>
           if \<not> ok then (False, pub\<lparr>m_client := Close L cl\<rparr>, IncMqReconnect ''publisher'' met)
           else (True, pub\<lparr>m_client := cl\<rparr>, met))"

definition pop_task :: "'j MqPublisher \<Rightarrow> 'j Task option \<times> 'j MqPublisher" where
  "pop_task pub =
     (case m_queue pub of [] \<Rightarrow> (None, pub) | t # q \<Rightarrow> (Some t, pub\<lparr>m_queue := q\<rparr>))"

type_synonym 'j publisher_state = "int \<times> 'j MqPublisher \<times> ChatMetrics"

definition Run_iteration ::
  "amqp_lib \<Rightarrow> 'j json_lib \<Rightarrow> RabbitMqConfig \<Rightarrow> (nat \<Rightarrow> 8 word) option \<Rightarrow> int \<Rightarrow> 'j publisher_state
     \<Rightarrow> 'j publisher_state" where
  "Run_iteration L J cfg rand_bytes now_ms = (\<lambda>(backoff, pub, met).
     if \<not> m_running pub then (backoff, pub, met)
     else case pop_task pub of
       (None, pub) \<Rightarrow> (backoff, pub, met)
     | (Some task, pub) \<Rightarrow>
         (case EnsureConnected L cfg (pub, met) of (ok, pub, met) \<Rightarrow>
            if \<not> ok
            then (min (mq_reconnect_max_backoff_ms cfg) (i32 (backoff * 2)), pub,
                  IncMqPublish (t_routing_key task) ''fail'' met)
            else
              let backoff = mq_reconnect_initial_backoff_ms cfg;
                  env = BuildEnvelope rand_bytes now_ms ''chat'' (t_routing_key task) (t_payload task);
                  text = EnvelopeToString J env
              in case Amqp_Client.Publish L ''business.exchange'' (t_routing_key task) text
                        (t_priority task) (msg_id env) '''' (m_client pub) of (ok, err, cl) \<Rightarrow>
                   if \<not> ok
                   then (backoff, pub\<lparr>m_client := Close L cl\<rparr>,
                         IncMqPublish (t_routing_key task) ''fail'' met)
                   else (backoff, pub\<lparr>m_client := cl\<rparr>,
                         IncMqPublish (t_routing_key task) ''ok'' met)))"

text \<open>\<open>Start\<close> launches a thread, whose loop begins with the initial backoff; \<open>Stop\<close> joins it.\<close>

definition Start :: "RabbitMqConfig \<Rightarrow> 'j publisher_state \<Rightarrow> 'j publisher_state" where
  "Start cfg = (\<lambda>(backoff, pub, met).
     if m_running pub then (backoff, pub, met)
     else (mq_reconnect_initial_backoff_ms cfg, pub\<lparr>m_running := True\<rparr>, met))"

definition Stop :: "amqp_lib \<Rightarrow> 'j publisher_state \<Rightarrow> 'j publisher_state" where
  "Stop L = (\<lambda>(backoff, pub, met).
     if \<not> m_running pub then (backoff, pub, met)
     else (backoff, pub\<lparr>m_running := False, m_client := Close L (m_client pub)\<rparr>, met))"

section \<open>Histories of the publisher\<close>

datatype 'j publisher_op =
    EvPublish string 'j "8 word"
  | EvRun "(nat \<Rightarrow> 8 word) option" int
  | EvStart
  | EvStop

fun publisher_exec ::
  "amqp_lib \<Rightarrow> 'j json_lib \<Rightarrow> RabbitMqConfig \<Rightarrow> 'j publisher_op \<Rightarrow> 'j publisher_state \<Rightarrow> 'j publisher_state"
where
  "publisher_exec L J cfg (EvPublish rk pl pr) (b, pub, met) =
     (case Publish cfg rk pl pr (pub, met) of (_, pub, met) \<Rightarrow> (b, pub, met))"
| "publisher_exec L J cfg (EvRun rand_bytes now) s = Run_iteration L J cfg rand_bytes now s"
| "publisher_exec L J cfg EvStart s = Start cfg s"
| "publisher_exec L J cfg EvStop s = Stop L s"

definition queued :: "'j publisher_state \<Rightarrow> 'j Task list" where
  "queued s = m_queue (fst (snd s))"

definition client :: "'j publisher_state \<Rightarrow> AmqpClient" where
  "client s = m_client (fst (snd s))"

definition metrics :: "'j publisher_state \<Rightarrow> ChatMetrics" where
  "metrics s = snd (snd s)"

definition running :: "'j publisher_state \<Rightarrow> bool" where
  "running s = m_running (fst (snd s))"

lemmas state_parts = queued_def client_def metrics_def running_def

definition publisher_start :: "'j publisher_state" where
  "publisher_start = (0, new_MqPublisher, new_ChatMetrics)"

fun accepts :: "RabbitMqConfig \<Rightarrow> 'j publisher_op \<Rightarrow> 'j publisher_state \<Rightarrow> 'j Task list" where
  "accepts cfg (EvPublish rk pl pr) s =
     (if fst (Publish cfg rk pl pr (snd s))
      then [\<lparr>t_routing_key = rk, t_payload = pl, t_priority = pr\<rparr>] else [])"
| "accepts cfg _ s = []"

fun takes :: "'j publisher_op \<Rightarrow> 'j publisher_state \<Rightarrow> 'j Task list" where
  "takes (EvRun _ _) s = (if running s then take 1 (queued s) else [])"
| "takes _ s = []"

lemma EnsureConnected_frame:
  assumes "EnsureConnected L cfg (pub, met) = (ok, pub', met')"
  shows "m_queue pub' = m_queue pub" "m_running pub' = m_running pub"
    "met' = met \<or> met' = IncMqReconnect ''publisher'' met"
  using assms by (auto simp: EnsureConnected_def split: prod.splits if_splits)

text \<open>The cases of one iteration, for every proof about it.\<close>

lemma Run_iteration_cases:
  assumes "Run_iteration L J cfg rand_bytes now (b, pub, met) = (b', pub', met')"
  obtains (idle) "b' = b" "pub' = pub" "met' = met" "\<not> m_running pub \<or> m_queue pub = []"
  | (unconnected) t q pub1 met1 where "m_running pub" "m_queue pub = t # q"
      "EnsureConnected L cfg (pub\<lparr>m_queue := q\<rparr>, met) = (False, pub1, met1)"
      "b' = min (mq_reconnect_max_backoff_ms cfg) (i32 (b * 2))" "pub' = pub1"
      "met' = IncMqPublish (t_routing_key t) ''fail'' met1"
  | (sent) t q pub1 met1 ok err cl where "m_running pub" "m_queue pub = t # q"
      "EnsureConnected L cfg (pub\<lparr>m_queue := q\<rparr>, met) = (True, pub1, met1)"
      "Amqp_Client.Publish L ''business.exchange'' (t_routing_key t)
         (EnvelopeToString J (BuildEnvelope rand_bytes now ''chat'' (t_routing_key t) (t_payload t)))
         (t_priority t) (V4 rand_bytes) '''' (m_client pub1) = (ok, err, cl)"
      "b' = mq_reconnect_initial_backoff_ms cfg"
      "pub' = pub1\<lparr>m_client := (if ok then cl else Close L cl)\<rparr>"
      "met' = IncMqPublish (t_routing_key t) (if ok then ''ok'' else ''fail'') met1"
proof (cases "\<not> m_running pub \<or> m_queue pub = []")
  case True
  with assms show ?thesis by (intro idle) (auto simp: Run_iteration_def pop_task_def split: if_splits)
next
  case False
  then obtain t q where tq: "m_running pub" "m_queue pub = t # q" by (cases "m_queue pub") auto
  obtain c pub1 met1 where ens: "EnsureConnected L cfg (pub\<lparr>m_queue := q\<rparr>, met) = (c, pub1, met1)"
    by (cases "EnsureConnected L cfg (pub\<lparr>m_queue := q\<rparr>, met)")
  obtain ok err cl where snt: "Amqp_Client.Publish L ''business.exchange'' (t_routing_key t)
         (EnvelopeToString J (BuildEnvelope rand_bytes now ''chat'' (t_routing_key t) (t_payload t)))
         (t_priority t) (V4 rand_bytes) '''' (m_client pub1) = (ok, err, cl)"
    by (rule prod_cases3)
  have mid: "msg_id (BuildEnvelope rand_bytes now ''chat'' (t_routing_key t) (t_payload t)) = V4 rand_bytes"
    by (simp add: BuildEnvelope_def)
  show ?thesis
  proof (cases c)
    case False
    with tq ens assms show ?thesis
      by (intro unconnected [of t q pub1 met1]) (simp_all add: Run_iteration_def pop_task_def)
  next
    case True
    with tq ens snt assms mid show ?thesis
      by (intro sent [of t q pub1 met1 ok err cl])
         (auto simp: Run_iteration_def pop_task_def Let_def split: if_splits)
  qed
qed

interpretation publisher: bounded_fifo "publisher_exec L J cfg" queued "queue_capacity cfg" "accepts cfg" takes
  for L J cfg
proof
  fix s :: "'a publisher_state" and x :: "'a publisher_op"
  obtain b pub met where s: "s = (b, pub, met)" by (cases s)
  have flow: "queued s @ accepts cfg x s = takes x s @ queued (publisher_exec L J cfg x s)"
  proof (cases x)
    case (EvRun rand_bytes now)
    obtain b' pub' met' where run: "Run_iteration L J cfg rand_bytes now (b, pub, met) = (b', pub', met')"
      by (rule prod_cases3)
    show ?thesis
      by (rule Run_iteration_cases [OF run])
         (auto simp: EvRun s state_parts run dest: EnsureConnected_frame(1))
  qed (auto simp: s state_parts Publish_def Start_def Stop_def)
  then show "queued s @ accepts cfg x s = takes x s @ queued (publisher_exec L J cfg x s)" .
  assume bound: "length (queued s) \<le> queue_capacity cfg"
  have "length (queued (publisher_exec L J cfg x s)) \<le> length (queued s)" if "accepts cfg x s = []"
    using arg_cong [OF flow, of length] that by simp
  moreover have "length (queued (publisher_exec L J cfg x s)) \<le> queue_capacity cfg"
    if "accepts cfg x s \<noteq> []"
    using that by (cases x) (auto simp: s state_parts Publish_def split: if_splits)
  ultimately show "length (queued (publisher_exec L J cfg x s)) \<le> queue_capacity cfg"
    using bound by fastforce
qed

section \<open>What reaches the broker\<close>

text \<open>The messages published on a connection, oldest first: exchange, routing key, properties and body.\<close>

type_synonym message = "string \<times> string \<times> amqp_properties \<times> string"

fun pub_message :: "amqp_call \<Rightarrow> message option" where
  "pub_message (amqp_basic_publish _ _ x rk _ _ props text) = Some (x, rk, props, text)"
| "pub_message _ = None"

definition published :: "AmqpClient \<Rightarrow> message list" where
  "published cl = rev (List.map_filter pub_message (calls cl))"

text \<open>
  A message carries a task: it goes to the business exchange under the task's routing key and priority, and
  its body is the text of an envelope around the task's payload, whose id is the message's.
\<close>

definition carries :: "'j json_lib \<Rightarrow> message \<Rightarrow> 'j Task \<Rightarrow> bool" where
  "carries J m t \<longleftrightarrow>
     (\<exists>rand_bytes now.
        m = (''business.exchange'', t_routing_key t,
             \<lparr>p_content_type = ''application/json'', p_delivery_mode = 2, p_priority = t_priority t,
              p_message_id = V4 rand_bytes\<rparr>,
             EnvelopeToString J
               \<lparr>msg_id = V4 rand_bytes, version = 1, occurred_at = Iso8601Now now, source = ''chat'',
                env_type = t_routing_key t, payload = t_payload t\<rparr>))"

lemma built_carries:
  "carries J (''business.exchange'', t_routing_key t,
     \<lparr>p_content_type = ''application/json'', p_delivery_mode = 2, p_priority = t_priority t, p_message_id = V4 rand_bytes\<rparr>,
     EnvelopeToString J (BuildEnvelope rand_bytes now ''chat'' (t_routing_key t) (t_payload t))) t"
  by (auto simp: carries_def BuildEnvelope_def)

lemma published_issue: "published (issue c cl) = published cl @ (case pub_message c of None \<Rightarrow> [] | Some k \<Rightarrow> [k])"
  by (simp add: published_def issue_def split: option.split)

lemma published_fields [simp]:
  "published (cl\<lparr>m_conn := c\<rparr>) = published cl" "published (cl\<lparr>m_socket := k\<rparr>) = published cl"
  "published (cl\<lparr>m_connected := b\<rparr>) = published cl"
  by (simp_all add: published_def)

lemma published_Close [simp]: "published (Close L cl) = published cl"
  by (simp add: Close_def Let_def published_issue)

lemma published_Connect: "Connect L cfg err cl = (ok, err', cl') \<Longrightarrow> published cl' = published cl"
  by (auto simp: Connect_def Let_def published_issue split: if_splits)

lemma published_rpcs:
  assumes "\<forall>s \<in> set steps. pub_message (snd s) = None" "run_rpcs L steps err cl = (ok, err', cl')"
  shows "published cl' = published cl"
  using assms
proof (induction steps arbitrary: err cl)
  case Nil
  then show ?case by simp
next
  case (Cons s steps)
  obtain nm c where s: "s = (nm, c)" by (cases s)
  let ?cl = "cl\<lparr>calls := amqp_get_rpc_reply (m_conn cl) # c # calls cl\<rparr>"
  have eq: "published ?cl = published cl" using Cons.prems(1) s by (simp add: published_def)
  show ?case
  proof (cases "reply_ok L (calls ?cl)")
    case True
    with Cons.prems s have "run_rpcs L steps err ?cl = (ok, err', cl')"
      by (simp add: and_then_check Let_def)
    with Cons.IH Cons.prems(1) eq show ?thesis by simp
  next
    case False
    with Cons.prems s have "cl' = ?cl" by (simp add: and_then_check Let_def)
    with eq show ?thesis by simp
  qed
qed

lemma published_setup:
  "OpenChannel L n err cl = (ok, err', cl') \<Longrightarrow> published cl' = published cl"
  "DeclareForPublisher L err cl = (ok, err', cl') \<Longrightarrow> published cl' = published cl"
proof -
  show "DeclareForPublisher L err cl = (ok, err', cl') \<Longrightarrow> published cl' = published cl"
    by (rule published_rpcs [of "publisher_topology cl" L err])
       (simp_all add: DeclareForPublisher_rpcs publisher_topology_def chat_topology_def Let_def)
  assume "OpenChannel L n err cl = (ok, err', cl')"
  then show "published cl' = published cl"
    using published_rpcs [of "(''amqp_channel_open'', amqp_channel_open (m_conn cl) (m_channel_id cl)) #
        (if n > 0 then [(''amqp_basic_qos'', amqp_basic_qos (m_conn cl) (m_channel_id cl) 0 n False)]
         else [])" L err cl ok err' cl']
    by (cases "m_connected cl") (auto simp: OpenChannel_rpcs simp del: run_rpcs.simps)
qed

lemma published_EnsureConnected:
  "EnsureConnected L cfg (pub, met) = (ok, pub', met') \<Longrightarrow>
     published (m_client pub') = published (m_client pub)"
  by (auto simp: EnsureConnected_def dest!: published_Connect published_setup
      split: prod.splits if_splits)

lemma published_Publish:
  "Amqp_Client.Publish L x rk text pr mid err cl = (ok, err', cl') \<Longrightarrow>
     published cl' = published cl @
       [(x, rk, \<lparr>p_content_type = ''application/json'', p_delivery_mode = 2, p_priority = pr, p_message_id = mid\<rparr>, text)]"
  by (auto simp: Amqp_Client.Publish_def Let_def published_issue split: if_splits)

text \<open>One operation publishes at most the task that it takes.\<close>

lemma publisher_step_published:
  "\<exists>ms sent. published (client (publisher_exec L J cfg x s)) = published (client s) @ ms \<and>
     list_all2 (carries J) ms sent \<and> subseq sent (takes x s)"
proof (cases x)
  case (EvRun rand_bytes now)
  obtain b pub met where s: "s = (b, pub, met)" by (cases s)
  obtain b' pub' met' where run: "Run_iteration L J cfg rand_bytes now (b, pub, met) = (b', pub', met')"
    by (rule prod_cases3)
  then show ?thesis
  proof (cases rule: Run_iteration_cases)
    case idle
    with run show ?thesis by (auto simp: EvRun s state_parts intro: exI [of _ "[]"])
  next
    case (unconnected t q pub1 met1)
    with run show ?thesis
      by (auto simp: EvRun s state_parts dest: published_EnsureConnected intro: exI [of _ "[]"])
  next
    case (sent t q pub1 met1 ok err cl)
    then have "\<exists>m. published (m_client pub') = published (m_client pub) @ [m] \<and> carries J m t"
      using published_EnsureConnected [OF sent(3)] published_Publish [OF sent(4)] built_carries by simp
    with run sent show ?thesis by (fastforce simp: EvRun s state_parts)
  qed
qed (cases s; auto simp: state_parts Publish_def Start_def Stop_def intro: exI [of _ "[]"] split: if_splits)+

lemma publisher_run_published:
  "\<exists>ms sent. published (client (fold (publisher_exec L J cfg) xs s)) = published (client s) @ ms \<and>
     list_all2 (carries J) ms sent \<and> subseq sent (gathered (publisher_exec L J cfg) takes xs s)"
proof (induction xs arbitrary: s)
  case Nil
  show ?case by (auto intro: exI [of _ "[]"])
next
  case (Cons x xs)
  from publisher_step_published [of L J cfg x s] obtain m1 s1 where
    1: "published (client (publisher_exec L J cfg x s)) = published (client s) @ m1"
      "list_all2 (carries J) m1 s1" "subseq s1 (takes x s)" by blast
  from Cons [of "publisher_exec L J cfg x s"] obtain m2 s2 where
    2: "published (client (fold (publisher_exec L J cfg) (x # xs) s)) = (published (client s) @ m1) @ m2"
      "list_all2 (carries J) m2 s2"
      "subseq s2 (gathered (publisher_exec L J cfg) takes xs (publisher_exec L J cfg x s))"
    by (auto simp: 1)
  from list_emb_append_mono [OF 1(3) 2(3)] list_all2_appendI [OF 1(2) 2(2)] 2(1) show ?case
    by (intro exI [of _ "m1 @ m2"] exI [of _ "s1 @ s2"]) simp
qed

lemma fifo_history:
  assumes s: "s = fold (publisher_exec L J cfg) xs publisher_start"
  shows "length (queued s) \<le> queue_capacity cfg \<and>
    gathered (publisher_exec L J cfg) (accepts cfg) xs publisher_start =
      gathered (publisher_exec L J cfg) takes xs publisher_start @ queued s \<and>
    (\<exists>sent. list_all2 (carries J) (published (client s)) sent \<and>
       subseq sent (gathered (publisher_exec L J cfg) takes xs publisher_start))"
proof -
  have start: "queued publisher_start = []" "published (client publisher_start) = []"
    by (simp_all add: publisher_start_def state_parts new_MqPublisher_def new_AmqpClient_def
        published_def List.map_filter_def)
  have "length (queued s) \<le> queue_capacity cfg"
    unfolding s by (rule publisher.bounded) (simp add: start)
  moreover have "gathered (publisher_exec L J cfg) (accepts cfg) xs publisher_start =
      gathered (publisher_exec L J cfg) takes xs publisher_start @ queued s"
    using publisher.fifo [where s = publisher_start and xs = xs and L = L and J = J and cfg = cfg] by (simp add: start s)
  moreover have "\<exists>sent. list_all2 (carries J) (published (client s)) sent \<and>
       subseq sent (gathered (publisher_exec L J cfg) takes xs publisher_start)"
    using publisher_run_published [of L J cfg xs publisher_start] by (auto simp: s start)
  ultimately show ?thesis by blast
qed

text \<open>
  C17. The queue is a bounded FIFO: whatever calls of \<open>Publish\<close>, iterations, starts and stops happen from
  the start, it never exceeds its capacity, the accepted messages are exactly those the thread has
  taken, in order, followed by those still queued, and the messages published to the broker carry, one
  by one, a subsequence of the tasks that were taken: routing key, priority and, in the body, the payload;
  never reordered, never sent twice, never invented.
\<close>

theorem publisher_fifo:
  assumes s: "s = fold (publisher_exec L J cfg) xs publisher_start"
  shows "length (queued s) \<le> queue_capacity cfg \<and>
    gathered (publisher_exec L J cfg) (accepts cfg) xs publisher_start =
      gathered (publisher_exec L J cfg) takes xs publisher_start @ queued s \<and>
    (\<exists>sent. list_all2 (carries J) (published (client s)) sent \<and>
       subseq sent (gathered (publisher_exec L J cfg) takes xs publisher_start))"
  by (rule fifo_history [OF assms])

section \<open>The connection of the publisher\<close>

definition publisher_inv :: "amqp_lib \<Rightarrow> 'j publisher_state \<Rightarrow> bool" where
  "publisher_inv L s \<longleftrightarrow> amqp_inv L (client s)"

lemma EnsureConnected_inv [amqp_rules]:
  assumes "amqp_inv L (m_client pub)" "EnsureConnected L cfg (pub, met) = (ok, pub', met')"
  shows "amqp_inv L (m_client pub') \<and> m_connected (m_client pub') = ok"
proof (cases "m_connected (m_client pub)")
  case True
  with assms show ?thesis by (simp add: EnsureConnected_def)
next
  case False
  obtain ok1 err1 cl1 where 1: "Connect L cfg '''' (m_client pub) = (ok1, err1, cl1)"
    by (rule prod_cases3)
  note c1 = Connect_keeps [OF assms(1) 1]
  obtain ok2 err2 cl2 where 2: "OpenChannel L 0 err1 cl1 = (ok2, err2, cl2)" by (rule prod_cases3)
  note c2 = OpenChannel_uses_only [OF _ 2]
  obtain ok3 err3 cl3 where 3: "DeclareForPublisher L err2 cl2 = (ok3, err3, cl3)"
    by (rule prod_cases3)
  note c3 = topology_uses_only(1) [OF _ _ 3]
  from False 1 2 3 assms(2) have "m_client pub' =
      (if \<not> ok1 then cl1 else if \<not> ok2 then Close L cl2 else if \<not> ok3 then Close L cl3 else cl3)"
    "ok = (ok1 \<and> ok2 \<and> ok3)"
    by (auto simp: EnsureConnected_def split: if_splits)
  with c1 c2 c3 Close_inv show ?thesis
    by (cases ok1; cases ok2; cases ok3) (simp_all add: uses_only_def)
qed

lemma Run_iteration_inv:
  assumes inv: "amqp_inv L (m_client pub)"
    and run: "Run_iteration L J cfg rand_bytes now (b, pub, met) = (b', pub', met')"
  shows "amqp_inv L (m_client pub')"
  using run
proof (cases rule: Run_iteration_cases)
  case idle
  with inv show ?thesis by simp
next
  case (unconnected t q pub1 met1)
  with inv EnsureConnected_inv [OF _ unconnected(3)] show ?thesis by simp
next
  case (sent t q pub1 met1 ok err cl)
  from EnsureConnected_inv [OF _ sent(3)] inv
  have 1: "amqp_inv L (m_client pub1)" "m_connected (m_client pub1)" by simp_all
  then have "m_conn (m_client pub1) \<noteq> None" by (simp add: amqp_inv_def)
  from Publish_uses_only [OF 1(1) this sent(4)] have "amqp_inv L cl" by (simp add: uses_only_def)
  with sent Close_inv show ?thesis by simp
qed

interpretation publisher_conn: preserved "publisher_exec L J cfg" "publisher_inv L" for L J cfg
proof
  fix s :: "'a publisher_state" and x :: "'a publisher_op"
  obtain b pub met where s: "s = (b, pub, met)" by (cases s)
  assume inv: "publisher_inv L s"
  then have inv': "amqp_inv L (m_client pub)" by (simp add: publisher_inv_def s state_parts)
  show "publisher_inv L (publisher_exec L J cfg x s)"
  proof (cases x)
    case (EvRun rand_bytes now)
    obtain b' pub' met' where run: "Run_iteration L J cfg rand_bytes now (b, pub, met) = (b', pub', met')"
      by (rule prod_cases3)
    from Run_iteration_inv [OF inv' run] run show ?thesis
      by (simp add: EvRun s publisher_inv_def state_parts)
  qed (use inv' Close_inv in \<open>auto simp: s publisher_inv_def state_parts Publish_def Start_def Stop_def\<close>)
qed

lemma publisher_start_inv: "publisher_inv L publisher_start"
  by (simp add: publisher_inv_def publisher_start_def state_parts new_MqPublisher_def amqp_rules)

text \<open>
  The publisher uses the C library by its rules in every history: it never creates a second
  connection while one exists, never calls on a null or destroyed connection, and never destroys one
  twice; and when it is stopped, no connection is left.
\<close>

theorem publisher_protocol:
  assumes s: "s = fold (publisher_exec L J cfg) xs publisher_start"
  shows "live L (calls (client s)) = Some (m_conn (client s)) \<and>
    (m_connected (client s) \<longrightarrow> m_conn (client s) \<noteq> None) \<and>
    (running s \<longrightarrow> m_conn (client (publisher_exec L J cfg EvStop s)) = None)"
proof -
  have "publisher_inv L s" unfolding s by (rule publisher_conn.run) (rule publisher_start_inv)
  then show ?thesis
    by (cases s) (auto simp: publisher_inv_def amqp_inv_def state_parts Stop_def)
qed

section \<open>Nothing is lost while the broker accepts\<close>

text \<open>
  The connection can be used: it is established, or will be at the next attempt. Only \<open>Stop\<close> ends this, as long as
  the broker accepts what is published.
\<close>

definition up :: "amqp_lib \<Rightarrow> RabbitMqConfig \<Rightarrow> 'j publisher_state \<Rightarrow> bool" where
  "up L cfg s \<longleftrightarrow> running s \<and> fst (EnsureConnected L cfg (snd s))"

lemma EnsureConnected_only_client:
  "fst (EnsureConnected L cfg (pub\<lparr>m_queue := q\<rparr>, met')) = fst (EnsureConnected L cfg (pub, met))"
  "fst (EnsureConnected L cfg (pub, met')) = fst (EnsureConnected L cfg (pub, met))"
  by (auto simp: EnsureConnected_def split: prod.splits)

lemma up_step:
  assumes "publisher_inv L s" "up L cfg s" "\<forall>h. res_status L h = STATUS_OK L" "x \<noteq> EvStop"
  shows "up L cfg (publisher_exec L J cfg x s) \<and>
    (\<exists>ms. published (client (publisher_exec L J cfg x s)) = published (client s) @ ms \<and> list_all2 (carries J) ms (takes x s))"
proof (cases x)
  case (EvPublish rk pl pr)
  obtain b pub met where s: "s = (b, pub, met)" by (cases s)
  from assms(2) EnsureConnected_only_client(1) [where L = L and cfg = cfg and pub = pub]
    EnsureConnected_only_client(2) [of L cfg pub "IncMqPublish rk ''fail'' met" met] show ?thesis
    by (auto simp: EvPublish s up_def state_parts Publish_def)
next
  case (EvRun rand_bytes now)
  obtain b pub met where s: "s = (b, pub, met)" by (cases s)
  obtain b' pub' met' where run: "Run_iteration L J cfg rand_bytes now (b, pub, met) = (b', pub', met')"
    by (rule prod_cases3)
  then show ?thesis
  proof (cases rule: Run_iteration_cases)
    case idle
    with run assms(2) show ?thesis by (auto simp: EvRun s state_parts up_def)
  next
    case (unconnected t q pub1 met1)
    with assms(2) EnsureConnected_only_client(1) [of L cfg q pub met met] show ?thesis
      by (simp add: s up_def)
  next
    case (sent t q pub1 met1 ok err cl)
    have con: "m_connected (m_client pub1)"
      using EnsureConnected_inv [OF _ sent(3)] assms(1) by (simp add: publisher_inv_def s state_parts)
    have ok: "ok" "m_connected cl"
      using sent(4) assms(3) con by (auto simp: Amqp_Client.Publish_def Let_def issue_def)
    let ?text = "EnvelopeToString J (BuildEnvelope rand_bytes now ''chat'' (t_routing_key t) (t_payload t))"
    let ?m = "(''business.exchange'', t_routing_key t, \<lparr>p_content_type = ''application/json'', p_delivery_mode = 2,
        p_priority = t_priority t, p_message_id = V4 rand_bytes\<rparr>, ?text)"
    have "published (m_client pub') = published (m_client pub) @ [?m]"
      using sent(6) ok published_EnsureConnected [OF sent(3)] published_Publish [OF sent(4)] by simp
    moreover have "up L cfg (b', pub', met')"
      using sent(1,6) ok EnsureConnected_frame(2) [OF sent(3)] by (simp add: up_def state_parts EnsureConnected_def)
    ultimately show ?thesis
      using run sent(1,2) built_carries [of J t rand_bytes now] by (simp add: EvRun s state_parts)
  qed
qed (use assms(2,4) in \<open>auto simp: up_def state_parts Start_def split: prod.splits\<close>)

lemma up_run:
  assumes "publisher_inv L s" "up L cfg s" "\<forall>h. res_status L h = STATUS_OK L" "EvStop \<notin> set xs"
  shows "up L cfg (fold (publisher_exec L J cfg) xs s) \<and>
    (\<exists>ms. published (client (fold (publisher_exec L J cfg) xs s)) = published (client s) @ ms \<and>
       list_all2 (carries J) ms (gathered (publisher_exec L J cfg) takes xs s))"
  using assms
proof (induction xs arbitrary: s)
  case Nil
  then show ?case by simp
next
  case (Cons x xs)
  let ?s = "publisher_exec L J cfg x s"
  from up_step [OF Cons.prems(1-3), of x J] Cons.prems(4) obtain m1 where
    1: "up L cfg ?s" "published (client ?s) = published (client s) @ m1" "list_all2 (carries J) m1 (takes x s)" by auto
  have "publisher_inv L ?s" using publisher_conn.run [OF Cons.prems(1), of J cfg "[x]"] by simp
  from Cons.IH [OF this 1(1) Cons.prems(3)] Cons.prems(4) obtain m2 where
    2: "up L cfg (fold (publisher_exec L J cfg) xs ?s)"
      "published (client (fold (publisher_exec L J cfg) xs ?s)) = (published (client s) @ m1) @ m2"
      "list_all2 (carries J) m2 (gathered (publisher_exec L J cfg) takes xs ?s)" by (auto simp: 1(2))
  from list_all2_appendI [OF 1(3) 2(3)] 2(1,2) show ?case by (intro conjI exI [of _ "m1 @ m2"]) simp_all
qed

text \<open>As many turns as messages empty the queue.\<close>

lemma turns_empty:
  assumes "publisher_inv L s" "up L cfg s" "\<forall>h. res_status L h = STATUS_OK L" "length (queued s) \<le> length ts"
  shows "queued (fold (publisher_exec L J cfg) (map (\<lambda>(r, t). EvRun r t) ts) s) = [] \<and>
    gathered (publisher_exec L J cfg) (accepts cfg) (map (\<lambda>(r, t). EvRun r t) ts) s = []"
  using assms
proof (induction ts arbitrary: s)
  case Nil
  then show ?case by simp
next
  case (Cons p ts)
  obtain r t where p: "p = (r, t)" by (cases p)
  let ?s = "publisher_exec L J cfg (EvRun r t) s"
  have "queued s = take 1 (queued s) @ queued ?s"
    using publisher.flow [of s cfg "EvRun r t" L J] Cons.prems(2) by (simp add: up_def)
  with Cons.prems(4) have "length (queued ?s) \<le> length ts" by (cases "queued s") auto
  moreover have "publisher_inv L ?s" using publisher_conn.run [OF Cons.prems(1), of J cfg "[EvRun r t]"] by simp
  moreover have "up L cfg ?s" using up_step [OF Cons.prems(1-3), of "EvRun r t" J] by simp
  ultimately show ?case using Cons.IH [of ?s] Cons.prems(3) by (simp add: p)
qed

text \<open>
  C15. While the broker can be reached and accepts what is published, nothing that \<open>Publish\<close> accepted is lost. Take any
  history of the publisher after which its thread runs and a connection stands or can be made; let any calls of \<open>Publish\<close>
  and turns of the thread follow, and then as many turns as messages are queued. Then the queue is empty, and
  the broker has got, beyond what it had, exactly one message for each task that was queued or accepted, in
  order, each carrying its task.
\<close>

theorem publisher_drains:
  assumes "s = fold (publisher_exec L J cfg) before publisher_start" "running s" "fst (EnsureConnected L cfg (snd s))"
    and "\<forall>h. res_status L h = STATUS_OK L" "EvStop \<notin> set xs"
    and "s1 = fold (publisher_exec L J cfg) xs s" "length (queued s1) \<le> length ts"
    and "s2 = fold (publisher_exec L J cfg) (map (\<lambda>(r, t). EvRun r t) ts) s1"
  shows "queued s2 = [] \<and>
    (\<exists>ms. published (client s2) = published (client s) @ ms \<and>
       list_all2 (carries J) ms (queued s @ gathered (publisher_exec L J cfg) (accepts cfg) xs s))"
proof -
  let ?exec = "publisher_exec L J cfg" and ?turns = "map (\<lambda>(r, t). EvRun r t) ts"
  have inv: "publisher_inv L s" unfolding assms(1) by (rule publisher_conn.run) (rule publisher_start_inv)
  have up: "up L cfg s" using assms(2,3) by (simp add: up_def)
  obtain m1 where 1: "up L cfg s1" "published (client s1) = published (client s) @ m1"
    "list_all2 (carries J) m1 (gathered ?exec takes xs s)"
    using up_run [OF inv up assms(4,5), of J] assms(6) by blast
  have inv1: "publisher_inv L s1" unfolding assms(6) by (rule publisher_conn.run [OF inv])
  note empty = turns_empty [OF inv1 1(1) assms(4,7), of J]
  have "EvStop \<notin> set ?turns" by auto
  from up_run [OF inv1 1(1) assms(4) this, of J] obtain m2 where
    2: "published (client s2) = published (client s1) @ m2" "list_all2 (carries J) m2 (gathered ?exec takes ?turns s1)"
    unfolding assms(8) by blast
  have "queued s @ gathered ?exec (accepts cfg) xs s = gathered ?exec takes xs s @ queued s1"
    using publisher.fifo [where s = s and xs = xs and L = L and J = J and cfg = cfg] by (simp add: assms(6))
  moreover have "queued s1 = gathered ?exec takes ?turns s1"
    using publisher.fifo [where s = s1 and xs = ?turns and L = L and J = J and cfg = cfg] empty by simp
  ultimately have "list_all2 (carries J) (m1 @ m2) (queued s @ gathered ?exec (accepts cfg) xs s)"
    using list_all2_appendI [OF 1(3) 2(2)] by simp
  with 1(2) 2(1) empty show ?thesis unfolding assms(8) by auto
qed

section \<open>Accounting\<close>

lemma Publish_key_cases:
  "(rk' @ ''|'' @ r' = rk @ ''|'' @ r) = (rk' = rk \<and> r' = r)"
  if "r = ''ok'' \<or> r = ''fail''" "r' = ''ok'' \<or> r' = ''fail''"
  using that by auto

definition settled :: "string \<Rightarrow> ChatMetrics \<Rightarrow> u64" where
  "settled rk met =
     counter (rk @ ''|ok'') (m_mq_publish met) + counter (rk @ ''|fail'') (m_mq_publish met)"

lemma settled_publish:
  assumes "counters_wf (m_mq_publish met)" "r = ''ok'' \<or> r = ''fail''"
  shows "settled rk (IncMqPublish rk' r met) = settled rk met + (if rk = rk' then 1 else 0)"
  using assms by (auto simp: settled_def IncMqPublish_def counter_bump)

lemma settled_reconnect [simp]:
  "settled rk (IncMqReconnect role met) = settled rk met"
  "m_mq_publish (IncMqReconnect role met) = m_mq_publish met"
  by (simp_all add: settled_def IncMqReconnect_def)

definition queued_for :: "string \<Rightarrow> 'j publisher_state \<Rightarrow> u64" where
  "queued_for rk s = of_nat (count_list (map t_routing_key (queued s)) rk)"

definition balance :: "string \<Rightarrow> 'j publisher_state \<Rightarrow> u64" where
  "balance rk s = settled rk (metrics s) + queued_for rk s"

definition publishes :: "string \<Rightarrow> 'j publisher_op list \<Rightarrow> nat" where
  "publishes rk xs = length (filter (\<lambda>x. \<exists>pl pr. x = EvPublish rk pl pr) xs)"

lemma balance_step:
  assumes wf: "counters_wf (m_mq_publish (metrics s))"
  shows "balance rk (publisher_exec L J cfg x s) = balance rk s + of_nat (publishes rk [x])"
    "counters_wf (m_mq_publish (metrics (publisher_exec L J cfg x s)))"
proof -
  obtain b pub met where s: "s = (b, pub, met)" by (cases s)
  note parts = s balance_def queued_for_def publishes_def state_parts
  have wf': "counters_wf (m_mq_publish met)" using wf by (simp add: s state_parts)
  have wf1: "counters_wf (m_mq_publish (IncMqPublish k r m))" if "counters_wf (m_mq_publish m)" for k r m
    using bump_wf [OF that] by (simp add: IncMqPublish_def)
  have "balance rk (publisher_exec L J cfg x s) = balance rk s + of_nat (publishes rk [x]) \<and>
    counters_wf (m_mq_publish (metrics (publisher_exec L J cfg x s)))"
  proof (cases x)
    case (EvPublish k pl pr)
    with wf' wf1 show ?thesis by (auto simp: parts Publish_def settled_publish)
  next
    case (EvRun rand_bytes now)
    obtain b' pub' met' where run: "Run_iteration L J cfg rand_bytes now (b, pub, met) = (b', pub', met')"
      by (rule prod_cases3)
    then show ?thesis
    proof (cases rule: Run_iteration_cases)
      case idle
      with run wf' show ?thesis by (simp add: parts EvRun)
    next
      case (unconnected t q pub1 met1)
      note f = EnsureConnected_frame [OF unconnected(3)]
      then have "counters_wf (m_mq_publish met1)" "settled rk met1 = settled rk met"
        using wf' by auto
      with run unconnected wf1 f show ?thesis by (simp add: parts EvRun settled_publish)
    next
      case (sent t q pub1 met1 ok err cl)
      note f = EnsureConnected_frame [OF sent(3)]
      then have "counters_wf (m_mq_publish met1)" "settled rk met1 = settled rk met"
        using wf' by auto
      with run sent wf1 f show ?thesis by (simp add: parts EvRun settled_publish)
    qed
  qed (use wf' in \<open>auto simp: parts Start_def Stop_def\<close>)
  then show "balance rk (publisher_exec L J cfg x s) = balance rk s + of_nat (publishes rk [x])"
    "counters_wf (m_mq_publish (metrics (publisher_exec L J cfg x s)))" by blast+
qed

lemma balance_run:
  "counters_wf (m_mq_publish (metrics s)) \<Longrightarrow>
     balance rk (fold (publisher_exec L J cfg) xs s) = balance rk s + of_nat (publishes rk xs)"
proof (induction xs arbitrary: s)
  case Nil
  show ?case by (simp add: publishes_def)
next
  case (Cons x xs)
  from Cons.IH [OF balance_step(2) [OF Cons.prems]] balance_step(1) [OF Cons.prems, of rk L J cfg x]
  show ?case by (simp add: publishes_def)
qed

text \<open>
  C40. No message disappears from the books: in every history, for every routing key, the messages counted
  as \<open>ok\<close> or \<open>fail\<close> plus those still queued are exactly the calls of \<open>Publish\<close> with that routing key
  (modulo \<open>2^64\<close>), accepted or refused.
\<close>

theorem publisher_accounting:
  "settled rk (metrics (fold (publisher_exec L J cfg) xs publisher_start)) +
     of_nat (count_list (map t_routing_key (queued (fold (publisher_exec L J cfg) xs publisher_start))) rk) =
   of_nat (publishes rk xs)"
proof -
  let ?s = "publisher_start :: 'a publisher_state"
  have "counters_wf (m_mq_publish (metrics ?s))" "balance rk ?s = 0"
    by (simp_all add: publisher_start_def balance_def queued_for_def state_parts new_ChatMetrics_def
        counters_wf_def settled_def counter_def new_MqPublisher_def)
  with balance_run [of ?s rk L J cfg xs] show ?thesis
    by (simp add: balance_def queued_for_def)
qed

section \<open>One message\<close>

text \<open>
  C29. A queued message whose turn comes while the broker is reachable is published once, to the business
  exchange under its routing key and priority, as the text of an envelope that any receiver decodes to
  the message's type and payload (for an object payload, with the random generator working and a JSON
  library that parses its own output); the broker's message id is the envelope's.
\<close>

theorem Run_delivers:
  assumes "json_laws J" "j_is_object J (t_payload t)" "t_routing_key t \<noteq> []"
    and "running s" "queued s = t # q"
    and "EnsureConnected L cfg ((fst (snd s))\<lparr>m_queue := q\<rparr>, metrics s) = (True, pub1, met1)"
    and "\<forall>h. res_status L h = STATUS_OK L"
    and env: "env = BuildEnvelope (Some bytes) now ''chat'' (t_routing_key t) (t_payload t)"
    and "j_parse J (EnvelopeToString J env) = Some (EnvelopeToJson J env)"
    and s': "s' = publisher_exec L J cfg (EvRun (Some bytes) now) s"
  shows "calls (client s') =
      amqp_basic_publish (m_conn (m_client pub1)) (m_channel_id (m_client pub1)) ''business.exchange''
        (t_routing_key t) False False
        \<lparr>p_content_type = ''application/json'', p_delivery_mode = 2, p_priority = t_priority t,
         p_message_id = msg_id env\<rparr> (EnvelopeToString J env) # calls (m_client pub1) \<and>
    EnvelopeFromString J (EnvelopeToString J env) = Some (Inr env) \<and>
    env_type env = t_routing_key t \<and> payload env = t_payload t \<and> queued s' = q \<and>
    metrics s' = IncMqPublish (t_routing_key t) ''ok'' met1"
proof -
  obtain b pub met where s: "s = (b, pub, met)" by (cases s)
  have pq: "m_queue pub = t # q" "m_running pub" and
    ens: "EnsureConnected L cfg (pub\<lparr>m_queue := q\<rparr>, met) = (True, pub1, met1)"
    using assms(4-6) by (simp_all add: s state_parts)
  from EnsureConnected_frame(1) [OF ens] have q: "m_queue pub1 = q" by simp
  have valid: "envelope_valid J env"
    using BuildEnvelope_is_valid [OF assms(1,3,2)] by (simp add: env)
  have "EnvelopeFromString J (EnvelopeToString J env) = Some (Inr env)"
    by (rule Envelope_decodes [OF assms(1) valid assms(9)])
  moreover have "env_type env = t_routing_key t" "payload env = t_payload t"
    by (simp_all add: env BuildEnvelope_def)
  moreover have "s' = (mq_reconnect_initial_backoff_ms cfg,
      pub1\<lparr>m_client := issue (amqp_basic_publish (m_conn (m_client pub1)) (m_channel_id (m_client pub1))
        ''business.exchange'' (t_routing_key t) False False
        \<lparr>p_content_type = ''application/json'', p_delivery_mode = 2, p_priority = t_priority t,
         p_message_id = msg_id env\<rparr> (EnvelopeToString J env)) (m_client pub1)\<rparr>,
      IncMqPublish (t_routing_key t) ''ok'' met1)"
    using pq ens assms(7)
    by (simp add: s' s Run_iteration_def pop_task_def Amqp_Client.Publish_def Let_def env [symmetric])
  ultimately show ?thesis by (simp add: state_parts issue_def q)
qed

text \<open>
  The reconnect backoff: in every history after a start, with a configuration that has
  \<open>0 < initial <= max\<close> and \<open>2 * max\<close> in the range of \<open>int\<close>, the wait before the next attempt stays between
  the initial and the maximal backoff, and a failed attempt doubles it up to the maximum. The
  message that the failed attempt had taken is given up: it leaves the queue and is counted as
  failed, although \<open>Publish\<close> had accepted it.
\<close>

theorem publisher_backoff:
  assumes cfg: "0 < mq_reconnect_initial_backoff_ms cfg"
      "mq_reconnect_initial_backoff_ms cfg \<le> mq_reconnect_max_backoff_ms cfg"
      "mq_reconnect_max_backoff_ms cfg < 2 ^ 30"
    and s: "s = fold (publisher_exec L J cfg) (xs @ EvStart # ys) publisher_start"
      "\<not> running (fold (publisher_exec L J cfg) xs publisher_start)"
  shows "mq_reconnect_initial_backoff_ms cfg \<le> fst s \<and> fst s \<le> mq_reconnect_max_backoff_ms cfg \<and>
    (running s \<longrightarrow> queued s = t # q \<longrightarrow>
     EnsureConnected L cfg ((fst (snd s))\<lparr>m_queue := q\<rparr>, metrics s) = (False, pub1, met1) \<longrightarrow>
     publisher_exec L J cfg (EvRun rand_bytes now) s =
       (min (mq_reconnect_max_backoff_ms cfg) (2 * fst s), pub1,
        IncMqPublish (t_routing_key t) ''fail'' met1) \<and> m_queue pub1 = q)"
proof -
  let ?in = "\<lambda>s. mq_reconnect_initial_backoff_ms cfg \<le> fst s \<and> fst s \<le> mq_reconnect_max_backoff_ms cfg"
  have step: "?in (publisher_exec L J cfg x s)" if "?in s" for x and s :: "'a publisher_state"
  proof -
    obtain b pub met where s: "s = (b, pub, met)" by (cases s)
    show ?thesis
    proof (cases x)
      case (EvRun rand_bytes now)
      obtain b' pub' met' where run: "Run_iteration L J cfg rand_bytes now (b, pub, met) = (b', pub', met')"
        by (rule prod_cases3)
      have "i32 (b * 2) = 2 * b" using that cfg s by (simp add: mult.commute)
      with run that cfg have "?in (b', pub', met')"
        by (cases rule: Run_iteration_cases) (auto simp: s)
      with run show ?thesis by (simp add: EvRun s)
    qed (use that cfg in \<open>auto simp: s Publish_def Start_def Stop_def\<close>)
  qed
  have run: "?in (fold (publisher_exec L J cfg) zs s)" if "?in s" for zs and s :: "'a publisher_state"
    using that step by (induction zs arbitrary: s) simp_all
  have "?in (publisher_exec L J cfg EvStart (fold (publisher_exec L J cfg) xs publisher_start))"
    using s(2) cfg by (auto simp: Start_def state_parts split: prod.split)
  from run [OF this, of ys] have bounds: "?in s" by (simp add: s(1))
  moreover have "publisher_exec L J cfg (EvRun rand_bytes now) s =
       (min (mq_reconnect_max_backoff_ms cfg) (2 * fst s), pub1,
        IncMqPublish (t_routing_key t) ''fail'' met1) \<and> m_queue pub1 = q"
    if r: "running s" "queued s = t # q"
      and e: "EnsureConnected L cfg ((fst (snd s))\<lparr>m_queue := q\<rparr>, metrics s) = (False, pub1, met1)"
  proof -
    obtain b pub met where p: "s = (b, pub, met)" by (cases s)
    have "i32 (b * 2) = 2 * b" using bounds cfg p by (simp add: mult.commute)
    with r e EnsureConnected_frame(1) [OF e] show ?thesis
      by (simp add: p state_parts Run_iteration_def pop_task_def)
  qed
  ultimately show ?thesis by blast
qed

section \<open>Witnesses\<close>

abbreviation demo_mq :: RabbitMqConfig where
  "demo_mq \<equiv> m_rabbitmq (read_config (\<lambda>_. None) default_vars)"

theorem publisher_fifo_witness:
  "length (queued (fold (publisher_exec (accepting no_message) (ref_json []) demo_mq)
     [EvPublish ''a'' (JObj []) 0, EvPublish ''b'' (JObj []) 0] publisher_start)) \<le> queue_capacity demo_mq"
  using publisher_fifo [OF refl, of "accepting no_message" "ref_json []" demo_mq
      "[EvPublish ''a'' (JObj []) 0, EvPublish ''b'' (JObj []) 0]"] by blast

lemma accepting_connects:
  "m_client pub = new_AmqpClient \<Longrightarrow> fst (EnsureConnected (accepting no_message) demo_mq (pub, met))"
  by (simp add: EnsureConnected_def new_AmqpClient_def Connect_def Close_def issue_def Let_def accepting_def
      OpenChannel_def and_then_def CheckRpcReply_def DeclareForPublisher_def DeclareBusinessExchange_def
      DeclareChatTopology_def declare_exchange_def declare_queue_def bind_queue_def)

theorem publisher_drains_witness:
  "list_all2 (carries (ref_json []))
     (published (client (fold (publisher_exec (accepting no_message) (ref_json []) demo_mq)
       [EvStart, EvPublish ''a'' (JObj []) 0, EvPublish ''a'' (JInt 3) 5, EvRun None 0, EvRun None 1] publisher_start)))
     [\<lparr>t_routing_key = ''a'', t_payload = JObj [], t_priority = 0\<rparr>,
      \<lparr>t_routing_key = ''a'', t_payload = JInt 3, t_priority = 5\<rparr>]"
proof -
  let ?L = "accepting no_message" and ?J = "ref_json []"
  let ?xs = "[EvPublish ''a'' (JObj []) 0, EvPublish ''a'' (JInt 3) 5]"
  define s where "s = fold (publisher_exec ?L ?J demo_mq) [EvStart] publisher_start"
  define s1 where "s1 = fold (publisher_exec ?L ?J demo_mq) ?xs s"
  have cap: "queue_capacity demo_mq = 10000" by (simp add: queue_capacity_def read_config_def default_vars_def)
  have s: "snd s = (new_MqPublisher\<lparr>m_running := True\<rparr>, new_ChatMetrics)"
    by (simp add: s_def publisher_start_def Start_def new_MqPublisher_def)
  then have run: "running s" "queued s = []" "published (client s) = []"
    by (simp_all add: state_parts new_MqPublisher_def new_AmqpClient_def published_def List.map_filter_def)
  have con: "fst (EnsureConnected ?L demo_mq (snd s))"
    unfolding s by (rule accepting_connects) (simp add: new_MqPublisher_def)
  have acc: "gathered (publisher_exec ?L ?J demo_mq) (accepts demo_mq) ?xs s =
      [\<lparr>t_routing_key = ''a'', t_payload = JObj [], t_priority = 0\<rparr>, \<lparr>t_routing_key = ''a'', t_payload = JInt 3, t_priority = 5\<rparr>]"
    "length (queued s1) \<le> length [(None, 0), (None, 1)]"
    using s by (cases s; simp add: s1_def cap Publish_def new_MqPublisher_def state_parts)+
  have ok: "\<forall>h. res_status ?L h = STATUS_OK ?L" by (simp add: accepting_def)
  from publisher_drains [OF s_def run(1) con ok _ s1_def acc(2) refl] run(2,3) acc(1) show ?thesis
    by (simp add: s_def s1_def)
qed

theorem publisher_protocol_witness:
  "\<exists>c. live (accepting no_message) (calls (client (fold (publisher_exec (accepting no_message)
     (ref_json []) demo_mq) [EvStart, EvPublish ''a'' (JObj []) 0, EvRun None 0, EvStop]
     publisher_start))) = Some c"
  using publisher_protocol [OF refl, of "accepting no_message" "ref_json []" demo_mq
      "[EvStart, EvPublish ''a'' (JObj []) 0, EvRun None 0, EvStop]"] by blast

definition demo_task :: "json Task" where
  "demo_task = \<lparr>t_routing_key = ''k'', t_payload = JObj [], t_priority = 5\<rparr>"

definition demo_message :: "json Envelope" where
  "demo_message = BuildEnvelope (Some (\<lambda>_. 7)) 0 ''chat'' ''k'' (JObj [])"

definition demo_lib :: "json json_lib" where
  "demo_lib = ref_json [(EnvelopeToString (ref_json []) demo_message, EnvelopeToJson (ref_json []) demo_message)]"

definition demo_queued :: "json publisher_state" where
  "demo_queued = (1000, \<lparr>m_running = True, m_queue = [demo_task], m_client = new_AmqpClient\<rparr>, new_ChatMetrics)"

lemma ref_json_envelope: "EnvelopeToJson (ref_json texts) env = EnvelopeToJson (ref_json []) env"
  "EnvelopeToString (ref_json texts) env = EnvelopeToString (ref_json []) env"
  by (simp_all add: EnvelopeToString_def EnvelopeToJson_def ref_json_def)

theorem Run_delivers_witness:
  "queued (publisher_exec (accepting no_message) demo_lib demo_mq (EvRun (Some (\<lambda>_. 7)) 0) demo_queued) = [] \<and>
   EnvelopeFromString demo_lib (EnvelopeToString demo_lib demo_message) = Some (Inr demo_message)"
proof -
  let ?L = "accepting no_message"
  have "fst (EnsureConnected ?L demo_mq ((fst (snd demo_queued))\<lparr>m_queue := []\<rparr>, metrics demo_queued))"
    by (rule accepting_connects) (simp add: demo_queued_def)
  then obtain pub1 met1 where e: "EnsureConnected ?L demo_mq ((fst (snd demo_queued))\<lparr>m_queue := []\<rparr>,
      metrics demo_queued) = (True, pub1, met1)" by (metis prod.collapse)
  have laws: "json_laws demo_lib" by (simp add: demo_lib_def ref_json_laws)
  have obj: "j_is_object demo_lib (t_payload demo_task)"
    by (simp add: demo_lib_def demo_task_def ref_json_def)
  have parse: "j_parse demo_lib (EnvelopeToString demo_lib demo_message) =
      Some (EnvelopeToJson demo_lib demo_message)"
    unfolding demo_lib_def by (subst (1 2) ref_json_envelope) (simp add: ref_json_def)
  show ?thesis
    using Run_delivers [OF laws obj _ _ _ e _ _ parse refl, of "\<lambda>_. 7" 0]
    by (simp add: demo_task_def demo_queued_def state_parts accepting_def demo_message_def)
qed

theorem publisher_backoff_witness:
  "fst (fold (publisher_exec (accepting no_message) (ref_json []) demo_mq)
     [EvStart, EvPublish ''a'' (JObj []) 0, EvRun None 0] publisher_start) \<le> 30000"
proof -
  have "mq_reconnect_max_backoff_ms demo_mq = 30000" "mq_reconnect_initial_backoff_ms demo_mq = 1000"
    by (simp_all add: read_config_def default_vars_def)
  with publisher_backoff [OF _ _ _ refl, of demo_mq "accepting no_message" "ref_json []" "[]"
      "[EvPublish ''a'' (JObj []) 0, EvRun None 0]"]
  show ?thesis by (simp add: publisher_start_def state_parts new_MqPublisher_def)
qed

end
