(* ===== verification/Protocol.thy ===== *)
theory Protocol
  imports Json_Lib Ref_Json
begin

text \<open>
  \<open>chat/protocol.{h,cc}\<close>: the frames between client and service. A WebSocket session is a number
  (its identity); a null \<open>WSSession::ptr\<close> is \<open>None\<close>. What the code does to a session is an
  \<open>effect\<close>; the value that \<open>session->sendMessage\<close> returns is an argument \<open>rt\<close>.
\<close>

type_synonym sid = nat

datatype effect =
    SendMessage sid string \<comment> \<open>\<open>sendMessage(text, TEXT_FRAME, true)\<close>\<close>
  | CancelAll sid \<comment> \<open>\<open>getSocket()->cancelAll()\<close>\<close>
  | CloseSession sid

record 'j ClientFrame =
  cf_type :: string
  cf_has_seq :: bool
  cf_seq :: int
  cf_data :: 'j

definition ParseClientFrame ::
  "'j json_lib \<Rightarrow> string \<Rightarrow> (string + 'j ClientFrame) option" where
  "ParseClientFrame J raw =
     (case j_parse J raw of
        None \<Rightarrow> Some (Inl ''bad json'')
      | Some json \<Rightarrow>
          if \<not> j_is_object J json then Some (Inl ''frame must be object'')
          else do {
            ty \<leftarrow> get_string J json ''type'';
            if ty = [] then Some (Inl ''type required'')
            else do {
              has_seq \<leftarrow> j_is_member J json ''seq'';
              sq \<leftarrow> (if has_seq then do {
                       v \<leftarrow> j_member J json ''seq'';
                       if \<not> j_is_int64 J v \<and> \<not> j_is_uint64 J v \<and> \<not> j_is_int J v
                       then Some (Inl ''seq must be integer'')
                       else do { n \<leftarrow> j_as_int64 J v; Some (Inr (True, n)) }
                     }
                     else Some (Inr (False, 0)));
              case sq of
                Inl err \<Rightarrow> Some (Inl err)
              | Inr (hs, n) \<Rightarrow> do {
                  has_data \<leftarrow> j_is_member J json ''data'';
                  d \<leftarrow> (if has_data then j_member J json ''data'' else Some (j_object J));
                  Some (Inr \<lparr>cf_type = ty, cf_has_seq = hs, cf_seq = n, cf_data = d\<rparr>)
                }
            }
          })"

definition BuildFrame :: "'j json_lib \<Rightarrow> string \<Rightarrow> 'j \<Rightarrow> bool \<Rightarrow> int \<Rightarrow> 'j" where
  "BuildFrame J type data has_seq seq =
     (let out = j_set J (j_null J) ''type'' (j_string J type);
          out = (if has_seq then j_set J out ''seq'' (j_int J seq) else out)
      in j_set J out ''data'' data)"

text \<open>\<open>SendFrame\<close>: the result code and what is done to the session.\<close>

definition SendFrame ::
  "'j json_lib \<Rightarrow> int \<Rightarrow> sid option \<Rightarrow> string \<Rightarrow> 'j \<Rightarrow> bool \<Rightarrow> int \<Rightarrow> int \<times> effect list" where
  "SendFrame J rt session type data has_seq seq =
     (case session of
        None \<Rightarrow> (-1, [])
      | Some s \<Rightarrow>
          let text = j_print J (BuildFrame J type data has_seq seq)
          in (if rt \<le> 0 then -1 else 0, [SendMessage s text]))"

definition error_data :: "'j json_lib \<Rightarrow> int \<Rightarrow> string \<Rightarrow> 'j" where
  "error_data J code msg =
     j_set J (j_set J (j_null J) ''code'' (j_int J code)) ''msg'' (j_string J msg)"

definition SendError ::
  "'j json_lib \<Rightarrow> int \<Rightarrow> sid option \<Rightarrow> int \<Rightarrow> string \<Rightarrow> bool \<Rightarrow> int \<Rightarrow> int \<times> effect list" where
  "SendError J rt session code msg has_seq seq =
     SendFrame J rt session ''error'' (error_data J code msg) has_seq seq"

section \<open>Properties\<close>

lemma BuildFrame_reads:
  assumes "json_laws J"
  shows "j_is_object J (BuildFrame J type data has_seq seq)"
    "get_string J (BuildFrame J type data has_seq seq) ''type'' = Some type"
    "j_is_member J (BuildFrame J type data has_seq seq) ''seq'' = Some has_seq"
    "j_member J (BuildFrame J type data has_seq seq) ''seq'' =
      Some (if has_seq then j_int J seq else j_null J)"
    "j_is_member J (BuildFrame J type data has_seq seq) ''data'' = Some True"
    "j_member J (BuildFrame J type data has_seq seq) ''data'' = Some data"
  by (simp_all add: BuildFrame_def Let_def get_string_def json_set [OF assms] json_null [OF assms]
      json_conv [OF assms])

text \<open>
  C35. A frame that \<open>BuildFrame\<close> builds and \<open>JsonUtil\<close> prints is read back by \<open>ParseClientFrame\<close> with
  the same type, sequence number and data, for any nonempty type and any 64-bit sequence number,
  provided the JSON library parses its own output back.
\<close>

theorem ParseClientFrame_BuildFrame:
  assumes "json_laws J" "type \<noteq> []" "- (2 ^ 63) \<le> seq" "seq < 2 ^ 63"
    and "j_parse J (j_print J (BuildFrame J type data has_seq seq))
      = Some (BuildFrame J type data has_seq seq)"
  shows "ParseClientFrame J (j_print J (BuildFrame J type data has_seq seq)) =
    Some (Inr \<lparr>cf_type = type, cf_has_seq = has_seq, cf_seq = (if has_seq then seq else 0),
      cf_data = data\<rparr>)"
  using assms(2-4) json_conv(4,5) [OF assms(1) assms(3,4)]
  by (simp add: ParseClientFrame_def assms(5) BuildFrame_reads [OF assms(1)])

theorem ParseClientFrame_BuildFrame_witness:
  "ParseClientFrame (ref_json [(''{\"type\":\"ping\",\"seq\":7,\"data\":null}'',
       JObj [(''type'', JStr ''ping''), (''seq'', JInt 7), (''data'', JNull)])])
     ''{\"type\":\"ping\",\"seq\":7,\"data\":null}'' =
   Some (Inr \<lparr>cf_type = ''ping'', cf_has_seq = True, cf_seq = 7, cf_data = JNull\<rparr>)"
proof -
  let ?t = "''{\"type\":\"ping\",\"seq\":7,\"data\":null}''"
  let ?v = "JObj [(''type'', JStr ''ping''), (''seq'', JInt 7), (''data'', JNull)]"
  let ?J = "ref_json [(?t, ?v)]"
  have b: "BuildFrame ?J ''ping'' JNull True 7 = ?v"
    by (simp add: BuildFrame_def ref_json_defs)
  have p: "j_print ?J ?v = ?t"
    by (simp add: ref_json_def quoted_def commas_def show_int_def show_nat.simps digit_def)
  have "j_parse ?J ?t = Some ?v" by (simp add: ref_json_def)
  with ParseClientFrame_BuildFrame [OF ref_json_laws, of "''ping''" 7 "[(?t, ?v)]" JNull True] b p
  show ?thesis by simp
qed

text \<open>
  A frame that is accepted has a nonempty type, and its sequence number is the 64-bit value of
  a \<open>seq\<close> member or zero without one; the text was a JSON object.
\<close>

theorem ParseClientFrame_sound:
  assumes "ParseClientFrame J raw = Some (Inr f)"
  shows "cf_type f \<noteq> [] \<and>
    (\<exists>json. j_parse J raw = Some json \<and> j_is_object J json \<and>
       get_string J json ''type'' = Some (cf_type f) \<and>
       j_is_member J json ''seq'' = Some (cf_has_seq f) \<and>
       (if cf_has_seq f then \<exists>v. j_member J json ''seq'' = Some v \<and> j_as_int64 J v = Some (cf_seq f)
        else cf_seq f = 0))"
  using assms
  by (auto simp: ParseClientFrame_def split: option.splits bind_splits if_splits sum.splits)

theorem ParseClientFrame_sound_witness:
  "\<exists>f. ParseClientFrame (ref_json [(''F'', JObj [(''type'', JStr ''bye'')])]) ''F'' = Some (Inr f) \<and>
     cf_type f \<noteq> []"
proof -
  let ?J = "ref_json [(''F'', JObj [(''type'', JStr ''bye'')])]"
  obtain f where "ParseClientFrame ?J ''F'' = Some (Inr f)"
    by (simp add: ParseClientFrame_def ref_json_defs)
  with ParseClientFrame_sound [OF this] show ?thesis by blast
qed

text \<open>
  A sequence number from \<open>2^63\<close> on passes the integer check (\<open>isUInt64\<close> holds) and then throws
  in \<open>asInt64\<close>: \<open>ParseClientFrame\<close> does not return an error for it.
\<close>

theorem ParseClientFrame_large_seq_throws:
  assumes "j_parse J raw = Some json" "j_is_object J json"
    and "get_string J json ''type'' = Some ty" "ty \<noteq> []"
    and "j_is_member J json ''seq'' = Some True" "j_member J json ''seq'' = Some v"
    and "j_is_uint64 J v" "j_as_int64 J v = None"
  shows "ParseClientFrame J raw = None"
  using assms by (simp add: ParseClientFrame_def)

theorem ParseClientFrame_large_seq_throws_witness:
  "ParseClientFrame (ref_json [(''F'', JObj [(''type'', JStr ''ping''),
     (''seq'', JInt 9223372036854775808)])]) ''F'' = None"
  by (rule ParseClientFrame_large_seq_throws
      [where json = "JObj [(''type'', JStr ''ping''), (''seq'', JInt 9223372036854775808)]"
        and ty = "''ping''" and v = "JInt 9223372036854775808"])
    (simp_all add: ref_json_defs)

text \<open>
  \<open>SendFrame\<close> sends exactly one text message to a session that exists, and none to a null one;
  it returns 0 exactly when there was a session and \<open>sendMessage\<close> reported a positive result.
\<close>

theorem SendFrame_effect:
  "snd (SendFrame J rt session type data has_seq seq) =
     (case session of None \<Rightarrow> []
      | Some s \<Rightarrow> [SendMessage s (j_print J (BuildFrame J type data has_seq seq))]) \<and>
   (fst (SendFrame J rt session type data has_seq seq) = 0 \<longleftrightarrow> session \<noteq> None \<and> 0 < rt)"
  by (cases session) (simp_all add: SendFrame_def Let_def)

end
