(* ===== verification/Service.thy ===== *)
theory Service
  imports Publisher Protocol Session_Registry
begin

text \<open>
  The state that the handlers of the service share: the connection objects, the registry, the map of
  pending sends, the publisher and the metrics (the singletons of the code), the counter of fallback
  device ids, and two records of what happens outside: the closures scheduled on the IO managers that
  have not run yet, in the order of scheduling, and what was done to the WebSocket sessions.

  A closure that captures a connection is a \<open>task\<close> with its address; a \<open>task\<close> runs by \<open>run_task\<close>. A
  handler that can throw returns \<open>None\<close> for the exception together with the state that it leaves.
  \<open>http_lib\<close> stands for the framework's requests and sessions, which are not in the repository.
\<close>

record 'h http_lib =
  getParam :: "'h \<Rightarrow> string \<Rightarrow> string"
  getHeader :: "'h \<Rightarrow> string \<Rightarrow> string"
  setHeader :: "'h \<Rightarrow> string \<Rightarrow> string \<Rightarrow> 'h"
  Atoi :: "string \<Rightarrow> int"
  has_socket :: "sid \<Rightarrow> bool" \<comment> \<open>\<open>session->getSocket()\<close> is not null\<close>

record PendingSend =
  ps_sender_user_id :: u64
  ps_sender_device_id :: string
  ps_created_ms :: int
  ps_has_seq :: bool
  ps_seq :: int

datatype 'j task =
    PushTask ptr string 'j bool int \<comment> \<open>send a frame and count it\<close>
  | KickTask ptr 'j \<comment> \<open>send the frame \<open>kicked\<close>\<close>
  | CloseTask ptr \<comment> \<open>cancel the socket's operations and close the session\<close>

record 'j service =
  sv_heap :: heap
  sv_next :: ptr
  sv_registry :: SessionRegistry
  sv_pending :: "(string \<times> PendingSend) list"
  sv_publisher :: "'j MqPublisher"
  sv_metrics :: ChatMetrics
  sv_device_seq :: u64
  sv_tasks :: "(nat \<times> 'j task) list"
  sv_effects :: "effect list"

definition perform :: "effect list \<Rightarrow> 'j service \<Rightarrow> 'j service" where
  "perform es s = s\<lparr>sv_effects := sv_effects s @ es\<rparr>"

definition schedule :: "nat \<Rightarrow> 'j task \<Rightarrow> 'j service \<Rightarrow> 'j service" where
  "schedule iom t s = s\<lparr>sv_tasks := sv_tasks s @ [(iom, t)]\<rparr>"

definition count_metric :: "(ChatMetrics \<Rightarrow> ChatMetrics) \<Rightarrow> 'j service \<Rightarrow> 'j service" where
  "count_metric f s = s\<lparr>sv_metrics := f (sv_metrics s)\<rparr>"

text \<open>
  \<open>Protocol::SendFrame\<close> and \<open>SendError\<close> as the handlers use them: the result is ignored everywhere, so the value
  that \<open>sendMessage\<close> returns (here 1) is immaterial.
\<close>

definition send_frame ::
  "'j json_lib \<Rightarrow> sid option \<Rightarrow> string \<Rightarrow> 'j \<Rightarrow> bool \<Rightarrow> int \<Rightarrow> 'j service \<Rightarrow> 'j service" where
  "send_frame J session type data has_seq seq =
     perform (snd (SendFrame J 1 session type data has_seq seq))"

definition send_error ::
  "'j json_lib \<Rightarrow> sid option \<Rightarrow> int \<Rightarrow> string \<Rightarrow> bool \<Rightarrow> int \<Rightarrow> 'j service \<Rightarrow> 'j service" where
  "send_error J session code msg has_seq seq =
     perform (snd (SendError J 1 session code msg has_seq seq))"

definition send_push :: "'j json_lib \<Rightarrow> ptr \<Rightarrow> string \<Rightarrow> 'j \<Rightarrow> bool \<Rightarrow> int \<Rightarrow> 'j service \<Rightarrow> 'j service" where
  "send_push J c type data has_seq seq s =
     count_metric (IncWsOut type) (send_frame J (oc_session (sv_heap s c)) type data has_seq seq s)"

definition close_session :: "'h http_lib \<Rightarrow> ptr \<Rightarrow> 'j service \<Rightarrow> 'j service" where
  "close_session H c s =
     (case oc_session (sv_heap s c) of
        None \<Rightarrow> s
      | Some w \<Rightarrow> perform ((if has_socket H w then [CancelAll w] else []) @ [CloseSession w]) s)"

fun run_task :: "'h http_lib \<Rightarrow> 'j json_lib \<Rightarrow> 'j task \<Rightarrow> 'j service \<Rightarrow> 'j service" where
  "run_task H J (PushTask c type data has_seq seq) s = send_push J c type data has_seq seq s"
| "run_task H J (KickTask c data) s =
     send_frame J (oc_session (sv_heap s c)) ''kicked'' data False 0 s"
| "run_task H J (CloseTask c) s = close_session H c s"

text \<open>The publisher's operations on the shared state.\<close>

definition on_publisher ::
  "('j MqPublisher \<times> ChatMetrics \<Rightarrow> bool \<times> 'j MqPublisher \<times> ChatMetrics) \<Rightarrow> 'j service \<Rightarrow> bool \<times> 'j service"
where
  "on_publisher f s =
     (case f (sv_publisher s, sv_metrics s) of (ok, pub, met) \<Rightarrow>
        (ok, s\<lparr>sv_publisher := pub, sv_metrics := met\<rparr>))"

definition service_start :: "heap \<Rightarrow> 'j service" where
  "service_start h =
     \<lparr>sv_heap = h, sv_next = 0, sv_registry = empty_registry, sv_pending = [],
      sv_publisher = new_MqPublisher, sv_metrics = new_ChatMetrics, sv_device_seq = 0,
      sv_tasks = [], sv_effects = []\<rparr>"

section \<open>Frame rules\<close>

text \<open>Which part of the state each helper touches.\<close>

lemma perform_simps [state_simps]:
  "sv_heap (perform es s) = sv_heap s" "sv_next (perform es s) = sv_next s"
  "sv_registry (perform es s) = sv_registry s" "sv_pending (perform es s) = sv_pending s"
  "sv_publisher (perform es s) = sv_publisher s" "sv_metrics (perform es s) = sv_metrics s"
  "sv_device_seq (perform es s) = sv_device_seq s" "sv_tasks (perform es s) = sv_tasks s"
  "sv_effects (perform es s) = sv_effects s @ es"
  by (simp_all add: perform_def)

lemma schedule_simps [state_simps]:
  "sv_heap (schedule i t s) = sv_heap s" "sv_next (schedule i t s) = sv_next s"
  "sv_registry (schedule i t s) = sv_registry s" "sv_pending (schedule i t s) = sv_pending s"
  "sv_publisher (schedule i t s) = sv_publisher s" "sv_metrics (schedule i t s) = sv_metrics s"
  "sv_device_seq (schedule i t s) = sv_device_seq s" "sv_tasks (schedule i t s) = sv_tasks s @ [(i, t)]"
  "sv_effects (schedule i t s) = sv_effects s"
  by (simp_all add: schedule_def)

lemma count_metric_simps [state_simps]:
  "sv_heap (count_metric f s) = sv_heap s" "sv_next (count_metric f s) = sv_next s"
  "sv_registry (count_metric f s) = sv_registry s" "sv_pending (count_metric f s) = sv_pending s"
  "sv_publisher (count_metric f s) = sv_publisher s" "sv_metrics (count_metric f s) = f (sv_metrics s)"
  "sv_device_seq (count_metric f s) = sv_device_seq s" "sv_tasks (count_metric f s) = sv_tasks s"
  "sv_effects (count_metric f s) = sv_effects s"
  by (simp_all add: count_metric_def)

lemma on_publisher_simps [state_simps]:
  "sv_heap (snd (on_publisher f s)) = sv_heap s" "sv_next (snd (on_publisher f s)) = sv_next s"
  "sv_registry (snd (on_publisher f s)) = sv_registry s" "sv_pending (snd (on_publisher f s)) = sv_pending s"
  "sv_device_seq (snd (on_publisher f s)) = sv_device_seq s" "sv_tasks (snd (on_publisher f s)) = sv_tasks s"
  "sv_effects (snd (on_publisher f s)) = sv_effects s"
  by (simp_all add: on_publisher_def split: prod.split)

lemma on_publisher_frame:
  assumes "on_publisher f s = (ok, s')"
  shows "sv_heap s' = sv_heap s" "sv_next s' = sv_next s" "sv_registry s' = sv_registry s"
    "sv_pending s' = sv_pending s" "sv_device_seq s' = sv_device_seq s" "sv_tasks s' = sv_tasks s"
    "sv_effects s' = sv_effects s"
  using on_publisher_simps [of f s] by (simp_all add: assms)

text \<open>The frame that \<open>SendFrame\<close> puts on a session, as text.\<close>

definition frame_text :: "'j json_lib \<Rightarrow> string \<Rightarrow> 'j \<Rightarrow> bool \<Rightarrow> int \<Rightarrow> string" where
  "frame_text J type data has_seq seq = j_print J (BuildFrame J type data has_seq seq)"

lemma send_frame_perform:
  "send_frame J session type data has_seq seq =
     perform (case session of None \<Rightarrow> [] | Some w \<Rightarrow> [SendMessage w (frame_text J type data has_seq seq)])"
  by (simp add: send_frame_def SendFrame_def frame_text_def split: option.split)

lemma send_error_frame:
  "send_error J session code msg has_seq seq = send_frame J session ''error'' (error_data J code msg) has_seq seq"
  by (simp add: send_error_def send_frame_def SendError_def)

end
