(* ===== verification/Ws_To_Mq.thy ===== *)
theory Ws_To_Mq
  imports Service
begin

text \<open>
  \<open>chat/dispatch/ws_to_mq.{h,cc}\<close>: what the service does with a client's message, acknowledgement and read
  mark, and the map of sends that wait for the broker's answer. The clock readings \<open>Iso8601Now()\<close> and
  \<open>NowMs()\<close> are arguments; \<open>log_info\<close> says whether the logger evaluates the arguments of an info
  message (the only place where \<open>HandleMsgRead\<close> reads its data).
\<close>

definition message_payload ::
  "'j json_lib \<Rightarrow> string \<Rightarrow> int \<Rightarrow> u64 \<Rightarrow> string \<Rightarrow> string \<Rightarrow> 'j" where
  "message_payload J client_msg_id conversation_id uid content sent_at =
     (let p = j_null J;
          p = j_set J p ''clientMsgId'' (j_string J client_msg_id);
          p = j_set J p ''conversationId'' (j_int J conversation_id);
          p = j_set J p ''senderId'' (j_uint J uid);
          p = j_set J p ''type'' (j_int J 1);
          p = j_set J p ''content'' (j_string J content)
      in j_set J p ''sentAt'' (j_string J sent_at))"

definition add_media :: "'j json_lib \<Rightarrow> 'j \<Rightarrow> 'j \<Rightarrow> 'j option" where
  "add_media J media_meta p =
     (if j_is_null J media_meta then Some p
      else if j_is_string J media_meta
      then do { t \<leftarrow> j_as_string J media_meta; Some (j_set J p ''mediaMeta'' (j_string J t)) }
      else Some (j_set J p ''mediaMeta'' (j_string J (j_print J media_meta))))"

definition read_send :: "'j json_lib \<Rightarrow> 'j \<Rightarrow> (string \<times> int \<times> string \<times> string \<times> 'j) option" where
  "read_send J data =
     do {
       client_msg_id \<leftarrow> get_string J data ''clientMsgId'';
       conversation_id \<leftarrow> get_int64 J data ''conversationId'';
       content \<leftarrow> get_string J data ''content'';
       sent_at \<leftarrow> get_string J data ''sentAt'';
       media_meta \<leftarrow> j_member J data ''mediaMeta'';
       Some (client_msg_id, conversation_id, content, sent_at, media_meta)
     }"

definition HandleMsgSend ::
  "'j json_lib \<Rightarrow> ChatConfig \<Rightarrow> int \<Rightarrow> int \<Rightarrow> u64 \<Rightarrow> string \<Rightarrow> sid option \<Rightarrow> bool \<Rightarrow> int \<Rightarrow> 'j \<Rightarrow> 'j service
     \<Rightarrow> int option \<times> 'j service" where
  "HandleMsgSend J cfg iso_ms now_ms uid did session has_seq seq data s =
     (case read_send J data of
        None \<Rightarrow> (None, s)
      | Some (client_msg_id, conversation_id, content, sent_at, media_meta) \<Rightarrow>
          let sent_at = (if sent_at = [] then Iso8601Now iso_ms else sent_at);
              max_bytes = chat_max_text_content_bytes (m_chat cfg)
          in if client_msg_id = [] \<or> conversation_id \<le> 0 \<or> content = []
             then (Some 0, send_error J session 400 ''bad msg.send'' has_seq seq s)
             else if i32 (int (length content)) > max_bytes
             then (Some 0, send_error J session 413 ''content too long'' has_seq seq s)
             else
               let pending = \<lparr>ps_sender_user_id = uid, ps_sender_device_id = did, ps_created_ms = now_ms,
                              ps_has_seq = has_seq, ps_seq = seq\<rparr>;
                   s = s\<lparr>sv_pending := AList.update client_msg_id pending (sv_pending s)\<rparr>
               in case add_media J media_meta
                         (message_payload J client_msg_id conversation_id uid content sent_at) of
                    None \<Rightarrow> (None, s)
                  | Some pl \<Rightarrow>
                      (case on_publisher (Publisher.Publish (m_rabbitmq cfg) ''business.msg.persist'' pl 0) s of
                         (ok, s) \<Rightarrow>
                           if \<not> ok
                           then (Some 0, send_error J session 503 ''mq unavailable'' has_seq seq
                                   (s\<lparr>sv_pending := AList.delete client_msg_id (sv_pending s)\<rparr>))
                           else (Some 0, s)))"

definition HandleMsgAck ::
  "'j json_lib \<Rightarrow> ChatConfig \<Rightarrow> int \<Rightarrow> u64 \<Rightarrow> sid option \<Rightarrow> bool \<Rightarrow> int \<Rightarrow> 'j \<Rightarrow> 'j service
     \<Rightarrow> int option \<times> 'j service" where
  "HandleMsgAck J cfg iso_ms uid session has_seq seq data s =
     (case get_int64 J data ''messageId'' of
        None \<Rightarrow> (None, s)
      | Some mid \<Rightarrow>
          if mid \<le> 0 then (Some 0, send_error J session 400 ''bad msg.ack'' has_seq seq s)
          else (case on_publisher (PublishMsgAck J (m_rabbitmq cfg) iso_ms mid uid) s of
                  (ok, s) \<Rightarrow>
                    if \<not> ok then (Some 0, send_error J session 503 ''mq unavailable'' has_seq seq s)
                    else (Some 0, s)))"

definition HandleMsgRead ::
  "'j json_lib \<Rightarrow> bool \<Rightarrow> 'j \<Rightarrow> 'j service \<Rightarrow> int option \<times> 'j service" where
  "HandleMsgRead J log_info data s =
     (if log_info \<and> (get_int64 J data ''conversationId'' = None \<or>
                     get_int64 J data ''lastReadMessageId'' = None)
      then (None, s) else (Some 0, s))"

definition TakePending :: "string \<Rightarrow> 'j service \<Rightarrow> PendingSend option \<times> 'j service" where
  "TakePending client_msg_id s =
     (case map_of (sv_pending s) client_msg_id of
        None \<Rightarrow> (None, s)
      | Some p \<Rightarrow> (Some p, s\<lparr>sv_pending := AList.delete client_msg_id (sv_pending s)\<rparr>))"

definition SweepPending :: "ChatConfig \<Rightarrow> int \<Rightarrow> 'j service \<Rightarrow> 'j service" where
  "SweepPending cfg now_ms s =
     (let deadline = i64 (now_ms - i64 (chat_pending_send_ttl_seconds (m_chat cfg) * 1000))
      in s\<lparr>sv_pending := filter (\<lambda>(k, p). \<not> ps_created_ms p \<le> deadline) (sv_pending s)\<rparr>)"

section \<open>Sending\<close>

text \<open>The message that a task carries, as a receiver of the payload reads it.\<close>

lemma message_payload_reads:
  assumes "json_laws J" "- (2 ^ 63) \<le> conv" "conv < 2 ^ 63"
    and "p = message_payload J cmid conv uid content sent_at"
  shows "j_is_object J p" "get_string J p ''clientMsgId'' = Some cmid"
    "get_int64 J p ''conversationId'' = Some conv" "get_uint64 J p ''senderId'' = Some uid"
    "get_string J p ''content'' = Some content" "get_string J p ''sentAt'' = Some sent_at"
  using assms(2,3)
  by (simp_all add: assms(4) message_payload_def Let_def get_string_def get_int64_def get_uint64_def
      json_set [OF assms(1)] json_null [OF assms(1)] json_conv [OF assms(1)])

lemma add_media_reads:
  assumes "json_laws J" "j_is_object J p" "add_media J media p = Some q"
  shows "j_is_object J q" "k \<noteq> ''mediaMeta'' \<Longrightarrow> j_get J q k d = j_get J p k d"
proof -
  have c: "j_container J p" using assms(2) by (simp add: j_container_def)
  show "j_is_object J q" "k \<noteq> ''mediaMeta'' \<Longrightarrow> j_get J q k d = j_get J p k d"
    using assms(2,3) json_set [OF assms(1) c]
    by (auto simp: add_media_def split: if_splits bind_splits)
qed

lemma Publish_on_service:
  assumes "on_publisher (Publisher.Publish cfg rk pl pr) s = (ok, s')"
  shows "ok \<longleftrightarrow> length (Publisher.m_queue (sv_publisher s)) < queue_capacity cfg"
    "Publisher.m_queue (sv_publisher s') = Publisher.m_queue (sv_publisher s) @
       (if ok then [\<lparr>t_routing_key = rk, t_payload = pl, t_priority = pr\<rparr>] else [])"
    "sv_metrics s' = (if ok then sv_metrics s else IncMqPublish rk ''fail'' (sv_metrics s))"
    "sv_pending s' = sv_pending s" "sv_effects s' = sv_effects s" "sv_tasks s' = sv_tasks s"
    "sv_registry s' = sv_registry s" "sv_heap s' = sv_heap s"
  using assms by (auto simp: on_publisher_def Publisher.Publish_def split: if_splits)

text \<open>
  C18. A message that a client sends is accepted just when it has an id, a positive conversation and a
  content within the limit, and the publisher's queue has room; then exactly one task is queued for
  \<open>business.msg.persist\<close>, which names the authenticated user as the sender whatever the client's data
  says, and the send is remembered with the client's device and sequence number. In every other case
  nothing is queued and nothing is left pending under that id by this call, and the client gets the error.
\<close>

theorem HandleMsgSend_spec:
  assumes "json_laws J" "read_send J data = Some (cmid, conv, content, sent_at, media)"
    and "- (2 ^ 63) \<le> conv" "conv < 2 ^ 63" "length content < 2 ^ 31"
    and "j_is_null J media \<or> \<not> j_is_string J media \<or> j_as_string J media \<noteq> None"
    and "HandleMsgSend J cfg iso_ms now uid did session has_seq seq data s = (rc, s')"
  shows "rc = Some 0 \<and>
    (if cmid = [] \<or> conv \<le> 0 \<or> content = []
     then s' = send_error J session 400 ''bad msg.send'' has_seq seq s
     else if int (length content) > chat_max_text_content_bytes (m_chat cfg)
     then s' = send_error J session 413 ''content too long'' has_seq seq s
     else if length (Publisher.m_queue (sv_publisher s)) < queue_capacity (m_rabbitmq cfg)
     then (\<exists>pl. Publisher.m_queue (sv_publisher s') = Publisher.m_queue (sv_publisher s) @
              [\<lparr>t_routing_key = ''business.msg.persist'', t_payload = pl, t_priority = 0\<rparr>] \<and>
            get_uint64 J pl ''senderId'' = Some uid \<and> get_string J pl ''clientMsgId'' = Some cmid \<and>
            get_int64 J pl ''conversationId'' = Some conv \<and> get_string J pl ''content'' = Some content) \<and>
          sv_pending s' = AList.update cmid \<lparr>ps_sender_user_id = uid, ps_sender_device_id = did,
            ps_created_ms = now, ps_has_seq = has_seq, ps_seq = seq\<rparr> (sv_pending s) \<and>
          sv_effects s' = sv_effects s \<and> sv_tasks s' = sv_tasks s
     else Publisher.m_queue (sv_publisher s') = Publisher.m_queue (sv_publisher s) \<and>
          map_of (sv_pending s') cmid = None \<and>
          (\<forall>k. k \<noteq> cmid \<longrightarrow> map_of (sv_pending s') k = map_of (sv_pending s) k) \<and>
          sv_effects s' = sv_effects (send_error J session 503 ''mq unavailable'' has_seq seq s))"
proof -
  let ?sent = "if sent_at = [] then Iso8601Now iso_ms else sent_at"
  let ?p = "message_payload J cmid conv uid content ?sent"
  let ?pend = "\<lparr>ps_sender_user_id = uid, ps_sender_device_id = did, ps_created_ms = now,
    ps_has_seq = has_seq, ps_seq = seq\<rparr>"
  let ?s1 = "s\<lparr>sv_pending := AList.update cmid ?pend (sv_pending s)\<rparr>"
  have len: "i32 (int (length content)) = int (length content)" using assms(5) by simp
  note reads = message_payload_reads [OF assms(1,3,4) refl, of cmid uid content ?sent]
  obtain pl where pl: "add_media J media ?p = Some pl"
    using assms(6) unfolding add_media_def
    by (cases "j_is_null J media"; cases "j_is_string J media"; cases "j_as_string J media") simp_all
  note m = add_media_reads [OF assms(1) reads(1) pl]
  have get: "get_uint64 J pl ''senderId'' = Some uid" "get_string J pl ''clientMsgId'' = Some cmid"
    "get_int64 J pl ''conversationId'' = Some conv" "get_string J pl ''content'' = Some content"
    using reads(2-5) m(2) by (simp_all add: get_uint64_def get_string_def get_int64_def)
  obtain ok s2 where P: "on_publisher (Publisher.Publish (m_rabbitmq cfg) ''business.msg.persist'' pl 0) ?s1 = (ok, s2)"
    by (rule prod.exhaust)
  note pub = Publish_on_service [OF P]
  have H: "HandleMsgSend J cfg iso_ms now uid did session has_seq seq data s =
    (if cmid = [] \<or> conv \<le> 0 \<or> content = []
     then (Some 0, send_error J session 400 ''bad msg.send'' has_seq seq s)
     else if int (length content) > chat_max_text_content_bytes (m_chat cfg)
     then (Some 0, send_error J session 413 ''content too long'' has_seq seq s)
     else if ok then (Some 0, s2)
     else (Some 0, send_error J session 503 ''mq unavailable'' has_seq seq
             (s2\<lparr>sv_pending := AList.delete cmid (sv_pending s2)\<rparr>)))"
    by (simp add: HandleMsgSend_def assms(2) Let_def pl P len)
  show ?thesis
    using assms(7) pub get unfolding H
    by (auto simp: send_error_frame send_frame_perform state_simps split: if_splits)
qed

section \<open>Pending sends\<close>

lemma delete_absent: "map_of m k = None \<Longrightarrow> AList.delete k m = m"
  by (induction m) (auto split: if_splits)

definition pending_wf :: "'j service \<Rightarrow> bool" where
  "pending_wf s \<longleftrightarrow> distinct (keys (sv_pending s))"

text \<open>
  A pending send is taken at most once: taking it removes exactly that entry, so that taking it again
  finds nothing; and a sweep forgets exactly the entries that are as old as the time to live.
\<close>

theorem pending_taken_once:
  assumes "pending_wf s" "TakePending k s = (p, s')"
  shows "p = map_of (sv_pending s) k \<and> fst (TakePending k s') = None \<and> pending_wf s' \<and>
    (\<forall>k'. k' \<noteq> k \<longrightarrow> map_of (sv_pending s') k' = map_of (sv_pending s) k') \<and>
    pending_wf (SweepPending cfg now s) \<and>
    (- (2 ^ 31) \<le> chat_pending_send_ttl_seconds (m_chat cfg) \<longrightarrow>
     chat_pending_send_ttl_seconds (m_chat cfg) < 2 ^ 31 \<longrightarrow> - (2 ^ 62) \<le> now \<longrightarrow> now < 2 ^ 62 \<longrightarrow>
     map_of (sv_pending (SweepPending cfg now s)) k =
       (case map_of (sv_pending s) k of
          None \<Rightarrow> None
        | Some q \<Rightarrow> if ps_created_ms q + 1000 * chat_pending_send_ttl_seconds (m_chat cfg) \<le> now
                    then None else Some q))"
proof -
  have dist: "distinct (keys (sv_pending s))" using assms(1) by (simp add: pending_wf_def)
  have take: "p = map_of (sv_pending s) k" "sv_pending s' = AList.delete k (sv_pending s)"
    using assms(2) delete_absent [of "sv_pending s" k] by (auto simp: TakePending_def split: option.splits)
  have lookup: "map_of (filter (\<lambda>(k, p). P p) m) k = (case map_of m k of None \<Rightarrow> None
      | Some q \<Rightarrow> if P q then Some q else None)" if "distinct (keys m)" for P and m :: "(string \<times> PendingSend) list"
    using that by (induction m) (auto split: option.splits simp: map_of_None_keys [symmetric] image_iff dest: map_of_SomeD)
  have fdist: "distinct (keys (filter Q m))" if "distinct (keys m)" for Q and m :: "(string \<times> PendingSend) list"
    using that by (rule distinct_map_filter)
  have sweep: "map_of (sv_pending (SweepPending cfg now s)) k =
       (case map_of (sv_pending s) k of
          None \<Rightarrow> None
        | Some q \<Rightarrow> if ps_created_ms q + 1000 * chat_pending_send_ttl_seconds (m_chat cfg) \<le> now
                    then None else Some q)"
    if "- (2 ^ 31) \<le> chat_pending_send_ttl_seconds (m_chat cfg)"
      "chat_pending_send_ttl_seconds (m_chat cfg) < 2 ^ 31" "- (2 ^ 62) \<le> now" "now < 2 ^ 62"
  proof -
    let ?ttl = "chat_pending_send_ttl_seconds (m_chat cfg)"
    have "i64 (now - i64 (?ttl * 1000)) = now - ?ttl * 1000" using that by simp
    then show ?thesis
      by (simp add: SweepPending_def Let_def lookup [OF dist] split: option.split)
  qed
  have "pending_wf (SweepPending cfg now s)"
    using fdist [OF dist] by (simp add: pending_wf_def SweepPending_def Let_def)
  moreover have "pending_wf s'" using dist by (simp add: pending_wf_def take(2) keys_delete)
  moreover have "fst (TakePending k s') = None" by (simp add: TakePending_def take(2))
  ultimately show ?thesis using take sweep by simp
qed

text \<open>
  The pending map is keyed by the client's message id alone: a second user who sends with the same id
  replaces the first user's entry, whose sequence number and device are then forgotten.
\<close>

theorem pending_overwritten:
  assumes "json_laws J" "read_send J data = Some (cmid, conv, content, sent_at, media)"
    and "cmid \<noteq> []" "0 < conv" "content \<noteq> []" "length content < 2 ^ 31"
      "int (length content) \<le> chat_max_text_content_bytes (m_chat cfg)" "j_is_null J media"
      "length (Publisher.m_queue (sv_publisher s)) < queue_capacity (m_rabbitmq cfg)"
    and "map_of (sv_pending s) cmid = Some p" "ps_sender_user_id p \<noteq> uid"
  shows "\<exists>q. map_of (sv_pending (snd (HandleMsgSend J cfg iso_ms now uid did session has_seq seq data s))) cmid
      = Some q \<and> ps_sender_user_id q = uid"
proof -
  let ?pend = "\<lparr>ps_sender_user_id = uid, ps_sender_device_id = did, ps_created_ms = now,
    ps_has_seq = has_seq, ps_seq = seq\<rparr>"
  let ?s1 = "s\<lparr>sv_pending := AList.update cmid ?pend (sv_pending s)\<rparr>"
  let ?pl = "message_payload J cmid conv uid content (if sent_at = [] then Iso8601Now iso_ms else sent_at)"
  have len: "i32 (int (length content)) = int (length content)" using assms(6) by simp
  obtain ok s2 where P: "on_publisher (Publisher.Publish (m_rabbitmq cfg) ''business.msg.persist'' ?pl 0) ?s1 = (ok, s2)"
    by (rule prod.exhaust)
  from Publish_on_service [OF P] assms(9) have "ok" "sv_pending s2 = sv_pending ?s1" by simp_all
  then have "sv_pending (snd (HandleMsgSend J cfg iso_ms now uid did session has_seq seq data s)) =
      AList.update cmid ?pend (sv_pending s)"
    using assms(3-8) P len by (simp add: HandleMsgSend_def assms(2) Let_def add_media_def)
  then show ?thesis by simp
qed

lemma HandleMsgSend_keeps_pending [state_simps]:
  "pending_wf s \<Longrightarrow> pending_wf (snd (HandleMsgSend J cfg iso_ms now uid did session has_seq seq data s))"
  by (auto simp: HandleMsgSend_def pending_wf_def Let_def send_error_frame send_frame_perform perform_simps
      keys_delete distinct_update on_publisher_frame split: option.split prod.split)

section \<open>Examples\<close>

abbreviation demo_cfg :: ChatConfig where
  "demo_cfg \<equiv> read_config (\<lambda>_. None) default_vars"

definition demo_send :: json where
  "demo_send = JObj [(''clientMsgId'', JStr ''c''), (''conversationId'', JInt 5), (''content'', JStr ''hi''),
     (''sentAt'', JStr ''t'')]"

definition demo_service :: "json service" where
  "demo_service = service_start (\<lambda>_. new_OnlineConn 0 '''' None None 0 0)"

lemma demo_read_send: "read_send (ref_json []) demo_send = Some (''c'', 5, ''hi'', ''t'', JNull)"
  by (simp add: read_send_def demo_send_def ref_json_defs)

lemmas demo_service_simps = demo_service_def service_start_def new_MqPublisher_def

theorem HandleMsgSend_spec_witness:
  "\<exists>pl. Publisher.m_queue (sv_publisher (snd (HandleMsgSend (ref_json []) demo_cfg 0 9 7 ''d'' (Some 1) True 3
       demo_send demo_service))) = [\<lparr>t_routing_key = ''business.msg.persist'', t_payload = pl, t_priority = 0\<rparr>] \<and>
     get_uint64 (ref_json []) pl ''senderId'' = Some 7"
proof -
  obtain rc s' where H: "HandleMsgSend (ref_json []) demo_cfg 0 9 7 ''d'' (Some 1) True 3 demo_send
      demo_service = (rc, s')" by (rule prod.exhaust)
  have "\<not> (int (length ''hi'') > chat_max_text_content_bytes (m_chat demo_cfg))"
    "0 < queue_capacity (m_rabbitmq demo_cfg)"
    by (simp_all add: read_config_def default_vars_def queue_capacity_def)
  with HandleMsgSend_spec [OF ref_json_laws demo_read_send _ _ _ _ H] H show ?thesis
    by (auto simp: ref_json_def demo_service_simps)
qed

theorem pending_taken_once_witness:
  "fst (TakePending ''c'' (snd (TakePending ''c''
      (demo_service\<lparr>sv_pending := [(''c'', PendingSend.make 7 ''d'' 0 True 3)]\<rparr>)))) = None"
proof -
  let ?s = "demo_service\<lparr>sv_pending := [(''c'', PendingSend.make 7 ''d'' 0 True 3)]\<rparr>"
  obtain p s' where T: "TakePending ''c'' ?s = (p, s')" by (rule prod.exhaust)
  have "pending_wf ?s" by (simp add: pending_wf_def)
  from pending_taken_once [OF this T] T show ?thesis by simp
qed

theorem pending_overwritten_witness:
  "\<exists>q. map_of (sv_pending (snd (HandleMsgSend (ref_json []) demo_cfg 0 9 8 ''e'' (Some 2) True 3 demo_send
      (demo_service\<lparr>sv_pending := [(''c'', PendingSend.make 7 ''d'' 0 True 3)]\<rparr>)))) ''c''
    = Some q \<and> ps_sender_user_id q = 8"
  by (rule pending_overwritten [OF ref_json_laws demo_read_send, where p = "PendingSend.make 7 ''d'' 0 True 3"])
    (simp_all add: ref_json_def demo_service_simps PendingSend.make_def read_config_def default_vars_def
      queue_capacity_def)

end
