(* ===== verification/Lru_Idempotency.thy ===== *)
theory Lru_Idempotency
  imports Prelude
begin

text \<open>
  The idempotency cache, \<open>chat/util/lru_idempotency.{h,cc}\<close>. The \<open>std::list\<close> \<open>m_lru\<close> is a list
  of nodes with their addresses, front first; the iterators kept in \<open>m_index\<close> are such
  addresses, and reading through an iterator whose node is gone is undefined behaviour (\<open>None\<close>).
  The invariant \<open>lru_wf\<close> says that index and list describe the same entries; under it the code
  refines \<open>mark_spec\<close>, which works on the plain list of nodes. The contract that the MQ consumer
  relies on is the locale \<open>dedup\<close> of the prelude, interpreted here as \<open>lru\<close>.
\<close>

record node =
  n_key :: string
  n_expire_at_ms :: int

record lru_cache =
  m_capacity :: nat
  m_ttl_ms :: int
  m_lru :: "(nat \<times> node) list"
  m_index :: "(string \<times> nat) list"

definition LruIdempotencyCache :: "nat \<Rightarrow> int \<Rightarrow> lru_cache" where
  "LruIdempotencyCache capacity ttl_ms =
     \<lparr>m_capacity = capacity, m_ttl_ms = ttl_ms, m_lru = [], m_index = []\<rparr>"

text \<open>The address of a new list node: any address that no node of the list has.\<close>

definition fresh_addr :: "(nat \<times> node) list \<Rightarrow> nat" where
  "fresh_addr l = Suc (foldr max (keys l) 0)"

definition erase_back :: "lru_cache \<Rightarrow> lru_cache" where
  "erase_back c =
     c\<lparr>m_index := AList.delete (n_key (snd (last (m_lru c)))) (m_index c),
       m_lru := butlast (m_lru c)\<rparr>"

function Sweep :: "int \<Rightarrow> lru_cache \<Rightarrow> lru_cache" where
  "Sweep now_ms c =
     (if m_lru c = [] then c
      else if n_expire_at_ms (snd (last (m_lru c))) > now_ms \<and> length (m_lru c) \<le> m_capacity c
      then c
      else Sweep now_ms (erase_back c))"
  by pat_completeness auto
termination
  by (relation "measure (\<lambda>(now, c). length (m_lru c))") (auto simp: erase_back_def)

function Trim :: "lru_cache \<Rightarrow> lru_cache" where
  "Trim c = (if length (m_lru c) > m_capacity c then Trim (erase_back c) else c)"
  by pat_completeness auto
termination
  by (relation "measure (\<lambda>c. length (m_lru c))") (auto simp: erase_back_def)

declare Sweep.simps [simp del] Trim.simps [simp del]

definition push_new :: "string \<Rightarrow> int \<Rightarrow> lru_cache \<Rightarrow> lru_cache" where
  "push_new key now_ms c =
     (let a = fresh_addr (m_lru c);
          n = \<lparr>n_key = key, n_expire_at_ms = i64 (now_ms + m_ttl_ms c)\<rparr>
      in Trim (c\<lparr>m_lru := (a, n) # m_lru c, m_index := AList.update key a (m_index c)\<rparr>))"

definition TryMark :: "string \<Rightarrow> int \<Rightarrow> lru_cache \<Rightarrow> (bool \<times> lru_cache) option" where
  "TryMark key now_ms c =
     (if key = [] then Some (False, c)
      else
        let c = Sweep now_ms c
        in case map_of (m_index c) key of
             None \<Rightarrow> Some (True, push_new key now_ms c)
           | Some it \<Rightarrow>
               (case map_of (m_lru c) it of
                  None \<Rightarrow> None
                | Some n \<Rightarrow>
                    if n_expire_at_ms n > now_ms then Some (False, c)
                    else Some (True, push_new key now_ms
                           (c\<lparr>m_lru := AList.delete it (m_lru c),
                              m_index := AList.delete key (m_index c)\<rparr>))))"

section \<open>Representation invariant and abstract specification\<close>

definition nodes :: "lru_cache \<Rightarrow> node list" where
  "nodes c = map snd (m_lru c)"

definition lru_wf :: "lru_cache \<Rightarrow> bool" where
  "lru_wf c \<longleftrightarrow> distinct (keys (m_lru c)) \<and> distinct (map n_key (nodes c)) \<and>
     distinct (keys (m_index c)) \<and>
     (\<forall>k a. (k, a) \<in> set (m_index c) \<longleftrightarrow> (\<exists>n. (a, n) \<in> set (m_lru c) \<and> n_key n = k))"

definition sweep_spec :: "nat \<Rightarrow> int \<Rightarrow> node list \<Rightarrow> node list" where
  "sweep_spec cap now ns = rev (dropWhile (\<lambda>n. n_expire_at_ms n \<le> now) (rev (take cap ns)))"

definition is_live :: "string \<Rightarrow> int \<Rightarrow> node list \<Rightarrow> bool" where
  "is_live k now ns \<longleftrightarrow> (\<exists>n \<in> set ns. n_key n = k \<and> n_expire_at_ms n > now)"

definition mark_spec :: "nat \<Rightarrow> int \<Rightarrow> string \<Rightarrow> int \<Rightarrow> node list \<Rightarrow> bool \<times> node list" where
  "mark_spec cap ttl k now ns =
     (if k = [] then (False, ns)
      else
        let ns = sweep_spec cap now ns
        in if is_live k now ns then (False, ns)
           else (True, take cap (\<lparr>n_key = k, n_expire_at_ms = i64 (now + ttl)\<rparr>
                                 # filter (\<lambda>n. n_key n \<noteq> k) ns)))"

text \<open>\<open>held c k e n\<close>: the entry of \<open>k\<close> expires at \<open>e\<close> and \<open>n\<close> more keys fit before it is evicted.\<close>

definition held :: "lru_cache \<Rightarrow> string \<Rightarrow> int \<Rightarrow> nat \<Rightarrow> bool" where
  "held c k e n \<longleftrightarrow> k \<noteq> [] \<and> (\<exists>xs nd ys. nodes c = xs @ nd # ys \<and> n_key nd = k \<and>
     n_expire_at_ms nd = e \<and> length xs + n < m_capacity c)"

lemma lru_wf_new [lru_rules]: "lru_wf (LruIdempotencyCache cap ttl)"
  by (simp add: lru_wf_def LruIdempotencyCache_def nodes_def)

lemma fresh_addr_fresh: "fresh_addr l \<notin> set (keys l)"
proof -
  have "a \<in> set (keys l) \<Longrightarrow> a \<le> foldr max (keys l) 0" for a
    by (induction l) (auto simp: le_max_iff_disj)
  then show ?thesis by (force simp: fresh_addr_def)
qed

lemma lru_wf_snoc:
  assumes "lru_wf c" "m_lru c = l @ [(a, n)]"
  shows "lru_wf (erase_back c)" "nodes (erase_back c) = map snd l"
proof -
  have ne: "n_key m \<noteq> n_key n" if "(b, m) \<in> set l" for b m
  proof -
    have "n_key n \<notin> (\<lambda>p. n_key (snd p)) ` set l"
      using assms by (simp add: lru_wf_def nodes_def image_image o_def)
    moreover have "n_key m \<in> (\<lambda>p. n_key (snd p)) ` set l"
      using that by (auto intro!: image_eqI [where x = "(b, m)"])
    ultimately show ?thesis by metis
  qed
  have 1: "distinct (keys l)" "distinct (map n_key (map snd l))" "distinct (keys (m_index c))"
    using assms by (auto simp: lru_wf_def nodes_def)
  have 2: "(k, b) \<in> set (m_index c) \<longleftrightarrow> (\<exists>m. (b, m) \<in> set (l @ [(a, n)]) \<and> n_key m = k)" for k b
    using assms unfolding lru_wf_def by simp
  show "lru_wf (erase_back c)"
    using 1 2 ne unfolding lru_wf_def nodes_def erase_back_def assms(2)
    by (auto simp: set_delete keys_delete)
  show "nodes (erase_back c) = map snd l"
    using assms(2) by (simp add: nodes_def erase_back_def)
qed

lemma erase_back_wf [lru_rules]:
  assumes "lru_wf c" "m_lru c \<noteq> []"
  shows "lru_wf (erase_back c)" "nodes (erase_back c) = butlast (nodes c)"
    "m_capacity (erase_back c) = m_capacity c" "m_ttl_ms (erase_back c) = m_ttl_ms c"
proof -
  obtain l a n where l: "m_lru c = l @ [(a, n)]"
    using assms(2) by (metis append_butlast_last_id prod.exhaust)
  show "lru_wf (erase_back c)" by (rule lru_wf_snoc(1) [OF assms(1) l])
  show "nodes (erase_back c) = butlast (nodes c)"
    using lru_wf_snoc(2) [OF assms(1) l] l by (simp add: nodes_def)
qed (simp_all add: erase_back_def)

lemma sweep_spec_step:
  assumes "ns \<noteq> []" "\<not> (n_expire_at_ms (last ns) > now \<and> length ns \<le> cap)"
  shows "sweep_spec cap now (butlast ns) = sweep_spec cap now ns"
proof -
  obtain xs x where ns: "ns = xs @ [x]" using assms(1) by (cases ns rule: rev_cases) simp_all
  show ?thesis
    using assms(2) ns by (cases "length xs < cap") (simp_all add: sweep_spec_def)
qed

lemma sweep_spec_stop:
  assumes "ns \<noteq> []" "n_expire_at_ms (last ns) > now" "length ns \<le> cap"
  shows "sweep_spec cap now ns = ns"
proof -
  obtain xs x where "ns = xs @ [x]" using assms(1) by (cases ns rule: rev_cases) simp_all
  with assms show ?thesis by (simp add: sweep_spec_def)
qed

lemma Sweep_refines [lru_rules]:
  assumes "lru_wf c"
  shows "lru_wf (Sweep now c) \<and> nodes (Sweep now c) = sweep_spec (m_capacity c) now (nodes c) \<and>
    m_capacity (Sweep now c) = m_capacity c \<and> m_ttl_ms (Sweep now c) = m_ttl_ms c"
  using assms
proof (induction now c rule: Sweep.induct)
  case (1 now c)
  show ?case
  proof (cases "m_lru c = []")
    case True
    with 1 show ?thesis by (simp add: Sweep.simps [of now c] nodes_def sweep_spec_def)
  next
    case ne: False
    then have last: "last (nodes c) = snd (last (m_lru c))" "nodes c \<noteq> []"
      by (simp_all add: nodes_def last_map)
    show ?thesis
    proof (cases "n_expire_at_ms (snd (last (m_lru c))) > now \<and> length (m_lru c) \<le> m_capacity c")
      case True
      then have "sweep_spec (m_capacity c) now (nodes c) = nodes c"
        using last by (intro sweep_spec_stop) (simp_all add: nodes_def)
      with True ne 1 show ?thesis by (simp add: Sweep.simps [of now c])
    next
      case False
      with last have "sweep_spec (m_capacity c) now (butlast (nodes c))
          = sweep_spec (m_capacity c) now (nodes c)"
        by (intro sweep_spec_step) (auto simp: nodes_def)
      with 1 ne False erase_back_wf [OF "1.prems" ne]
      show ?thesis by (simp only: Sweep.simps [of now c] if_False simp_thms)
    qed
  qed
qed

lemma Trim_refines [lru_rules]:
  assumes "lru_wf c"
  shows "lru_wf (Trim c) \<and> nodes (Trim c) = take (m_capacity c) (nodes c) \<and>
    m_capacity (Trim c) = m_capacity c \<and> m_ttl_ms (Trim c) = m_ttl_ms c"
  using assms
proof (induction c rule: Trim.induct)
  case (1 c)
  show ?case
  proof (cases "length (m_lru c) > m_capacity c")
    case True
    then have ne: "m_lru c \<noteq> []" by auto
    have "take (m_capacity c) (butlast (nodes c)) = take (m_capacity c) (nodes c)"
      using True by (simp add: nodes_def butlast_conv_take)
    with 1 True erase_back_wf [OF "1.prems" ne] show ?thesis
      by (simp add: Trim.simps [of c])
  next
    case False
    with 1 show ?thesis by (simp add: Trim.simps [of c] nodes_def)
  qed
qed

lemma wf_index:
  assumes "lru_wf c"
  shows "map_of (m_index c) k = Some a \<longleftrightarrow> (\<exists>n. (a, n) \<in> set (m_lru c) \<and> n_key n = k)"
  using assms by (simp add: lru_wf_def)

lemma wf_index_None:
  assumes "lru_wf c"
  shows "map_of (m_index c) k = None \<longleftrightarrow> k \<notin> n_key ` set (nodes c)"
proof -
  have "(\<exists>a. map_of (m_index c) k = Some a) \<longleftrightarrow> k \<in> n_key ` set (nodes c)"
    by (force simp: wf_index [OF assms] nodes_def)
  then show ?thesis by (cases "map_of (m_index c) k") simp_all
qed

lemma wf_lookup:
  "lru_wf c \<Longrightarrow> (a, n) \<in> set (m_lru c) \<Longrightarrow> map_of (m_lru c) a = Some n"
  by (simp add: lru_wf_def)

lemma wf_same_node:
  assumes "lru_wf c" "(a, n) \<in> set (m_lru c)" "(b, m) \<in> set (m_lru c)"
  shows "n_key m = n_key n \<longleftrightarrow> b = a"
proof
  assume "n_key m = n_key n"
  with assms have "map_of (m_index c) (n_key n) = Some a" "map_of (m_index c) (n_key n) = Some b"
    by (auto simp: wf_index)
  then show "b = a" by simp
next
  assume "b = a"
  with assms wf_lookup [OF assms(1,2)] wf_lookup [OF assms(1,3)] show "n_key m = n_key n" by simp
qed

lemma wf_erase_nodes:
  assumes "lru_wf c" "(a, n) \<in> set (m_lru c)"
  shows "map snd (AList.delete a (m_lru c)) = filter (\<lambda>m. n_key m \<noteq> n_key n) (nodes c)"
proof -
  have "filter (\<lambda>p. fst p \<noteq> a) (m_lru c) = filter (\<lambda>p. n_key (snd p) \<noteq> n_key n) (m_lru c)"
    using wf_same_node [OF assms] by (intro filter_cong) auto
  then show ?thesis
    by (simp add: nodes_def delete_filter filter_map o_def)
qed

lemma wf_erase:
  assumes "lru_wf c" "(a, n) \<in> set (m_lru c)"
  shows "lru_wf (c\<lparr>m_lru := AList.delete a (m_lru c),
                   m_index := AList.delete (n_key n) (m_index c)\<rparr>)"
proof -
  have 1: "distinct (map n_key (map snd (AList.delete a (m_lru c))))"
    using assms(1) by (simp only: wf_erase_nodes [OF assms]) (simp add: lru_wf_def distinct_map_filter)
  have 2: "(k, b) \<in> set (m_index c) \<longleftrightarrow> (\<exists>m. (b, m) \<in> set (m_lru c) \<and> n_key m = k)" for k b
    using assms unfolding lru_wf_def by simp
  have 3: "distinct (keys (m_lru c))" "distinct (keys (m_index c))"
    using assms(1) by (auto simp: lru_wf_def)
  show ?thesis
    using 1 3 wf_same_node [OF assms] unfolding lru_wf_def nodes_def
    by (auto simp: keys_delete set_delete 2)
qed

lemma push_new_refines:
  assumes "lru_wf c" "k \<notin> n_key ` set (nodes c)"
  shows "lru_wf (push_new k now c) \<and> nodes (push_new k now c) = take (m_capacity c)
      (\<lparr>n_key = k, n_expire_at_ms = i64 (now + m_ttl_ms c)\<rparr> # nodes c) \<and>
    m_capacity (push_new k now c) = m_capacity c \<and> m_ttl_ms (push_new k now c) = m_ttl_ms c"
proof -
  let ?a = "fresh_addr (m_lru c)"
  let ?c = "c\<lparr>m_lru := (?a, \<lparr>n_key = k, n_expire_at_ms = i64 (now + m_ttl_ms c)\<rparr>) # m_lru c,
              m_index := AList.update k ?a (m_index c)\<rparr>"
  have k: "k \<notin> set (keys (m_index c))"
    using assms wf_index_None [OF assms(1)] by (simp add: map_of_eq_None_iff)
  then have "AList.update k ?a (m_index c) = m_index c @ [(k, ?a)]"
    by (rule update_new_key)
  with k have "lru_wf ?c"
    using assms fresh_addr_fresh [of "m_lru c"] by (auto simp: lru_wf_def nodes_def)
  from Trim_refines [OF this] show ?thesis
    by (simp add: push_new_def Let_def nodes_def)
qed

lemma TryMark_refines [lru_rules]:
  assumes "lru_wf c"
  obtains r c' where "TryMark k now c = Some (r, c')" "lru_wf c'"
    "mark_spec (m_capacity c) (m_ttl_ms c) k now (nodes c) = (r, nodes c')"
    "m_capacity c' = m_capacity c" "m_ttl_ms c' = m_ttl_ms c"
proof (cases "k = []")
  case True
  with assms that [of False c] show ?thesis by (simp add: TryMark_def mark_spec_def)
next
  case k: False
  let ?c = "Sweep now c"
  note sw = Sweep_refines [OF assms, of now]
  then have wf: "lru_wf ?c" by simp
  show ?thesis
  proof (cases "map_of (m_index ?c) k")
    case None
    then have new: "k \<notin> n_key ` set (nodes ?c)" by (simp add: wf_index_None [OF wf])
    then have "\<not> is_live k now (nodes ?c)" "filter (\<lambda>n. n_key n \<noteq> k) (nodes ?c) = nodes ?c"
      by (auto simp: is_live_def intro!: filter_True)
    with k None push_new_refines [OF wf new, of now] sw
      that [of True "push_new k now ?c"]
    show ?thesis by (simp add: TryMark_def mark_spec_def)
  next
    case (Some a)
    then obtain n where n: "(a, n) \<in> set (m_lru ?c)" "n_key n = k"
      by (auto simp: wf_index [OF wf])
    note lookup = wf_lookup [OF wf n(1)]
    have only: "m = n" if "m \<in> set (nodes ?c)" "n_key m = k" for m
      using that n wf by (auto simp: lru_wf_def distinct_map nodes_def inj_on_def)
    have in_nodes: "n \<in> set (nodes ?c)" using n(1) by (force simp: nodes_def)
    show ?thesis
    proof (cases "n_expire_at_ms n > now")
      case True
      with in_nodes n have "is_live k now (nodes ?c)" by (auto simp: is_live_def)
      with k Some lookup True sw that [of False ?c] show ?thesis
        by (simp add: TryMark_def mark_spec_def)
    next
      case False
      let ?d = "?c\<lparr>m_lru := AList.delete a (m_lru ?c), m_index := AList.delete k (m_index ?c)\<rparr>"
      have d: "nodes ?d = filter (\<lambda>m. n_key m \<noteq> k) (nodes ?c)"
        using wf_erase_nodes [OF wf n(1)] n(2) by (simp add: nodes_def)
      have "lru_wf ?d" using wf_erase [OF wf n(1)] n(2) by simp
      moreover have "k \<notin> n_key ` set (nodes ?d)" unfolding d by auto
      moreover have "\<not> is_live k now (nodes ?c)" using only False by (auto simp: is_live_def)
      ultimately show ?thesis
        using k Some lookup False sw push_new_refines [of ?d k now]
          that [of True "push_new k now ?d"] d
        by (simp add: TryMark_def mark_spec_def Let_def)
    qed
  qed
qed

section \<open>What the abstract specification gives\<close>

lemma sweep_spec_prefix:
  "\<exists>zs. ns = sweep_spec cap now ns @ zs"
proof -
  have "\<exists>ys. rev (take cap ns) = ys @ dropWhile (\<lambda>n. n_expire_at_ms n \<le> now) (rev (take cap ns))"
    by (metis takeWhile_dropWhile_id)
  then have "\<exists>ys. take cap ns = sweep_spec cap now ns @ ys"
    unfolding sweep_spec_def by (metis rev_append rev_rev_ident)
  then show ?thesis by (metis append.assoc append_take_drop_id)
qed

lemma sweep_spec_keeps:
  assumes "ns = xs @ nd # ys" "n_expire_at_ms nd > now" "length xs < cap"
  shows "\<exists>zs. sweep_spec cap now ns = xs @ nd # zs"
proof -
  obtain n where "cap - length xs = Suc n" using assms(3) by (cases "cap - length xs") auto
  then have "rev (take cap ns) = rev (take n ys) @ nd # rev xs"
    using assms by simp
  moreover have "\<exists>zs. dropWhile (\<lambda>n. n_expire_at_ms n \<le> now) (zs' @ nd # rev xs) = zs @ nd # rev xs"
    for zs'
    using assms(2) by (induction zs') auto
  ultimately obtain zs where
    "dropWhile (\<lambda>n. n_expire_at_ms n \<le> now) (rev (take cap ns)) = zs @ nd # rev xs"
    by metis
  then show ?thesis by (simp add: sweep_spec_def)
qed

lemma is_live_sweep:
  assumes "length ns \<le> cap"
  shows "is_live k now (sweep_spec cap now ns) = is_live k now ns"
proof
  show "is_live k now (sweep_spec cap now ns) \<Longrightarrow> is_live k now ns"
    using sweep_spec_prefix [of ns cap now] by (metis Un_iff is_live_def set_append)
next
  assume "is_live k now ns"
  then obtain xs nd ys where nd: "ns = xs @ nd # ys" "n_key nd = k" "n_expire_at_ms nd > now"
    by (auto simp: is_live_def dest: split_list)
  with assms sweep_spec_keeps [OF nd(1,3), of cap] obtain zs where
    "sweep_spec cap now ns = xs @ nd # zs" by auto
  with nd show "is_live k now (sweep_spec cap now ns)" by (auto simp: is_live_def)
qed

lemma mark_spec_bounded:
  assumes "length ns \<le> cap" "mark_spec cap ttl k now ns = (r, ns')"
  shows "length ns' \<le> cap"
proof -
  have "length (sweep_spec cap now ns) \<le> cap"
    using sweep_spec_prefix [of ns cap now] assms(1) by (metis le_add1 le_trans length_append)
  with assms show ?thesis by (auto simp: mark_spec_def Let_def split: if_splits)
qed

lemma mark_spec_result:
  "length ns \<le> cap \<Longrightarrow> fst (mark_spec cap ttl k now ns) \<longleftrightarrow> k \<noteq> [] \<and> \<not> is_live k now ns"
  by (simp add: mark_spec_def Let_def is_live_sweep)

text \<open>The invariant of the component: the representation is consistent and within capacity.\<close>

definition lru_inv :: "lru_cache \<Rightarrow> bool" where
  "lru_inv c \<longleftrightarrow> lru_wf c \<and> length (m_lru c) \<le> m_capacity c"

lemma lru_inv_new [lru_rules]: "lru_inv (LruIdempotencyCache cap ttl)"
  by (simp add: lru_inv_def lru_wf_new) (simp add: LruIdempotencyCache_def)

lemma TryMark_inv:
  assumes "lru_inv c"
  obtains r c' where "TryMark k now c = Some (r, c')" "lru_inv c'"
    "mark_spec (m_capacity c) (m_ttl_ms c) k now (nodes c) = (r, nodes c')"
    "m_capacity c' = m_capacity c" "m_ttl_ms c' = m_ttl_ms c"
proof -
  from assms have wf: "lru_wf c" and len: "length (nodes c) \<le> m_capacity c"
    by (auto simp: lru_inv_def nodes_def)
  obtain r c' where 1: "TryMark k now c = Some (r, c')" "lru_wf c'"
    "mark_spec (m_capacity c) (m_ttl_ms c) k now (nodes c) = (r, nodes c')"
    "m_capacity c' = m_capacity c" "m_ttl_ms c' = m_ttl_ms c"
    using TryMark_refines [OF wf] by metis
  from mark_spec_bounded [OF len 1(3)] 1 have "lru_inv c'"
    by (simp add: lru_inv_def nodes_def)
  with 1 that show ?thesis by blast
qed

lemma held_weaken: "held c k e n \<Longrightarrow> m \<le> n \<Longrightarrow> held c k e m"
  by (force simp: held_def)

lemma held_live: "held c k e n \<Longrightarrow> now < e \<Longrightarrow> is_live k now (nodes c)"
  by (force simp: held_def is_live_def)

lemma held_sweep:
  assumes "held c k e n" "now < e"
  obtains xs nd zs where "sweep_spec (m_capacity c) now (nodes c) = xs @ nd # zs"
    "n_key nd = k" "n_expire_at_ms nd = e" "length xs + n < m_capacity c" "k \<noteq> []"
proof -
  from assms obtain xs nd ys where 1: "nodes c = xs @ nd # ys" "n_key nd = k"
    "n_expire_at_ms nd = e" "length xs + n < m_capacity c" "k \<noteq> []"
    by (auto simp: held_def)
  with sweep_spec_keeps [OF 1(1), of now "m_capacity c"] assms(2) that show ?thesis by auto
qed

lemma TryMark_held:
  assumes "lru_inv c" "held c k e n" "t < e" "TryMark k t c = Some (r, c')"
  shows "\<not> r \<and> held c' k e n"
proof -
  obtain xs nd zs where sw: "sweep_spec (m_capacity c) t (nodes c) = xs @ nd # zs"
    "n_key nd = k" "n_expire_at_ms nd = e" "length xs + n < m_capacity c" "k \<noteq> []"
    using held_sweep [OF assms(2,3)] by metis
  then have "is_live k t (xs @ nd # zs)" using assms(3) by (auto simp: is_live_def)
  with sw have "mark_spec (m_capacity c) (m_ttl_ms c) k t (nodes c) = (False, xs @ nd # zs)"
    by (simp add: mark_spec_def Let_def)
  moreover from TryMark_inv [OF assms(1), of k t] assms(4)
  have "mark_spec (m_capacity c) (m_ttl_ms c) k t (nodes c) = (r, nodes c')"
    "m_capacity c' = m_capacity c" by auto
  ultimately show ?thesis using sw by (auto simp: held_def)
qed

lemma TryMark_other_held:
  assumes "lru_inv c" "held c k e (Suc n)" "t < e" "k' \<noteq> k" "TryMark k' t c = Some (r, c')"
  shows "held c' k e n"
proof -
  let ?ns = "sweep_spec (m_capacity c) t (nodes c)" and ?cap = "m_capacity c"
  from TryMark_inv [OF assms(1), of k' t] assms(5)
  have c': "mark_spec ?cap (m_ttl_ms c) k' t (nodes c) = (r, nodes c')" "m_capacity c' = ?cap"
    by auto
  obtain xs nd zs where sw: "?ns = xs @ nd # zs" "n_key nd = k" "n_expire_at_ms nd = e"
    "length xs + Suc n < ?cap" "k \<noteq> []"
    using held_sweep [OF assms(2,3)] by metis
  show ?thesis
  proof (cases "k' = [] \<or> is_live k' t ?ns")
    case True
    then have "nodes c' = nodes c \<or> nodes c' = ?ns"
      using c' by (auto simp: mark_spec_def Let_def split: if_splits)
    then show ?thesis
    proof
      assume "nodes c' = nodes c"
      then show ?thesis using assms(2) c'(2) unfolding held_def
        by (metis Suc_leD add_Suc_right less_eq_Suc_le)
    next
      assume "nodes c' = ?ns"
      with sw c'(2) show ?thesis unfolding held_def by (auto intro!: exI [of _ xs])
    qed
  next
    case False
    let ?p = "\<lparr>n_key = k', n_expire_at_ms = i64 (t + m_ttl_ms c)\<rparr> # filter (\<lambda>n. n_key n \<noteq> k') xs"
    have len: "length ?p \<le> Suc (length xs)" by simp
    from False c'(1) sw(1,2) assms(4)
    have "nodes c' = take ?cap (?p @ nd # filter (\<lambda>n. n_key n \<noteq> k') zs)"
      by (auto simp: mark_spec_def Let_def)
    moreover from sw(4) len have "?cap - length ?p \<noteq> 0" by linarith
    then obtain d where "?cap - length ?p = Suc d" using not0_implies_Suc by blast
    ultimately have "nodes c' = ?p @ nd # take d (filter (\<lambda>n. n_key n \<noteq> k') zs)"
      using sw(4) len by (simp only: take_append take_Suc_Cons) simp
    moreover have "length ?p + n < ?cap" using sw(4) len by linarith
    ultimately show ?thesis using sw(2,3,5) unfolding held_def c'(2) by blast
  qed
qed

interpretation lru: dedup TryMark lru_inv held
proof unfold_locales
  fix s k t
  assume "lru_inv s"
  then show "\<exists>r s'. TryMark k t s = Some (r, s') \<and> lru_inv s'"
    by (rule TryMark_inv [of s k t]) blast
qed (blast dest: TryMark_held TryMark_other_held)+

lemma TryMark_new_held:
  assumes "lru_inv c" "TryMark k t c = Some (True, c')" "0 < m_capacity c"
    and "- (2 ^ 63) \<le> t + m_ttl_ms c" "t + m_ttl_ms c < 2 ^ 63"
  shows "held c' k (t + m_ttl_ms c) (m_capacity c - 1)"
proof -
  from TryMark_inv [OF assms(1), of k t] assms(2)
  have c': "mark_spec (m_capacity c) (m_ttl_ms c) k t (nodes c) = (True, nodes c')"
    "m_capacity c' = m_capacity c" by auto
  from assms(3) obtain d where "m_capacity c = Suc d" by (cases "m_capacity c") auto
  with c'(1) [symmetric] assms(4,5) obtain ns where
    "nodes c' = \<lparr>n_key = k, n_expire_at_ms = t + m_ttl_ms c\<rparr> # ns" "k \<noteq> []"
    by (auto simp: mark_spec_def Let_def split: if_splits)
  then have "nodes c' = [] @ \<lparr>n_key = k, n_expire_at_ms = t + m_ttl_ms c\<rparr> # ns" "k \<noteq> []" by simp_all
  with assms(3) c'(2) show ?thesis by (force simp: held_def)
qed

section \<open>Properties\<close>

definition TryMarks :: "(string \<times> int) list \<Rightarrow> lru_cache \<Rightarrow> (bool list \<times> lru_cache) option" where
  "TryMarks = run_marks TryMark"

text \<open>
  Whatever sequence of calls \<open>TryMark\<close> a new cache receives, no call dereferences an
  iterator of a removed node, the index and the list describe the same entries afterwards, and
  the cache holds at most \<open>capacity\<close> entries.
\<close>

theorem lru_runs_safe:
  "\<exists>rs c'. TryMarks xs (LruIdempotencyCache capacity ttl_ms) = Some (rs, c') \<and>
     lru_wf c' \<and> length (m_lru c') \<le> m_capacity c'"
  using lru.marks_defined [OF lru_inv_new, of xs capacity ttl_ms]
  by (auto simp: TryMarks_def lru_inv_def)

text \<open>
  C8. \<open>TryMark\<close> refines the abstract cache: on the list of nodes it drops the expired tail,
  refuses a key that has an unexpired entry, and otherwise puts the key in front, drops the old
  entry of the same key and truncates to the capacity.
\<close>

theorem TryMark_refines_mark_spec:
  assumes "lru_inv c"
  shows "map_option (\<lambda>(r, c'). (r, nodes c')) (TryMark k now c) =
    Some (mark_spec (m_capacity c) (m_ttl_ms c) k now (nodes c))"
  by (rule TryMark_inv [OF assms, of k now]) simp

theorem TryMark_refines_mark_spec_witness:
  "map_option (\<lambda>(r, c'). (r, nodes c')) (TryMark ''a'' 5 (LruIdempotencyCache 2 10)) =
    Some (True, [\<lparr>n_key = ''a'', n_expire_at_ms = 15\<rparr>])"
  using TryMark_refines_mark_spec [OF lru_inv_new, of "''a''" 5 2 10]
  by (simp add: LruIdempotencyCache_def nodes_def mark_spec_def sweep_spec_def is_live_def)

lemma TryMark_accepts_iff:
  assumes "lru_inv c"
  shows "(\<exists>c'. TryMark key now c = Some (True, c')) \<longleftrightarrow> key \<noteq> [] \<and> \<not> is_live key now (nodes c)"
proof -
  have "length (nodes c) \<le> m_capacity c" using assms by (simp add: lru_inv_def nodes_def)
  note result = mark_spec_result [OF this, of "m_ttl_ms c" key now]
  show ?thesis
  proof (rule TryMark_inv [OF assms, of key now])
    fix r c'
    assume "TryMark key now c = Some (r, c')"
      and "mark_spec (m_capacity c) (m_ttl_ms c) key now (nodes c) = (r, nodes c')"
    with result show ?thesis by (cases r) auto
  qed
qed

text \<open>
  A call \<open>TryMark(key, now)\<close> returns true exactly when the key is not empty and no entry of
  this key expires after \<open>now\<close>.
\<close>

theorem TryMark_true_iff:
  assumes "lru_inv c"
  shows "(\<exists>c'. TryMark key now c = Some (True, c')) \<longleftrightarrow> key \<noteq> [] \<and> \<not> is_live key now (nodes c)"
  by (rule TryMark_accepts_iff [OF assms])

theorem TryMark_true_iff_witness:
  "(\<exists>c'. TryMark ''k'' 7 (LruIdempotencyCache 3 10) = Some (True, c')) \<and>
   \<not> (\<exists>c'. TryMark '''' 7 (LruIdempotencyCache 3 10) = Some (True, c'))"
  using TryMark_true_iff [OF lru_inv_new, of "''k''" 7 3 10]
    TryMark_true_iff [OF lru_inv_new, of "''''" 7 3 10]
  by (simp add: is_live_def LruIdempotencyCache_def nodes_def)

text \<open>
  Once \<open>TryMark(key, t0)\<close> has returned true, every later call for the same key before
  \<open>t0 + ttl\<close> returns false, whatever other calls come in between, as long as they are fewer than
  the capacity (no eviction can reach the key).
\<close>

theorem TryMark_once_per_window:
  assumes "lru_inv c" "TryMark key t0 c = Some (True, c0)"
    and "- (2 ^ 63) \<le> t0 + m_ttl_ms c" "t0 + m_ttl_ms c < 2 ^ 63"
    and "length xs < m_capacity c" "\<forall>x \<in> set xs. snd x < t0 + m_ttl_ms c"
    and "TryMarks xs c0 = Some (rs, c1)" "t < t0 + m_ttl_ms c" "TryMark key t c1 = Some (r, c2)"
  shows "r = False"
proof -
  from assms(5) have "0 < m_capacity c" "length xs \<le> m_capacity c - 1" by auto
  moreover from lru.mark_defined [OF assms(1), of key t0] assms(2) have "lru_inv c0" by auto
  ultimately show ?thesis
    using lru.refused_again [OF _ TryMark_new_held [OF assms(1,2) _ assms(3,4)]] assms(6-9)
    unfolding TryMarks_def by blast
qed

definition lru_demo :: lru_cache where
  "lru_demo = snd (the (TryMark ''a'' 5 (LruIdempotencyCache 2 10)))"

theorem TryMark_once_per_window_witness:
  "\<exists>c1 c2. TryMarks [(''b'', 6)] lru_demo = Some ([True], c1) \<and> TryMark ''a'' 7 c1 = Some (False, c2)"
proof -
  note evals = LruIdempotencyCache_def TryMark_def Sweep.simps push_new_def Trim.simps
    fresh_addr_def erase_back_def Let_def
  have 0: "TryMark ''a'' 5 (LruIdempotencyCache 2 10) = Some (True, lru_demo)"
    by (simp add: lru_demo_def evals)
  obtain c1 where 1: "TryMarks [(''b'', 6)] lru_demo = Some ([True], c1)"
    by (simp add: TryMarks_def lru_demo_def evals)
  obtain r c2 where 2: "TryMark ''a'' 7 c1 = Some (r, c2)"
    using 1 lru.marks_defined [of lru_demo "[(''b'', 6)]"] lru.mark_defined [of c1 "''a''" 7]
      lru.mark_defined [OF lru_inv_new, of "''a''" 5 2 10] 0 by (auto simp: TryMarks_def)
  have "r = False"
    by (rule TryMark_once_per_window [OF lru_inv_new 0 _ _ _ _ 1 _ 2])
      (simp_all add: LruIdempotencyCache_def)
  with 1 2 show ?thesis by blast
qed

end
