(* ===== verification/Consumer.thy ===== *)
theory Consumer
  imports Amqp_Client Envelope Metrics Lru_Idempotency
begin

text \<open>
  \<open>chat/mq/consumer.{h,cc}\<close>: the thread that takes deliveries from the broker, filters duplicates and
  hands each message to the handler. A handler is a function on the rest of the service's state that
  returns a result, or \<open>None\<close> when it throws, and the state it leaves. One iteration of \<open>Run\<close> has as
  inputs what it reads from outside: the clock, whether \<open>m_running\<close> still holds after \<open>Consume\<close>
  (\<open>Stop\<close> may run on another thread meanwhile), and whether the scheduled handler finishes within the
  five seconds that \<open>wait_for\<close> allows; if not, its closure stays scheduled and is kept in a list. The
  iteration is \<open>None\<close> when an exception leaves the thread function, which ends the process.
\<close>

datatype ConsumeResult = ACK | NACK_REQUEUE | NACK_DROP

type_synonym ('j, 's) handler = "'j Envelope \<Rightarrow> 's \<Rightarrow> ConsumeResult option \<times> 's"

record ('j, 's) MqConsumer =
  m_running :: bool
  m_scheduler :: "nat option"
  m_handler :: "('j, 's) handler option"
  m_client :: AmqpClient
  m_idempotency :: lru_cache

definition new_MqConsumer :: "('j, 's) MqConsumer" where
  "new_MqConsumer =
     \<lparr>m_running = False, m_scheduler = None, m_handler = None, m_client = new_AmqpClient,
      m_idempotency = LruIdempotencyCache 100000 (24 * 3600 * 1000)\<rparr>"

definition EnsureConnected ::
  "amqp_lib \<Rightarrow> RabbitMqConfig \<Rightarrow> ('j, 's) MqConsumer \<times> ChatMetrics
     \<Rightarrow> bool \<times> ('j, 's) MqConsumer \<times> ChatMetrics"
where
  "EnsureConnected L cfg = (\<lambda>(con, met).
     if m_connected (m_client con) then (True, con, met)
     else case Connect L cfg '''' (m_client con) of (ok, err, cl) \<Rightarrow>
       if \<not> ok then (False, con\<lparr>m_client := cl\<rparr>, IncMqReconnect ''consumer'' met)
       else case OpenChannel L (word_of_int (mq_consumer_prefetch cfg)) err cl of (ok, err, cl) \<Rightarrow>
         if \<not> ok then (False, con\<lparr>m_client := Close L cl\<rparr>, IncMqReconnect ''consumer'' met)
         else case DeclareForConsumer L err cl of (ok, err, cl) \<Rightarrow>
           if \<not> ok then (False, con\<lparr>m_client := Close L cl\<rparr>, IncMqReconnect ''consumer'' met)
           else case StartConsume L (mq_consumer_queue cfg) (mq_consumer_tag cfg)
                       (mq_consumer_auto_ack cfg) err cl of (ok, err, cl) \<Rightarrow>
             if \<not> ok then (False, con\<lparr>m_client := Close L cl\<rparr>, IncMqReconnect ''consumer'' met)
             else (True, con\<lparr>m_client := cl\<rparr>, met))"

text \<open>The body of both \<open>try\<close> blocks: the handler's result, or a requeue when it throws.\<close>

definition run_handler :: "('j, 's) handler \<Rightarrow> 'j Envelope \<Rightarrow> 's \<Rightarrow> ConsumeResult \<times> 's" where
  "run_handler h env s = (case h env s of (Some r, s) \<Rightarrow> (r, s) | (None, s) \<Rightarrow> (NACK_REQUEUE, s))"

definition DispatchToScheduler ::
  "('j, 's) MqConsumer \<Rightarrow> bool \<Rightarrow> 'j Envelope \<Rightarrow> 's \<Rightarrow> ConsumeResult \<times> 's \<times> 'j Envelope list"
where
  "DispatchToScheduler con ready env s =
     (case m_handler con of
        None \<Rightarrow> (ACK, s, [])
      | Some h \<Rightarrow>
          if m_scheduler con = None
          then (case run_handler h env s of (r, s) \<Rightarrow> (r, s, []))
          else if ready
          then (case run_handler h env s of (r, s) \<Rightarrow> (r, s, []))
          else (NACK_REQUEUE, s, [env]))"

text \<open>The answer to the broker after dispatching, with the counter of the outcome.\<close>

definition settle ::
  "amqp_lib \<Rightarrow> ConsumeResult \<Rightarrow> u64 \<Rightarrow> string \<Rightarrow> AmqpClient \<Rightarrow> ChatMetrics \<Rightarrow> AmqpClient \<times> ChatMetrics" where
  "settle L result tag type cl met =
     (case (case result of
              ACK \<Rightarrow> (Ack L tag '''' cl, ''ok'')
            | NACK_REQUEUE \<Rightarrow> (Nack L tag True '''' cl, ''fail'')
            | NACK_DROP \<Rightarrow> (Nack L tag False '''' cl, ''fail'')) of
        ((ok, err, cl), outcome) \<Rightarrow>
          ((if \<not> ok then Close L cl else cl), IncMqConsume type outcome met))"

type_synonym ('j, 'r) consumer_state =
  "int \<times> ('j, ChatMetrics \<times> 'r) MqConsumer \<times> ChatMetrics \<times> 'r \<times> 'j Envelope list"

text \<open>The second half of the loop body: from a delivery that was received to the answer.\<close>

definition process_delivery ::
  "amqp_lib \<Rightarrow> 'j json_lib \<Rightarrow> int \<Rightarrow> bool \<Rightarrow> AmqpDelivery \<Rightarrow> ('j, 'r) consumer_state
     \<Rightarrow> ('j, 'r) consumer_state option" where
  "process_delivery L J now_ms ready d = (\<lambda>(backoff, con, met, r, late).
     case EnvelopeFromString J (body d) of
       None \<Rightarrow> None
     | Some (Inl parse_err) \<Rightarrow>
         let met = IncMqConsume (routing_key d) ''fail'' met
         in (case Ack L (delivery_tag d) '''' (m_client con) of (_, _, cl) \<Rightarrow>
               Some (backoff, con\<lparr>m_client := cl\<rparr>, met, r, late))
     | Some (Inr env) \<Rightarrow>
         (case TryMark (msg_id env) now_ms (m_idempotency con) of
            None \<Rightarrow> None
          | Some (False, idem) \<Rightarrow>
              let met = IncMqConsume (env_type env) ''dup'' met
              in (case Ack L (delivery_tag d) '''' (m_client con) of (_, _, cl) \<Rightarrow>
                    Some (backoff, con\<lparr>m_idempotency := idem, m_client := cl\<rparr>, met, r, late))
          | Some (True, idem) \<Rightarrow>
              let con = con\<lparr>m_idempotency := idem\<rparr>
              in (case DispatchToScheduler con ready env (met, r) of (result, (met, r), rest) \<Rightarrow>
                    case settle L result (delivery_tag d) (env_type env) (m_client con) met of (cl, met) \<Rightarrow>
                      Some (backoff, con\<lparr>m_client := cl\<rparr>, met, r, late @ rest))))"

definition Run_iteration ::
  "amqp_lib \<Rightarrow> 'j json_lib \<Rightarrow> RabbitMqConfig \<Rightarrow> int \<Rightarrow> bool \<Rightarrow> bool \<Rightarrow> ('j, 'r) consumer_state
     \<Rightarrow> ('j, 'r) consumer_state option" where
  "Run_iteration L J cfg now_ms still_running ready = (\<lambda>(backoff, con, met, r, late).
     if \<not> m_running con then Some (backoff, con, met, r, late)
     else case EnsureConnected L cfg (con, met) of (ok, con, met) \<Rightarrow>
       if \<not> ok
       then Some (min (mq_reconnect_max_backoff_ms cfg) (i32 (backoff * 2)), con, met, r, late)
       else
         let backoff = mq_reconnect_initial_backoff_ms cfg
         in case Consume L 1000 '''' (m_client con) of (got, consume_err, cl) \<Rightarrow>
           let con = con\<lparr>m_client := cl\<rparr>
           in if \<not> still_running then Some (backoff, con, met, r, late)
           else case got of
             None \<Rightarrow>
               Some (backoff, con\<lparr>m_client := (if consume_err \<noteq> [] then Close L cl else cl)\<rparr>, met, r, late)
           | Some d \<Rightarrow> process_delivery L J now_ms ready d (backoff, con, met, r, late))"

definition Start ::
  "RabbitMqConfig \<Rightarrow> nat option \<Rightarrow> ('j, ChatMetrics \<times> 'r) handler option \<Rightarrow> ('j, 'r) consumer_state
     \<Rightarrow> ('j, 'r) consumer_state" where
  "Start cfg scheduler handler = (\<lambda>(backoff, con, rest).
     if m_running con then (backoff, con, rest)
     else (mq_reconnect_initial_backoff_ms cfg,
           con\<lparr>m_scheduler := scheduler, m_handler := handler, m_running := True\<rparr>, rest))"

definition Stop :: "amqp_lib \<Rightarrow> ('j, 'r) consumer_state \<Rightarrow> ('j, 'r) consumer_state" where
  "Stop L = (\<lambda>(backoff, con, rest).
     if \<not> m_running con then (backoff, con, rest)
     else (backoff, con\<lparr>m_running := False, m_client := Close L (m_client con)\<rparr>, rest))"

section \<open>What an iteration does with a delivery\<close>

text \<open>The answers given to the broker, newest first.\<close>

datatype verdict = Acked | Requeued | Dropped

fun answer :: "amqp_call \<Rightarrow> (u64 \<times> verdict) option" where
  "answer (amqp_basic_ack _ _ tag _) = Some (tag, Acked)"
| "answer (amqp_basic_nack _ _ tag _ requeue) = Some (tag, if requeue then Requeued else Dropped)"
| "answer _ = None"

definition answers :: "AmqpClient \<Rightarrow> (u64 \<times> verdict) list" where
  "answers cl = List.map_filter answer (calls cl)"

text \<open>
  The specification: the fate of a delivery as a function of its text, the cache and the clock.
\<close>

datatype 'j fate = Crash | Malformed | Duplicate lru_cache | Fresh "'j Envelope" lru_cache

definition fate_of :: "'j json_lib \<Rightarrow> string \<Rightarrow> int \<Rightarrow> lru_cache \<Rightarrow> 'j fate" where
  "fate_of J text now idem =
     (case EnvelopeFromString J text of
        None \<Rightarrow> Crash
      | Some (Inl _) \<Rightarrow> Malformed
      | Some (Inr env) \<Rightarrow>
          (case TryMark (msg_id env) now idem of
             None \<Rightarrow> Crash
           | Some (fresh, idem') \<Rightarrow> if fresh then Fresh env idem' else Duplicate idem'))"

lemma answers_issue: "answers (issue c cl) = (case answer c of None \<Rightarrow> answers cl | Some a \<Rightarrow> a # answers cl)"
  by (simp add: answers_def issue_def split: option.split)

lemma answers_fields [simp]:
  "answers (cl\<lparr>m_conn := c\<rparr>) = answers cl" "answers (cl\<lparr>m_socket := k\<rparr>) = answers cl"
  "answers (cl\<lparr>m_connected := b\<rparr>) = answers cl"
  by (simp_all add: answers_def)

lemma answers_Close [simp]: "answers (Close L cl) = answers cl"
  by (simp add: Close_def Let_def answers_issue)

lemma answers_Ack: "answers (snd (snd (Ack L tag err cl))) = (tag, Acked) # answers cl"
  by (simp add: Ack_def Let_def answers_issue)

lemma answers_Nack:
  "answers (snd (snd (Nack L tag rq err cl))) = (tag, if rq then Requeued else Dropped) # answers cl"
  by (simp add: Nack_def Let_def answers_issue)

definition verdict_of :: "ConsumeResult \<Rightarrow> verdict" where
  "verdict_of r = (case r of ACK \<Rightarrow> Acked | NACK_REQUEUE \<Rightarrow> Requeued | NACK_DROP \<Rightarrow> Dropped)"

lemma settle_spec:
  assumes "settle L r tag ty cl met = (cl', met')"
  shows "answers cl' = (tag, verdict_of r) # answers cl"
    "met' = IncMqConsume ty (if r = ACK then ''ok'' else ''fail'') met"
proof -
  obtain a where a: "Ack L tag [] cl = a" by simp
  obtain n where n: "Nack L tag True [] cl = n" by simp
  obtain d where d: "Nack L tag False [] cl = d" by simp
  note A = answers_Ack [of L tag "[]" cl, unfolded a] and N = answers_Nack [of L tag True "[]" cl, unfolded n]
    and D = answers_Nack [of L tag False "[]" cl, unfolded d]
  show "answers cl' = (tag, verdict_of r) # answers cl"
    using assms A N D by (cases r; cases a; cases n; cases d) (auto simp: settle_def verdict_of_def a n d)
  show "met' = IncMqConsume ty (if r = ACK then ''ok'' else ''fail'') met"
    using assms by (cases r; cases a; cases n; cases d) (auto simp: settle_def a n d)
qed

lemma answers_Consume: "Consume L ms err cl = (got, err', cl') \<Longrightarrow> answers cl' = answers cl"
  by (auto simp: Consume_def Let_def answers_issue split: if_splits)

lemma consumer_connect_frame:
  assumes "EnsureConnected L cfg (con, met) = (ok, con', met')"
  shows "m_idempotency con' = m_idempotency con" "m_handler con' = m_handler con"
    "m_scheduler con' = m_scheduler con" "m_running con' = m_running con"
  using assms by (auto simp: EnsureConnected_def split: prod.splits if_splits)

text \<open>The cases of one iteration, for every proof about it.\<close>

lemma consumer_cases:
  fixes s :: "('j, 'r) consumer_state"
  assumes "s = (b, con, met, r, late)"
  obtains (idle) "Run_iteration L J cfg now still ready s = Some s" "\<not> m_running con"
  | (unconnected) con1 met1 where "m_running con" "EnsureConnected L cfg (con, met) = (False, con1, met1)"
      "Run_iteration L J cfg now still ready s =
         Some (min (mq_reconnect_max_backoff_ms cfg) (i32 (b * 2)), con1, met1, r, late)"
  | (undelivered) con1 met1 got e cl where "m_running con"
      "EnsureConnected L cfg (con, met) = (True, con1, met1)"
      "Consume L 1000 '''' (m_client con1) = (got, e, cl)" "\<not> still \<or> got = None"
      "Run_iteration L J cfg now still ready s =
         Some (mq_reconnect_initial_backoff_ms cfg,
               con1\<lparr>m_client := (if still \<and> e \<noteq> [] then Close L cl else cl)\<rparr>, met1, r, late)"
  | (delivery) con1 met1 d e cl where "m_running con" still
      "EnsureConnected L cfg (con, met) = (True, con1, met1)"
      "Consume L 1000 '''' (m_client con1) = (Some d, e, cl)"
      "Run_iteration L J cfg now still ready s =
         process_delivery L J now ready d
           (mq_reconnect_initial_backoff_ms cfg, con1\<lparr>m_client := cl\<rparr>, met1, r, late)"
proof (cases "m_running con")
  case False
  with assms show ?thesis by (intro idle) (simp_all add: Run_iteration_def)
next
  case True
  obtain ok con1 met1 where ens: "EnsureConnected L cfg (con, met) = (ok, con1, met1)" by (rule prod_cases3)
  obtain got e cl where get: "Consume L 1000 '''' (m_client con1) = (got, e, cl)" by (rule prod_cases3)
  consider "\<not> ok" | "ok" "\<not> still \<or> got = None" | d where "ok" still "got = Some d" by (cases got) auto
  then show ?thesis
  proof cases
    case 1
    with True ens assms show ?thesis
      by (intro unconnected [of con1 met1]) (simp_all add: Run_iteration_def)
  next
    case 2
    with True ens get assms have "Run_iteration L J cfg now still ready s =
         Some (mq_reconnect_initial_backoff_ms cfg,
               con1\<lparr>m_client := (if still \<and> e \<noteq> [] then Close L cl else cl)\<rparr>, met1, r, late)"
      by (auto simp: Run_iteration_def Let_def)
    moreover have "EnsureConnected L cfg (con, met) = (True, con1, met1)" using ens 2(1) by simp
    ultimately show ?thesis using undelivered [OF True _ get 2(2)] by blast
  next
    case (3 d)
    with True ens get assms show ?thesis
      by (intro delivery [of con1 met1 d e cl]) (simp_all add: Run_iteration_def Let_def)
  qed
qed

text \<open>What \<open>process_delivery\<close> does, by the fate of the delivery.\<close>

lemma process_fate:
  assumes "fate_of J (body d) now (m_idempotency con) = f"
    and "process_delivery L J now ready d (b, con, met, r, late) = res"
  shows "f = Crash \<Longrightarrow> res = None"
    "f = Malformed \<Longrightarrow> \<exists>cl. res = Some (b, con\<lparr>m_client := cl\<rparr>, IncMqConsume (routing_key d) ''fail'' met, r, late) \<and>
       answers cl = (delivery_tag d, Acked) # answers (m_client con)"
    "f = Duplicate idem \<Longrightarrow> \<exists>cl env. EnvelopeFromString J (body d) = Some (Inr env) \<and>
       res = Some (b, con\<lparr>m_idempotency := idem, m_client := cl\<rparr>, IncMqConsume (env_type env) ''dup'' met, r, late) \<and>
       answers cl = (delivery_tag d, Acked) # answers (m_client con)"
    "f = Fresh env idem \<Longrightarrow> \<exists>cl result met' r' rest.
       DispatchToScheduler con ready env (met, r) = (result, (met', r'), rest) \<and>
       res = Some (b, con\<lparr>m_idempotency := idem, m_client := cl\<rparr>,
         IncMqConsume (env_type env) (if result = ACK then ''ok'' else ''fail'') met', r', late @ rest) \<and>
       answers cl = (delivery_tag d, verdict_of result) # answers (m_client con)"
proof -
  obtain ok e cl where ack: "Ack L (delivery_tag d) [] (m_client con) = (ok, e, cl)" by (rule prod_cases3)
  with answers_Ack [of L "delivery_tag d" "[]" "m_client con"]
  have a: "answers cl = (delivery_tag d, Acked) # answers (m_client con)" by simp
  show "f = Crash \<Longrightarrow> res = None"
    using assms by (auto simp: fate_of_def process_delivery_def split: option.splits sum.splits prod.splits if_splits)
  show "f = Malformed \<Longrightarrow> \<exists>cl. res = Some (b, con\<lparr>m_client := cl\<rparr>, IncMqConsume (routing_key d) ''fail'' met, r, late) \<and>
       answers cl = (delivery_tag d, Acked) # answers (m_client con)"
    using assms a by (auto simp: fate_of_def process_delivery_def ack Let_def
        split: option.splits sum.splits prod.splits if_splits)
  show "f = Duplicate idem \<Longrightarrow> \<exists>cl env. EnvelopeFromString J (body d) = Some (Inr env) \<and>
       res = Some (b, con\<lparr>m_idempotency := idem, m_client := cl\<rparr>, IncMqConsume (env_type env) ''dup'' met, r, late) \<and>
       answers cl = (delivery_tag d, Acked) # answers (m_client con)"
    using assms a by (auto simp: fate_of_def process_delivery_def ack Let_def
        split: option.splits sum.splits prod.splits if_splits)
  assume f: "f = Fresh env idem"
  with assms(1) have E: "EnvelopeFromString J (body d) = Some (Inr env)"
    and T: "TryMark (msg_id env) now (m_idempotency con) = Some (True, idem)"
    by (auto simp: fate_of_def split: option.splits sum.splits prod.splits if_splits)
  let ?con = "con\<lparr>m_idempotency := idem\<rparr>"
  obtain result met' r' rest where D: "DispatchToScheduler ?con ready env (met, r) = (result, (met', r'), rest)"
    by (metis prod.exhaust)
  obtain cl met2 where S: "settle L result (delivery_tag d) (env_type env) (m_client con) met' = (cl, met2)"
    by (cases "settle L result (delivery_tag d) (env_type env) (m_client con) met'")
  have "DispatchToScheduler con ready env (met, r) = (result, (met', r'), rest)"
    using D unfolding DispatchToScheduler_def by (cases "m_handler con") simp_all
  moreover have "res = Some (b, con\<lparr>m_idempotency := idem, m_client := cl\<rparr>, met2, r', late @ rest)"
    using assms(2) by (simp add: process_delivery_def E T D S Let_def)
  ultimately show "\<exists>cl result met' r' rest.
       DispatchToScheduler con ready env (met, r) = (result, (met', r'), rest) \<and>
       res = Some (b, con\<lparr>m_idempotency := idem, m_client := cl\<rparr>,
         IncMqConsume (env_type env) (if result = ACK then ''ok'' else ''fail'') met', r', late @ rest) \<and>
       answers cl = (delivery_tag d, verdict_of result) # answers (m_client con)"
    using settle_spec [OF S] by (intro exI [of _ cl] exI [of _ result] exI [of _ met'] exI [of _ r'] exI [of _ rest]) simp
qed

section \<open>The answer to a delivery\<close>

definition con_of :: "('j, 'r) consumer_state \<Rightarrow> ('j, ChatMetrics \<times> 'r) MqConsumer" where
  "con_of s = fst (snd s)"

definition met_of :: "('j, 'r) consumer_state \<Rightarrow> ChatMetrics" where
  "met_of s = fst (snd (snd s))"

definition rest_of :: "('j, 'r) consumer_state \<Rightarrow> 'r" where
  "rest_of s = fst (snd (snd (snd s)))"

definition late_of :: "('j, 'r) consumer_state \<Rightarrow> 'j Envelope list" where
  "late_of s = snd (snd (snd (snd s)))"

lemma consumer_parts [simp]: "con_of (b, con, met, r, late) = con" "met_of (b, con, met, r, late) = met"
  "rest_of (b, con, met, r, late) = r" "late_of (b, con, met, r, late) = late"
  by (simp_all add: con_of_def met_of_def rest_of_def late_of_def)

text \<open>
  C20. Every delivery that is taken while the thread keeps running is answered exactly once, and how
  depends only on its fate: a malformed text is acknowledged and counted as failed, a duplicate is
  acknowledged and counted as such, both without touching the rest of the service; a fresh message
  is handed to the dispatcher and answered by its result. When the envelope's fields make the JSON
  library throw, nothing is answered and the exception ends the thread.
\<close>

theorem consumer_answers:
  assumes "m_running (con_of s)"
    and "EnsureConnected L cfg (con_of s, met_of s) = (True, con1, met1)"
    and "Consume L 1000 '''' (m_client con1) = (Some d, e, cl)"
    and "res = Run_iteration L J cfg now True ready s"
  shows "case fate_of J (body d) now (m_idempotency (con_of s)) of
      Crash \<Rightarrow> res = None
    | Malformed \<Rightarrow> (\<exists>s'. res = Some s' \<and> rest_of s' = rest_of s \<and>
        met_of s' = IncMqConsume (routing_key d) ''fail'' met1 \<and>
        m_idempotency (con_of s') = m_idempotency (con_of s) \<and>
        answers (m_client (con_of s')) = (delivery_tag d, Acked) # answers (m_client con1))
    | Duplicate idem \<Rightarrow> (\<exists>s' env. res = Some s' \<and> rest_of s' = rest_of s \<and>
        EnvelopeFromString J (body d) = Some (Inr env) \<and>
        met_of s' = IncMqConsume (env_type env) ''dup'' met1 \<and> m_idempotency (con_of s') = idem \<and>
        answers (m_client (con_of s')) = (delivery_tag d, Acked) # answers (m_client con1))
    | Fresh env idem \<Rightarrow> (\<exists>s' result met' rest.
        DispatchToScheduler (con_of s) ready env (met1, rest_of s) = (result, (met', rest_of s'), rest) \<and>
        res = Some s' \<and> m_idempotency (con_of s') = idem \<and> late_of s' = late_of s @ rest \<and>
        met_of s' = IncMqConsume (env_type env) (if result = ACK then ''ok'' else ''fail'') met' \<and>
        answers (m_client (con_of s')) = (delivery_tag d, verdict_of result) # answers (m_client con1))"
proof -
  obtain b con met r late where s: "s = (b, con, met, r, late)" by (metis prod.exhaust)
  note frame = consumer_connect_frame [OF assms(2)]
  have con: "con_of s = con" "met_of s = met" "rest_of s = r" "late_of s = late"
    by (simp_all add: s)
  let ?con = "con1\<lparr>m_client := cl\<rparr>"
  have res: "process_delivery L J now ready d (mq_reconnect_initial_backoff_ms cfg, ?con, met1, r, late) = res"
    using assms by (simp add: Run_iteration_def s Let_def)
  have fate: "fate_of J (body d) now (m_idempotency ?con) = fate_of J (body d) now (m_idempotency (con_of s))"
    using frame by simp
  have disp: "DispatchToScheduler ?con ready env x = DispatchToScheduler (con_of s) ready env x" for env x
    unfolding DispatchToScheduler_def using frame by (cases "m_handler (con_of s)") simp_all
  note cl = answers_Consume [OF assms(3)]
  show ?thesis
  proof (cases "fate_of J (body d) now (m_idempotency (con_of s))")
    case Crash
    with process_fate(1) [OF fate res] show ?thesis by simp
  next
    case Malformed
    with process_fate(2) [OF fate res] cl frame show ?thesis by (auto simp: con)
  next
    case (Duplicate idem)
    with process_fate(3) [OF fate res] cl frame show ?thesis by (auto simp: con)
  next
    case (Fresh env idem)
    with process_fate(4) [OF fate res] obtain cl' result met' r' rest where
      D: "DispatchToScheduler (con_of s) ready env (met1, r) = (result, (met', r'), rest)" and
      R: "res = Some (mq_reconnect_initial_backoff_ms cfg, ?con\<lparr>m_idempotency := idem, m_client := cl'\<rparr>,
         IncMqConsume (env_type env) (if result = ACK then ''ok'' else ''fail'') met', r', late @ rest)" and
      A: "answers cl' = (delivery_tag d, verdict_of result) # answers (m_client ?con)"
      unfolding disp by blast
    from D R A cl show ?thesis
      unfolding Fresh fate.case
      by (intro exI [of _ "the res"] exI [of _ result] exI [of _ met'] exI [of _ rest]) (simp add: con)
  qed
qed

section \<open>The contract of the handler\<close>

text \<open>
  The message that an iteration hands to its handler is one that the broker delivered: the envelope in the body of
  what \<open>Consume\<close> returned.
\<close>

definition received :: "amqp_lib \<Rightarrow> 'j json_lib \<Rightarrow> RabbitMqConfig \<Rightarrow> ('j, 'r) consumer_state \<Rightarrow> 'j Envelope \<Rightarrow> bool" where
  "received L J cfg s env \<longleftrightarrow>
     (case EnsureConnected L cfg (con_of s, met_of s) of (ok, con, met) \<Rightarrow>
        ok \<and> (\<exists>d. fst (Consume L 1000 '''' (m_client con)) = Some d \<and> EnvelopeFromString J (body d) = Some (Inr env)))"

text \<open>An iteration changes the rest of the service only by a call of the handler on such a message.\<close>

lemma delivery_rest:
  fixes r :: 'r
  assumes "process_delivery L J now ready d (b, con, met, r, late) = Some s'"
  shows "m_handler (con_of s') = m_handler con"
    "rest_of s' = r \<or> (\<exists>h env met. m_handler con = Some h \<and> EnvelopeFromString J (body d) = Some (Inr env) \<and>
       rest_of s' = snd (snd (h env (met, r))))"
proof -
  note fate = process_fate [OF refl assms]
  have "m_handler (con_of s') = m_handler con \<and> (rest_of s' = r \<or> (\<exists>h env met. m_handler con = Some h \<and>
      EnvelopeFromString J (body d) = Some (Inr env) \<and> rest_of s' = snd (snd (h env (met, r)))))"
  proof (cases "fate_of J (body d) now (m_idempotency con)")
    case (Fresh env idem)
    from fate(4) [OF this] obtain cl' result met' r' rest where
      D: "DispatchToScheduler con ready env (met, r) = (result, (met', r'), rest)"
      and s': "con_of s' = con\<lparr>m_idempotency := idem, m_client := cl'\<rparr>" "rest_of s' = r'" by auto
    have "EnvelopeFromString J (body d) = Some (Inr env)"
      using Fresh by (auto simp: fate_of_def split: option.splits sum.splits if_splits)
    moreover have "r' = r \<or> (\<exists>h. m_handler con = Some h \<and> r' = snd (snd (h env (met, r))))"
      using D by (auto simp: DispatchToScheduler_def run_handler_def split: option.splits if_splits prod.splits)
    ultimately show ?thesis using s' by auto
  qed (use fate(1-3) in auto)
  then show "m_handler (con_of s') = m_handler con"
    "rest_of s' = r \<or> (\<exists>h env met. m_handler con = Some h \<and> EnvelopeFromString J (body d) = Some (Inr env) \<and>
       rest_of s' = snd (snd (h env (met, r))))" by simp_all
qed

lemma iteration_rest:
  fixes s :: "('j, 'r) consumer_state"
  assumes "Run_iteration L J cfg now still ready s = Some s'"
  shows "m_handler (con_of s') = m_handler (con_of s)"
    "rest_of s' = rest_of s \<or> (\<exists>h env met. m_handler (con_of s) = Some h \<and> received L J cfg s env \<and>
       rest_of s' = snd (snd (h env (met, rest_of s))))"
proof -
  obtain b con met r late where s: "s = (b, con, met, r, late)" by (metis prod.exhaust)
  have "m_handler (con_of s') = m_handler con \<and> (rest_of s' = r \<or> (\<exists>h env met. m_handler con = Some h \<and>
      received L J cfg s env \<and> rest_of s' = snd (snd (h env (met, r)))))"
    using s
  proof (cases rule: consumer_cases [where L = L and J = J and cfg = cfg and now = now and still = still
        and ready = ready])
    case idle
    with assms s show ?thesis by simp
  next
    case (unconnected con1 met1)
    with assms consumer_connect_frame [OF unconnected(2)] show ?thesis by auto
  next
    case (undelivered con1 met1 got e cl)
    with assms consumer_connect_frame [OF undelivered(2)] show ?thesis by auto
  next
    case (delivery con1 met1 d e cl)
    have "received L J cfg s env" if "EnvelopeFromString J (body d) = Some (Inr env)" for env
      using that delivery(3,4) by (simp add: received_def s)
    with delivery_rest [OF trans [OF delivery(5) [symmetric] assms]] consumer_connect_frame(2) [OF delivery(3)]
    show ?thesis by auto
  qed
  then show "m_handler (con_of s') = m_handler (con_of s)"
    "rest_of s' = rest_of s \<or> (\<exists>h env met. m_handler (con_of s) = Some h \<and> received L J cfg s env \<and>
       rest_of s' = snd (snd (h env (met, rest_of s))))" by (simp_all add: s)
qed

text \<open>
  What the consumer asks of its handler: whatever the message, an invariant of the rest of the service
  survives the call, also when the handler throws. Then it survives every iteration of the consumer.
\<close>

locale consumer_handler =
  fixes h :: "('j, ChatMetrics \<times> 'r) handler"
    and inv :: "'r \<Rightarrow> bool"
  assumes handler_keeps: "inv r \<Longrightarrow> inv (snd (snd (h env (met, r))))"
begin

lemma iteration_keeps:
  assumes "Run_iteration L J cfg now still ready s = Some s'"
    and "m_handler (con_of s) \<in> {None, Some h}" "inv (rest_of s)"
  shows "m_handler (con_of s') \<in> {None, Some h}" "inv (rest_of s')"
  using iteration_rest [OF assms(1)] assms(2,3) handler_keeps by auto

lemma late_keeps:
  "inv r \<Longrightarrow> run_handler h env (met, r) = (result, met', r') \<Longrightarrow> inv r'"
  using handler_keeps [of r env met] by (auto simp: run_handler_def split: prod.splits option.splits)

end

section \<open>Each message is handled at most once\<close>

text \<open>
  What an iteration does with the handler, read off the states before and after it: nothing, or one call of
  \<open>DispatchToScheduler\<close> on a message.
\<close>

definition quiet :: "('j, 'r) consumer_state \<Rightarrow> ('j, 'r) consumer_state \<Rightarrow> bool" where
  "quiet s s' \<longleftrightarrow> rest_of s' = rest_of s \<and> late_of s' = late_of s"

definition dispatched :: "('j, 'r) consumer_state \<Rightarrow> 'j Envelope \<Rightarrow> ('j, 'r) consumer_state \<Rightarrow> bool" where
  "dispatched s env s' \<longleftrightarrow>
     (\<exists>ready met result met' rest.
        DispatchToScheduler (con_of s) ready env (met, rest_of s) = (result, (met', rest_of s'), rest) \<and>
        late_of s' = late_of s @ rest)"

text \<open>The effect of an iteration on the cache and on the handler, together.\<close>

definition marks :: "int \<Rightarrow> ('j, 'r) consumer_state \<Rightarrow> ('j, 'r) consumer_state \<Rightarrow> bool" where
  "marks now s s' \<longleftrightarrow> m_handler (con_of s') = m_handler (con_of s) \<and>
     (m_idempotency (con_of s') = m_idempotency (con_of s) \<and> quiet s s' \<or>
      (\<exists>env fresh. TryMark (msg_id env) now (m_idempotency (con_of s)) = Some (fresh, m_idempotency (con_of s')) \<and>
         (if fresh then dispatched s env s' else quiet s s')))"

lemma DispatchToScheduler_cong:
  "m_handler con' = m_handler con \<Longrightarrow> m_scheduler con' = m_scheduler con \<Longrightarrow>
     DispatchToScheduler con' ready env x = DispatchToScheduler con ready env x"
  by (cases "m_handler con") (simp_all add: DispatchToScheduler_def)

lemma delivery_marks:
  fixes J :: "'j json_lib"
  assumes "process_delivery L J now ready d (b, con, met, r, late) = Some s'"
  shows "marks now (b, con, met, r, late) s'"
proof -
  note fate = process_fate [OF refl assms]
  show ?thesis
  proof (cases "fate_of J (body d) now (m_idempotency con)")
    case Crash
    from fate(1) [OF this] show ?thesis by simp
  next
    case Malformed
    from fate(2) [OF this] have "quiet (b, con, met, r, late) s'" "m_handler (con_of s') = m_handler con"
      "m_idempotency (con_of s') = m_idempotency con" by (auto simp: quiet_def)
    then show ?thesis unfolding marks_def by (intro conjI disjI1) simp_all
  next
    case (Duplicate idem)
    then obtain env :: "'j Envelope" where "TryMark (msg_id env) now (m_idempotency con) = Some (False, idem)"
      by (auto simp: fate_of_def split: option.splits sum.splits prod.splits if_splits)
    moreover from fate(3) [OF Duplicate] have "quiet (b, con, met, r, late) s'"
      "m_handler (con_of s') = m_handler con" "m_idempotency (con_of s') = idem"
      by (auto simp: quiet_def)
    ultimately show ?thesis
      unfolding marks_def by (intro conjI disjI2 exI [of _ env] exI [of _ False]) simp_all
  next
    case (Fresh env idem)
    then have T: "TryMark (msg_id env) now (m_idempotency con) = Some (True, idem)"
      by (auto simp: fate_of_def split: option.splits sum.splits prod.splits if_splits)
    from fate(4) [OF Fresh] obtain result met' r' rest where
      D: "DispatchToScheduler con ready env (met, r) = (result, (met', r'), rest)"
      and s': "rest_of s' = r'" "late_of s' = late @ rest"
        "m_handler (con_of s') = m_handler con" "m_idempotency (con_of s') = idem" by auto
    then have "dispatched (b, con, met, r, late) env s'"
      unfolding dispatched_def consumer_parts s' by blast
    with T show ?thesis
      unfolding marks_def by (intro conjI disjI2 exI [of _ env] exI [of _ True]) (simp_all add: s')
  qed
qed

type_synonym consumer_input = "int \<times> bool \<times> bool"

definition consumer_step ::
  "amqp_lib \<Rightarrow> 'j json_lib \<Rightarrow> RabbitMqConfig \<Rightarrow> consumer_input \<Rightarrow> ('j, 'r) consumer_state
     \<Rightarrow> ('j, 'r) consumer_state option" where
  "consumer_step L J cfg = (\<lambda>(now, still, ready). Run_iteration L J cfg now still ready)"

fun consumer_run ::
  "amqp_lib \<Rightarrow> 'j json_lib \<Rightarrow> RabbitMqConfig \<Rightarrow> consumer_input list \<Rightarrow> ('j, 'r) consumer_state
     \<Rightarrow> ('j, 'r) consumer_state option" where
  "consumer_run L J cfg [] s = Some s"
| "consumer_run L J cfg (i # is) s =
     (case consumer_step L J cfg i s of None \<Rightarrow> None | Some s' \<Rightarrow> consumer_run L J cfg is s')"

lemma consumer_step_marks:
  assumes "consumer_step L J cfg (now, still, ready) s = Some s'"
  shows "marks now s s'"
proof -
  obtain b con met r late where s: "s = (b, con, met, r, late)" by (metis prod.exhaust)
  from s show ?thesis
  proof (cases rule: consumer_cases [where L = L and J = J and cfg = cfg and now = now
        and still = still and ready = ready])
    case idle
    with assms show ?thesis by (simp add: consumer_step_def marks_def quiet_def)
  next
    case (unconnected con1 met1)
    with assms consumer_connect_frame [OF unconnected(2)] show ?thesis
      by (auto simp: consumer_step_def marks_def quiet_def s)
  next
    case (undelivered con1 met1 got e cl)
    with assms consumer_connect_frame [OF undelivered(2)] show ?thesis
      by (auto simp: consumer_step_def marks_def quiet_def s)
  next
    case (delivery con1 met1 d e cl)
    note frame = consumer_connect_frame [OF delivery(3)]
    have "process_delivery L J now ready d
        (mq_reconnect_initial_backoff_ms cfg, con1\<lparr>m_client := cl\<rparr>, met1, r, late) = Some s'"
      using delivery(5) assms by (simp add: consumer_step_def)
    note marks = delivery_marks [OF this]
    have "DispatchToScheduler (con1\<lparr>m_client := cl\<rparr>) = DispatchToScheduler con"
      using DispatchToScheduler_cong [of "con1\<lparr>m_client := cl\<rparr>" con] frame by (intro ext) simp
    then have "dispatched (b', con1\<lparr>m_client := cl\<rparr>, met1, r, late) env s' = dispatched s env s'" for b' env
      by (simp add: dispatched_def s)
    with marks show ?thesis using frame by (simp add: marks_def quiet_def s cong: if_cong)
  qed
qed

text \<open>
  A handler that is watched: it writes down the id of each message that it is called with. \<open>handed_over\<close> counts
  how often a message has reached the handler, or waits in a closure that still will call it.
\<close>

definition recording :: "('j, ChatMetrics \<times> 'r) handler \<Rightarrow> ('j, ChatMetrics \<times> string list \<times> 'r) handler" where
  "recording h env = (\<lambda>(met, log, r). case h env (met, r) of (result, met, r) \<Rightarrow> (result, met, log @ [msg_id env], r))"

definition handed_over :: "string \<Rightarrow> ('j, string list \<times> 'r) consumer_state \<Rightarrow> nat" where
  "handed_over k s = count_list (fst (rest_of s)) k + count_list (map msg_id (late_of s)) k"

lemma recording_dispatch:
  assumes "m_handler con = Some (recording h)"
    and "DispatchToScheduler con ready env (met, log, r) = (result, (met', log', r'), rest)"
  shows "count_list log' k + count_list (map msg_id rest) k = count_list log k + (if msg_id env = k then 1 else 0)"
proof -
  obtain res met1 r1 where "h env (met, r) = (res, met1, r1)" by (rule prod_cases3)
  with assms show ?thesis
    by (auto simp: DispatchToScheduler_def run_handler_def recording_def split: if_splits option.splits)
qed

lemma handed_over_marks:
  assumes "marks now s s'" "m_handler (con_of s) = Some (recording h)"
  shows "m_handler (con_of s') = Some (recording h)"
    "m_idempotency (con_of s') = m_idempotency (con_of s) \<and> handed_over k s' = handed_over k s \<or>
     (\<exists>k' fresh. TryMark k' now (m_idempotency (con_of s)) = Some (fresh, m_idempotency (con_of s')) \<and>
        handed_over k s' = handed_over k s + (if fresh \<and> k' = k then 1 else 0))"
proof -
  have q: "handed_over k s' = handed_over k s" if "quiet s s'" using that by (simp add: quiet_def handed_over_def)
  have disp: "handed_over k s' = handed_over k s + (if msg_id env = k then 1 else 0)" if d: "dispatched s env s'" for env
  proof -
    obtain log r log' r' where r: "rest_of s = (log, r)" "rest_of s' = (log', r')" by fastforce
    with d obtain ready met result met' rest where
      D: "DispatchToScheduler (con_of s) ready env (met, log, r) = (result, (met', log', r'), rest)"
      and late: "late_of s' = late_of s @ rest" by (auto simp: dispatched_def)
    from recording_dispatch [OF assms(2) D, of k] show ?thesis by (simp add: handed_over_def r late)
  qed
  from assms(1) consider "m_idempotency (con_of s') = m_idempotency (con_of s)" "quiet s s'"
    | env fresh where "TryMark (msg_id env) now (m_idempotency (con_of s)) = Some (fresh, m_idempotency (con_of s'))"
        "if fresh then dispatched s env s' else quiet s s'" unfolding marks_def by blast
  then show
    "m_idempotency (con_of s') = m_idempotency (con_of s) \<and> handed_over k s' = handed_over k s \<or>
     (\<exists>k' fresh. TryMark k' now (m_idempotency (con_of s)) = Some (fresh, m_idempotency (con_of s')) \<and>
        handed_over k s' = handed_over k s + (if fresh \<and> k' = k then 1 else 0))"
  proof cases
    case (2 env fresh)
    then show ?thesis
      using q disp by (intro disjI2 exI [of _ "msg_id env"] exI [of _ fresh]) (auto split: if_splits)
  qed (simp add: q)
qed (use assms in \<open>simp add: marks_def\<close>)

definition consumer_start :: "('j, 'r) consumer_state \<Rightarrow> bool" where
  "consumer_start s \<longleftrightarrow> m_client (con_of s) = new_AmqpClient \<and>
     m_idempotency (con_of s) = LruIdempotencyCache 100000 (24 * 3600 * 1000)"

text \<open>The cache of the consumer: well formed, with the capacity and time to live of the constructor.\<close>

definition consumer_cache :: "('j, 'r) consumer_state \<Rightarrow> bool" where
  "consumer_cache s \<longleftrightarrow> lru_inv (m_idempotency (con_of s)) \<and>
     m_capacity (m_idempotency (con_of s)) = 100000 \<and> m_ttl_ms (m_idempotency (con_of s)) = 86400000"

lemma consumer_start_cache: "consumer_start s \<Longrightarrow> consumer_cache s"
  by (simp add: consumer_start_def consumer_cache_def lru_inv_new)
     (simp add: LruIdempotencyCache_def)

lemma consumer_step_cache:
  assumes "consumer_cache s" "consumer_step L J cfg i s = Some s'"
  shows "consumer_cache s'"
proof -
  obtain now still ready where i: "i = (now, still, ready)" by (rule prod_cases3)
  from consumer_step_marks [OF assms(2) [unfolded i]] consider
    "m_idempotency (con_of s') = m_idempotency (con_of s)"
  | k fresh where "TryMark k now (m_idempotency (con_of s)) = Some (fresh, m_idempotency (con_of s'))"
    unfolding marks_def by blast
  then show ?thesis
  proof cases
    case 1
    with assms(1) show ?thesis by (simp add: consumer_cache_def)
  next
    case (2 k fresh)
    from assms(1) have "lru_inv (m_idempotency (con_of s))" by (simp add: consumer_cache_def)
    from TryMark_inv [OF this, of k now] 2 assms(1) show ?thesis by (auto simp: consumer_cache_def)
  qed
qed

lemma consumer_run_cache:
  "consumer_cache s \<Longrightarrow> consumer_run L J cfg is s = Some s' \<Longrightarrow> consumer_cache s'"
proof (induction "is" arbitrary: s)
  case (Cons i "is")
  from Cons.prems(2) obtain s1 where "consumer_step L J cfg i s = Some s1" "consumer_run L J cfg is s1 = Some s'"
    by (auto split: option.splits)
  with Cons.IH consumer_step_cache [OF Cons.prems(1)] show ?case by blast
qed simp

lemma consumer_run_handler:
  "consumer_run L J cfg is s = Some s' \<Longrightarrow> m_handler (con_of s') = m_handler (con_of s)"
proof (induction "is" arbitrary: s)
  case (Cons i "is")
  obtain now still ready where i: "i = (now, still, ready)" by (rule prod_cases3)
  from Cons.prems obtain s1 where s1: "consumer_step L J cfg (now, still, ready) s = Some s1"
    "consumer_run L J cfg is s1 = Some s'" by (auto simp: i split: option.splits)
  from consumer_step_marks [OF s1(1)] Cons.IH [OF s1(2)] show ?case by (simp add: marks_def)
qed simp

text \<open>A remembered message id is not handed over through any run that is shorter than the room it has.\<close>

lemma consumer_step_held:
  assumes "consumer_cache s" "held (m_idempotency (con_of s)) k e (Suc n)" "now < e"
    and "consumer_step L J cfg (now, still, ready) s = Some s'" "m_handler (con_of s) = Some (recording h)"
  shows "handed_over k s' = handed_over k s" "held (m_idempotency (con_of s')) k e n"
proof -
  have cache: "lru_inv (m_idempotency (con_of s))" using assms(1) by (simp add: consumer_cache_def)
  from handed_over_marks(2) [OF consumer_step_marks [OF assms(4)] assms(5), of k] consider
    "m_idempotency (con_of s') = m_idempotency (con_of s)" "handed_over k s' = handed_over k s"
  | k' fresh where "TryMark k' now (m_idempotency (con_of s)) = Some (fresh, m_idempotency (con_of s'))"
      "handed_over k s' = handed_over k s + (if fresh \<and> k' = k then 1 else 0)" by blast
  then have "handed_over k s' = handed_over k s \<and> (\<exists>m \<ge> n. held (m_idempotency (con_of s')) k e m)"
  proof cases
    case 1
    with assms(2) show ?thesis by (auto intro: exI [of _ "Suc n"])
  next
    case (2 k' fresh)
    from lru.held_mono [OF cache assms(2,3) 2(1)] have "\<exists>m \<ge> n. held (m_idempotency (con_of s')) k e m" by blast
    moreover have "k' = k \<Longrightarrow> \<not> fresh" using lru.mark_held [OF cache assms(2,3)] 2(1) by blast
    ultimately show ?thesis using 2(2) by auto
  qed
  then show "handed_over k s' = handed_over k s" "held (m_idempotency (con_of s')) k e n"
    using held_weaken by blast+
qed

lemma consumer_run_held:
  assumes "consumer_cache s" "held (m_idempotency (con_of s)) k e n" "length is \<le> n"
    "\<forall>i \<in> set is. fst i < e" "consumer_run L J cfg is s = Some s'" "m_handler (con_of s) = Some (recording h)"
  shows "handed_over k s' = handed_over k s"
  using assms
proof (induction "is" arbitrary: s n)
  case (Cons i "is")
  obtain now still ready where i: "i = (now, still, ready)" by (rule prod_cases3)
  from Cons.prems(5) obtain s1 where step: "consumer_step L J cfg (now, still, ready) s = Some s1"
    and run: "consumer_run L J cfg is s1 = Some s'" by (auto simp: i split: option.splits)
  from Cons.prems(3) obtain m where n: "n = Suc m" "length is \<le> m" by (cases n) auto
  have now: "now < e" using Cons.prems(4) i by simp
  note held = consumer_step_held [OF Cons.prems(1) Cons.prems(2) [unfolded n(1)] now step Cons.prems(6)]
  have "m_handler (con_of s1) = Some (recording h)"
    by (rule handed_over_marks(1) [OF consumer_step_marks [OF step] Cons.prems(6)])
  with Cons.IH [OF consumer_step_cache [OF Cons.prems(1) step] held(2) n(2) _ run] Cons.prems(4) held(1)
  show ?case by simp
qed simp

text \<open>
  C9. At most once. Let any handler be watched by \<open>recording\<close>, in any history of a consumer. When an iteration at time
  \<open>t0\<close> hands a message to the handler, or to the scheduled closure that will call it, it does so once, and none of
  the next 99999 iterations that read a clock below \<open>t0\<close> plus 24 hours hands a message with that id over again,
  whatever the broker redelivers, and across reconnects.
\<close>

theorem consumer_handles_once:
  assumes "consumer_start s" "m_handler (con_of s) = Some (recording h)" "consumer_run L J cfg before s = Some s0"
    and "consumer_step L J cfg (t0, still, ready) s0 = Some s1" "handed_over k s1 \<noteq> handed_over k s0"
    and "- (2 ^ 62) \<le> t0" "t0 < 2 ^ 62" "length after \<le> 99999" "\<forall>i \<in> set after. fst i < t0 + 86400000"
    and "consumer_run L J cfg after s1 = Some s2"
  shows "handed_over k s1 = Suc (handed_over k s0) \<and> handed_over k s2 = handed_over k s1"
proof -
  have c0: "consumer_cache s0" by (rule consumer_run_cache [OF consumer_start_cache [OF assms(1)] assms(3)])
  have h0: "m_handler (con_of s0) = Some (recording h)" using consumer_run_handler [OF assms(3)] assms(2) by simp
  note marks = handed_over_marks [OF consumer_step_marks [OF assms(4)] h0]
  from marks(2) [of k] assms(5) have
    T: "TryMark k t0 (m_idempotency (con_of s0)) = Some (True, m_idempotency (con_of s1))"
    and once: "handed_over k s1 = Suc (handed_over k s0)"
    by (auto split: if_splits)
  from c0 have "held (m_idempotency (con_of s1)) k (t0 + 86400000) 99999"
    using TryMark_new_held [OF _ T] assms(6,7) by (simp add: consumer_cache_def)
  from consumer_run_held [OF consumer_step_cache [OF c0 assms(4)] this assms(8-10) marks(1)] once show ?thesis by simp
qed

section \<open>A requeued message is lost\<close>

text \<open>
  C26. The cache remembers a message before it is handled. When the handler throws, asks for a requeue or
  misses the deadline, the answer is a requeue; but if the broker then redelivers the message to the
  next iteration within 24 hours, that iteration acknowledges it as a duplicate and the handler is not
  called: the message is never handled again.
\<close>

theorem requeued_message_lost:
  assumes "consumer_cache s0" "m_running (con_of s0)"
    and "EnsureConnected L cfg (con_of s0, met_of s0) = (True, con0, met0)"
      "Consume L 1000 '''' (m_client con0) = (Some d0, e0, cl0)"
      "fate_of J (body d0) t0 (m_idempotency (con_of s0)) = Fresh env idem"
      "DispatchToScheduler (con_of s0) ready0 env (met0, rest_of s0) = (NACK_REQUEUE, sr, late0)"
      "Run_iteration L J cfg t0 True ready0 s0 = Some s1" "m_running (con_of s1)"
    and "EnsureConnected L cfg (con_of s1, met_of s1) = (True, con1, met1)"
      "Consume L 1000 '''' (m_client con1) = (Some d1, e1, cl1)" "body d1 = body d0"
    and "- (2 ^ 62) \<le> t0" "t0 < 2 ^ 62" "t1 < t0 + 86400000"
  shows "hd (answers (m_client (con_of s1))) = (delivery_tag d0, Requeued) \<and>
    (\<exists>s2. Run_iteration L J cfg t1 True ready1 s1 = Some s2 \<and> rest_of s2 = rest_of s1 \<and>
      late_of s2 = late_of s1 \<and> hd (answers (m_client (con_of s2))) = (delivery_tag d1, Acked))"
proof -
  obtain b con met r late where s0: "s0 = (b, con, met, r, late)" by (metis prod.exhaust)
  obtain b1 con' met' r1 late1 where s1: "s1 = (b1, con', met', r1, late1)" by (metis prod.exhaust)
  have E: "EnvelopeFromString J (body d0) = Some (Inr env)"
    and T: "TryMark (msg_id env) t0 (m_idempotency con) = Some (True, idem)"
    using assms(5) by (auto simp: s0 fate_of_def split: option.splits sum.splits prod.splits if_splits)
  note f0 = consumer_connect_frame [OF assms(3)] and f1 = consumer_connect_frame [OF assms(9)]
  let ?con = "con0\<lparr>m_client := cl0\<rparr>"
  have p0: "process_delivery L J t0 ready0 d0 (mq_reconnect_initial_backoff_ms cfg, ?con, met0, r, late) = Some s1"
    using assms(2-4,7) by (simp add: Run_iteration_def s0 Let_def)
  have fate0: "fate_of J (body d0) t0 (m_idempotency ?con) = Fresh env idem" using f0 assms(5) by simp
  have "DispatchToScheduler ?con ready0 env x = DispatchToScheduler (con_of s0) ready0 env x" for x
    unfolding DispatchToScheduler_def using f0 by (cases "m_handler (con_of s0)") simp_all
  with process_fate(4) [OF fate0 p0] assms(6) have
    i1: "m_idempotency con' = idem" and
    a1: "answers (m_client con') = (delivery_tag d0, Requeued) # answers cl0"
    by (auto simp: s0 s1 verdict_of_def)
  have "consumer_cache s1"
    by (rule consumer_step_cache [OF assms(1), of L J cfg "(t0, True, ready0)"])
       (simp add: consumer_step_def assms(7))
  then have inv: "lru_inv idem" using i1 by (simp add: consumer_cache_def s1)
  have held: "held idem (msg_id env) (t0 + 86400000) 99999"
    using TryMark_new_held [OF _ T] assms(1,12,13) by (simp add: consumer_cache_def s0)
  obtain fresh idem2 where T1: "TryMark (msg_id env) t1 idem = Some (fresh, idem2)"
    using lru.mark_defined [OF inv] by blast
  with lru.mark_held [OF inv held assms(14)] have "\<not> fresh" by blast
  then have fate1: "fate_of J (body d1) t1 (m_idempotency (con1\<lparr>m_client := cl1\<rparr>)) = Duplicate idem2"
    using f1(1) i1 T1 E by (simp add: fate_of_def assms(11) s1)
  have p1: "process_delivery L J t1 ready1 d1
      (mq_reconnect_initial_backoff_ms cfg, con1\<lparr>m_client := cl1\<rparr>, met1, r1, late1) =
      Run_iteration L J cfg t1 True ready1 s1"
    using assms(8-10) by (simp add: Run_iteration_def s1 Let_def)
  from process_fate(3) [OF fate1 p1] a1 show ?thesis by (auto simp: s1)
qed

section \<open>Exceptions in the consumer thread\<close>

text \<open>
  The thread function lets no other exception escape: in every history, an iteration ends the process
  just when it has received a delivery whose text makes a JSON accessor of the envelope parser throw;
  in particular the cache never reaches undefined behaviour, and exceptions of the handler are caught.
\<close>

theorem consumer_crash_iff:
  assumes "consumer_start s" "consumer_run L J cfg before s = Some s0"
  shows "Run_iteration L J cfg now still ready s0 = None \<longleftrightarrow>
    m_running (con_of s0) \<and> still \<and> (\<exists>con met d e cl.
      EnsureConnected L cfg (con_of s0, met_of s0) = (True, con, met) \<and>
      Consume L 1000 '''' (m_client con) = (Some d, e, cl) \<and> EnvelopeFromString J (body d) = None)"
proof -
  have "consumer_cache s0" by (rule consumer_run_cache [OF consumer_start_cache [OF assms(1)] assms(2)])
  then have inv: "lru_inv (m_idempotency (con_of s0))" by (simp add: consumer_cache_def)
  obtain b con met r late where s0: "s0 = (b, con, met, r, late)" by (metis prod.exhaust)
  from s0 show ?thesis
  proof (cases rule: consumer_cases [where L = L and J = J and cfg = cfg and now = now
        and still = still and ready = ready])
    case (delivery con1 met1 d e cl)
    note frame = consumer_connect_frame [OF delivery(3)]
    let ?con = "con1\<lparr>m_client := cl\<rparr>"
    obtain fr i where T: "\<And>k. \<exists>fr i. TryMark k now (m_idempotency ?con) = Some (fr, i)"
      using lru.mark_defined [OF inv] frame(1) s0 by fastforce
    have crash: "fate_of J (body d) now (m_idempotency ?con) = Crash \<longleftrightarrow> EnvelopeFromString J (body d) = None"
      using T by (auto simp: fate_of_def split: option.splits sum.splits prod.splits)
         (metis option.distinct(1))
    have "process_delivery L J now ready d (mq_reconnect_initial_backoff_ms cfg, ?con, met1, r, late) = None
        \<longleftrightarrow> EnvelopeFromString J (body d) = None"
    proof (cases "fate_of J (body d) now (m_idempotency ?con)")
      case Crash
      with process_fate(1) [OF Crash refl] crash show ?thesis by blast
    next
      case Malformed
      with process_fate(2) [OF Malformed refl] crash show ?thesis by (metis fate.distinct(1) option.distinct(1))
    next
      case (Duplicate i)
      with process_fate(3) [OF Duplicate refl] crash show ?thesis by (metis fate.distinct(3) option.distinct(1))
    next
      case (Fresh env i)
      with process_fate(4) [OF Fresh refl] crash show ?thesis by (metis fate.distinct(5) option.distinct(1))
    qed
    with delivery show ?thesis by (simp add: s0)
  qed (auto simp: s0)
qed

section \<open>The connection of the consumer\<close>

lemma consumer_connect_inv:
  assumes "amqp_inv L (m_client con)" "EnsureConnected L cfg (con, met) = (ok, con', met')"
  shows "amqp_inv L (m_client con') \<and> m_connected (m_client con') = ok"
proof (cases "m_connected (m_client con)")
  case True
  with assms show ?thesis by (simp add: EnsureConnected_def)
next
  case False
  obtain ok1 err1 cl1 where 1: "Connect L cfg '''' (m_client con) = (ok1, err1, cl1)"
    by (rule prod_cases3)
  note c1 = Connect_keeps [OF assms(1) 1]
  obtain ok2 err2 cl2 where 2: "OpenChannel L (word_of_int (mq_consumer_prefetch cfg)) err1 cl1 = (ok2, err2, cl2)"
    by (rule prod_cases3)
  note c2 = OpenChannel_uses_only [OF _ 2]
  obtain ok3 err3 cl3 where 3: "DeclareForConsumer L err2 cl2 = (ok3, err3, cl3)"
    by (rule prod_cases3)
  note c3 = topology_uses_only(2) [OF _ _ 3]
  obtain ok4 err4 cl4 where 4: "StartConsume L (mq_consumer_queue cfg) (mq_consumer_tag cfg)
      (mq_consumer_auto_ack cfg) err3 cl3 = (ok4, err4, cl4)"
    by (rule prod_cases3)
  note c4 = StartConsume_uses_only [OF _ _ 4]
  from False 1 2 3 4 assms(2) have "m_client con' =
      (if \<not> ok1 then cl1 else if \<not> ok2 then Close L cl2 else if \<not> ok3 then Close L cl3
       else if \<not> ok4 then Close L cl4 else cl4)" "ok = (ok1 \<and> ok2 \<and> ok3 \<and> ok4)"
    by (auto simp: EnsureConnected_def split: if_splits)
  with c1 c2 c3 c4 Close_inv show ?thesis
    by (cases ok1; cases ok2; cases ok3; cases ok4) (simp_all add: uses_only_def)
qed

lemma settle_inv:
  assumes "amqp_inv L cl" "m_conn cl \<noteq> None" "settle L r tag ty cl met = (cl', met')"
  shows "amqp_inv L cl'"
proof -
  obtain ok1 e1 cl1 where 1: "Ack L tag [] cl = (ok1, e1, cl1)" by (rule prod_cases3)
  obtain ok2 e2 cl2 where 2: "Nack L tag True [] cl = (ok2, e2, cl2)" by (rule prod_cases3)
  obtain ok3 e3 cl3 where 3: "Nack L tag False [] cl = (ok3, e3, cl3)" by (rule prod_cases3)
  have "amqp_inv L cl1" "amqp_inv L cl2" "amqp_inv L cl3"
    using Ack_uses_only [OF assms(1,2) 1] Nack_uses_only [OF assms(1,2) 2] Nack_uses_only [OF assms(1,2) 3]
    by (simp_all add: uses_only_def)
  with assms(3) Close_inv show ?thesis
    by (cases r) (auto simp: settle_def 1 2 3)
qed

lemma process_inv:
  assumes "amqp_inv L (m_client con)" "m_conn (m_client con) \<noteq> None"
    and "process_delivery L J now ready d (b, con, met, r, late) = Some s'"
  shows "amqp_inv L (m_client (con_of s'))"
proof -
  obtain ok e cl where a: "Ack L (delivery_tag d) [] (m_client con) = (ok, e, cl)" by (rule prod_cases3)
  have ack: "amqp_inv L cl" using Ack_uses_only [OF assms(1,2) a] by (simp add: uses_only_def)
  have settle: "amqp_inv L cl'"
    if "settle L res (delivery_tag d) ty (m_client con) met1 = (cl', met2)" for res ty met1 cl' met2
    by (rule settle_inv [OF assms(1,2) that])
  show ?thesis
    using assms(3) ack settle
    by (auto simp: process_delivery_def a Let_def split: option.splits sum.splits bool.splits prod.splits)
qed

datatype ('j, 'r) consumer_op =
    ConStart "nat option" "('j, ChatMetrics \<times> 'r) handler option"
  | ConIterate consumer_input
  | ConStop

fun consumer_exec ::
  "amqp_lib \<Rightarrow> 'j json_lib \<Rightarrow> RabbitMqConfig \<Rightarrow> ('j, 'r) consumer_op \<Rightarrow> ('j, 'r) consumer_state option
     \<Rightarrow> ('j, 'r) consumer_state option" where
  "consumer_exec L J cfg (ConStart sched h) s = map_option (Start cfg sched h) s"
| "consumer_exec L J cfg (ConIterate i) s = Option.bind s (consumer_step L J cfg i)"
| "consumer_exec L J cfg ConStop s = map_option (Stop L) s"

definition consumer_inv :: "amqp_lib \<Rightarrow> ('j, 'r) consumer_state option \<Rightarrow> bool" where
  "consumer_inv L s \<longleftrightarrow> (case s of None \<Rightarrow> True | Some s \<Rightarrow> amqp_inv L (m_client (con_of s)))"

lemma consumer_step_inv:
  fixes s :: "('j, 'r) consumer_state"
  assumes inv: "amqp_inv L (m_client (con_of s))" and step: "consumer_step L J cfg (now, still, ready) s = Some s'"
  shows "amqp_inv L (m_client (con_of s'))"
proof -
  obtain b con met r late where s: "s = (b, con, met, r, late)" by (metis prod.exhaust)
  have inv': "amqp_inv L (m_client con)" using inv by (simp add: s)
  have run: "Run_iteration L J cfg now still ready s = Some s'" using step by (simp add: consumer_step_def)
  have got: "amqp_inv L cl \<and> m_conn cl \<noteq> None"
    if "EnsureConnected L cfg (con, met) = (True, con1, met1)" "Consume L 1000 '''' (m_client con1) = (g, e, cl)"
    for con1 met1 g e cl
  proof -
    from consumer_connect_inv [OF inv' that(1)]
    have 1: "amqp_inv L (m_client con1)" "m_conn (m_client con1) \<noteq> None" by (simp_all add: amqp_inv_def)
    from Consume_uses_only [OF 1 that(2)] 1(2) show ?thesis by (simp add: uses_only_def)
  qed
  from s show ?thesis
  proof (cases rule: consumer_cases [where L = L and J = J and cfg = cfg and now = now
        and still = still and ready = ready])
    case idle
    with run inv show ?thesis by simp
  next
    case (unconnected con1 met1)
    with run consumer_connect_inv [OF inv' unconnected(2)] show ?thesis by auto
  next
    case (undelivered con1 met1 g e cl)
    with run got [OF undelivered(2,3)] Close_inv show ?thesis by auto
  next
    case (delivery con1 met1 d e cl)
    with run have "process_delivery L J now ready d
        (mq_reconnect_initial_backoff_ms cfg, con1\<lparr>m_client := cl\<rparr>, met1, r, late) = Some s'" by simp
    from process_inv [OF _ _ this] got [OF delivery(3,4)] show ?thesis by simp
  qed
qed

interpretation consumer_conn: preserved "consumer_exec L J cfg" "consumer_inv L" for L J cfg
proof
  fix s :: "('a, 'b) consumer_state option" and x :: "('a, 'b) consumer_op"
  assume inv: "consumer_inv L s"
  show "consumer_inv L (consumer_exec L J cfg x s)"
  proof (cases s)
    case None
    then show ?thesis by (cases x) (simp_all add: consumer_inv_def)
  next
    case (Some u)
    with inv have i: "amqp_inv L (m_client (con_of u))" by (simp add: consumer_inv_def)
    show ?thesis
    proof (cases x)
      case (ConIterate c)
      obtain now still ready where c: "c = (now, still, ready)" by (rule prod_cases3)
      from consumer_step_inv [OF i, of J cfg now still ready] show ?thesis
        by (auto simp: Some ConIterate c consumer_inv_def split: option.splits)
    qed (use i Close_inv in \<open>auto simp: Some consumer_inv_def Start_def Stop_def con_of_def split: prod.splits\<close>)
  qed
qed

text \<open>
  The consumer, too, uses the C library by its rules in every history of starts, iterations and stops:
  no second connection, no call on a null or destroyed one, no double destruction, and none is left
  after a stop.
\<close>

theorem consumer_protocol:
  assumes "consumer_start s0" "fold (consumer_exec L J cfg) xs (Some s0) = Some s"
  shows "live L (calls (m_client (con_of s))) = Some (m_conn (m_client (con_of s))) \<and>
    (m_connected (m_client (con_of s)) \<longrightarrow> m_conn (m_client (con_of s)) \<noteq> None) \<and>
    (m_running (con_of s) \<longrightarrow> m_conn (m_client (con_of (Stop L s))) = None)"
proof -
  have "consumer_inv L (Some s0)"
    using assms(1) by (simp add: consumer_inv_def consumer_start_def new_AmqpClient_inv)
  from consumer_conn.run [OF this, of J cfg xs] assms(2) have "amqp_inv L (m_client (con_of s))"
    by (simp add: consumer_inv_def)
  then show ?thesis
    by (auto simp: amqp_inv_def Stop_def con_of_def split: prod.splits)
qed

section \<open>Witnesses\<close>

text \<open>
  A broker that delivers one well-formed message over and over, and a handler that counts its calls
  and asks for a requeue.
\<close>

definition one_message :: amqp_lib where
  "one_message = accepting \<lparr>ev_delivery_tag = 7, ev_routing_key = ''chat.x'', ev_body = ''E'', ev_message_id = None\<rparr>"

definition one_json :: "json json_lib" where
  "one_json = ref_json [(''E'', JObj [(''msgId'', JStr ''m''), (''version'', JInt 1), (''type'', JStr ''x'')])]"

definition one_env :: "json Envelope" where
  "one_env = \<lparr>msg_id = ''m'', version = 1, occurred_at = [], source = [], env_type = ''x'', payload = JObj []\<rparr>"

definition counting :: "(json, ChatMetrics \<times> nat) handler" where
  "counting env = (\<lambda>(met, n). (Some NACK_REQUEUE, (met, Suc n)))"

definition default_mq :: RabbitMqConfig where
  "default_mq = m_rabbitmq (read_config (\<lambda>_. None) default_vars)"

definition counting_start :: "(json, string list \<times> nat) consumer_state" where
  "counting_start =
     (0, new_MqConsumer\<lparr>m_running := True, m_handler := Some (recording counting)\<rparr>, new_ChatMetrics, ([], 0), [])"

lemma one_env_parsed: "EnvelopeFromString one_json ''E'' = Some (Inr one_env)"
  by (simp add: EnvelopeFromString_def EnvelopeFromJson_def one_json_def one_env_def ref_json_defs Let_def)

lemma counting_start_ok: "consumer_start counting_start"
  by (simp add: consumer_start_def counting_start_def new_MqConsumer_def)

lemma one_message_connects:
  assumes "m_client con = new_AmqpClient"
  obtains con1 where "EnsureConnected one_message default_mq (con, met) = (True, con1, met)"
    "m_connected (m_client con1)" "m_client con1 = m_client con1"
  by (rule that [of "fst (snd (EnsureConnected one_message default_mq (con, met)))"])
    (simp_all add: EnsureConnected_def assms new_AmqpClient_def Connect_def Close_def issue_def Let_def
      one_message_def accepting_def OpenChannel_def and_then_def CheckRpcReply_def
      DeclareForConsumer_def DeclareChatTopology_def declare_exchange_def declare_queue_def
      bind_queue_def StartConsume_def)

lemma one_message_delivers:
  "\<exists>cl. Consume one_message 1000 '''' c =
     (Some \<lparr>delivery_tag = 7, routing_key = ''chat.x'', body = ''E'', message_id = []\<rparr>, '''', cl) \<and>
     m_connected cl = m_connected c"
  by (simp add: Consume_def Let_def one_message_def accepting_def issue_def)

lemma accept_settles:
  "\<exists>cl'. settle one_message r tag ty cl met = (cl', IncMqConsume ty (if r = ACK then ''ok'' else ''fail'') met) \<and>
     m_connected cl' = m_connected cl"
  "\<exists>cl'. Ack one_message tag [] cl = (True, [], cl') \<and> m_connected cl' = m_connected cl"
  by (cases r) (simp_all add: settle_def Ack_def Nack_def Let_def one_message_def accepting_def issue_def)

lemma fresh_cache: "\<exists>i. TryMark ''m'' 0 (LruIdempotencyCache 100000 86400000) = Some (True, i)"
  using TryMark_accepts_iff [OF lru_inv_new, of "''m''" 0 100000 86400000]
  by (simp add: is_live_def nodes_def LruIdempotencyCache_def)

lemma counting_first:
  obtains con1 e cl i s1 where
    "EnsureConnected one_message default_mq (con_of counting_start, met_of counting_start) = (True, con1, new_ChatMetrics)"
    "Consume one_message 1000 '''' (m_client con1) =
       (Some \<lparr>delivery_tag = 7, routing_key = ''chat.x'', body = ''E'', message_id = []\<rparr>, e, cl)"
    "fate_of one_json ''E'' 0 (m_idempotency (con_of counting_start)) = Fresh one_env i"
    "DispatchToScheduler (con_of counting_start) True one_env (new_ChatMetrics, [], 0) =
       (NACK_REQUEUE, (new_ChatMetrics, [''m''], 1), [])"
    "Run_iteration one_message one_json default_mq 0 True True counting_start = Some s1"
    "m_running (con_of s1)" "m_connected (m_client (con_of s1))"
proof -
  let ?con = "new_MqConsumer\<lparr>m_running := True, m_handler := Some (recording counting)\<rparr>
    :: (json, ChatMetrics \<times> string list \<times> nat) MqConsumer"
  obtain con1 where c1: "EnsureConnected one_message default_mq (?con, new_ChatMetrics) = (True, con1, new_ChatMetrics)"
    "m_connected (m_client con1)"
    using one_message_connects [of ?con new_ChatMetrics] by (auto simp: new_MqConsumer_def)
  note frame = consumer_connect_frame [OF c1(1)]
  obtain cl where got: "Consume one_message 1000 '''' (m_client con1) =
     (Some \<lparr>delivery_tag = 7, routing_key = ''chat.x'', body = ''E'', message_id = []\<rparr>, '''', cl)"
    "m_connected cl" using one_message_delivers [of "m_client con1"] c1(2) by auto
  obtain i where i: "TryMark ''m'' 0 (LruIdempotencyCache 100000 86400000) = Some (True, i)"
    using fresh_cache by blast
  have fate: "fate_of one_json ''E'' 0 (m_idempotency (con_of counting_start)) = Fresh one_env i"
    using i by (simp add: fate_of_def one_env_parsed counting_start_def new_MqConsumer_def one_env_def)
  have disp: "DispatchToScheduler (con_of counting_start) True one_env (new_ChatMetrics, [], 0) =
       (NACK_REQUEUE, (new_ChatMetrics, [''m''], 1), [])"
    by (simp add: DispatchToScheduler_def counting_start_def new_MqConsumer_def run_handler_def counting_def
        recording_def one_env_def)
  obtain cl' where st: "settle one_message NACK_REQUEUE 7 ''x'' cl new_ChatMetrics =
      (cl', IncMqConsume ''x'' ''fail'' new_ChatMetrics)" "m_connected cl'"
    using accept_settles(1) [of NACK_REQUEUE 7 "''x''" cl new_ChatMetrics] got(2) by auto
  let ?s1 = "(mq_reconnect_initial_backoff_ms default_mq,
      con1\<lparr>m_client := cl, m_idempotency := i, m_client := cl'\<rparr>,
      IncMqConsume ''x'' ''fail'' new_ChatMetrics, ([''m''], 1), [])"
  have "Run_iteration one_message one_json default_mq 0 True True counting_start = Some ?s1"
    using c1 got i st frame
    by (simp add: Run_iteration_def counting_start_def process_delivery_def one_env_parsed
        new_MqConsumer_def DispatchToScheduler_def run_handler_def counting_def recording_def one_env_def Let_def)
  from that [OF _ got(1) fate disp this] c1 st(2) frame show ?thesis
    by (simp add: counting_start_def)
qed

theorem consumer_answers_witness:
  "\<exists>s1. Run_iteration one_message one_json default_mq 0 True True counting_start = Some s1 \<and>
    rest_of s1 = ([''m''], 1) \<and> hd (answers (m_client (con_of s1))) = (7, Requeued)"
proof (rule counting_first)
  fix con1 e cl i s1
  assume 1: "EnsureConnected one_message default_mq (con_of counting_start, met_of counting_start) = (True, con1, new_ChatMetrics)"
    and 2: "Consume one_message 1000 '''' (m_client con1) =
       (Some \<lparr>delivery_tag = 7, routing_key = ''chat.x'', body = ''E'', message_id = []\<rparr>, e, cl)"
    and 3: "fate_of one_json ''E'' 0 (m_idempotency (con_of counting_start)) = Fresh one_env i"
    and 4: "DispatchToScheduler (con_of counting_start) True one_env (new_ChatMetrics, [], 0) =
       (NACK_REQUEUE, (new_ChatMetrics, [''m''], 1), [])"
  have r: "m_running (con_of counting_start)" "rest_of counting_start = ([], 0)" by (simp_all add: counting_start_def)
  from consumer_answers [OF r(1) 1 2 refl, of one_json 0 True] 3 4 r(2)
  show ?thesis by (auto simp: verdict_of_def)
qed

text \<open>The broker redelivers the message to the next iteration.\<close>

lemma counting_second:
  obtains s1 s2 where "Run_iteration one_message one_json default_mq 0 True True counting_start = Some s1"
    "rest_of s1 = ([''m''], 1)" "late_of s1 = []"
    "Run_iteration one_message one_json default_mq 5 True True s1 = Some s2"
proof (rule counting_first)
  fix con1 e cl i s1
  assume 1: "EnsureConnected one_message default_mq (con_of counting_start, met_of counting_start) = (True, con1, new_ChatMetrics)"
    and 2: "Consume one_message 1000 '''' (m_client con1) =
       (Some \<lparr>delivery_tag = 7, routing_key = ''chat.x'', body = ''E'', message_id = []\<rparr>, e, cl)"
    and 3: "fate_of one_json ''E'' 0 (m_idempotency (con_of counting_start)) = Fresh one_env i"
    and 4: "DispatchToScheduler (con_of counting_start) True one_env (new_ChatMetrics, [], 0) =
       (NACK_REQUEUE, (new_ChatMetrics, [''m''], 1), [])"
    and run: "Run_iteration one_message one_json default_mq 0 True True counting_start = Some s1"
    and s1: "m_running (con_of s1)" "m_connected (m_client (con_of s1))"
  obtain b con met r late where t: "s1 = (b, con, met, r, late)" by (metis prod.exhaust)
  obtain cl2 where got: "Consume one_message 1000 '''' (m_client con) =
      (Some \<lparr>delivery_tag = 7, routing_key = ''chat.x'', body = ''E'', message_id = []\<rparr>, '''', cl2)"
    using one_message_delivers by blast
  have "consumer_cache s1"
    by (rule consumer_step_cache [OF consumer_start_cache [OF counting_start_ok], of one_message one_json default_mq "(0, True, True)"])
      (simp add: consumer_step_def run)
  then obtain fresh i2 where "TryMark ''m'' 5 (m_idempotency con) = Some (fresh, i2)"
    using lru.mark_defined by (metis consumer_cache_def consumer_parts(1) t)
  with s1 got one_env_parsed have "Run_iteration one_message one_json default_mq 5 True True s1 \<noteq> None"
    by (cases fresh) (auto simp: t Run_iteration_def EnsureConnected_def process_delivery_def one_env_def Let_def split: prod.splits)
  moreover have "rest_of s1 = ([''m''], 1)" "late_of s1 = []"
    using consumer_answers [OF _ 1 2 refl, of one_json 0 True] 3 4 run by (auto simp: counting_start_def)
  ultimately show ?thesis using that run by blast
qed

theorem consumer_handles_once_witness:
  "\<exists>s1 s2. Run_iteration one_message one_json default_mq 0 True True counting_start = Some s1 \<and>
    Run_iteration one_message one_json default_mq 5 True True s1 = Some s2 \<and>
    handed_over ''m'' s1 = 1 \<and> handed_over ''m'' s2 = 1"
proof (rule counting_second)
  fix s1 s2
  assume 1: "Run_iteration one_message one_json default_mq 0 True True counting_start = Some s1"
      "rest_of s1 = ([''m''], 1)" "late_of s1 = []"
    and 2: "Run_iteration one_message one_json default_mq 5 True True s1 = Some s2"
  have step: "consumer_step one_message one_json default_mq (0, True, True) counting_start = Some s1"
    and run: "consumer_run one_message one_json default_mq [(5, True, True)] s1 = Some s2"
    using 1 2 by (simp_all add: consumer_step_def)
  have h: "m_handler (con_of counting_start) = Some (recording counting)" by (simp add: counting_start_def)
  have n: "handed_over ''m'' counting_start = 0" "handed_over ''m'' s1 = 1"
    using 1 by (simp_all add: handed_over_def counting_start_def)
  from consumer_handles_once [OF counting_start_ok h consumer_run.simps(1) step _ _ _ _ _ run, of "''m''"] n
  have "handed_over ''m'' s2 = 1" by simp
  with n 1 2 show ?thesis by blast
qed

theorem requeued_message_lost_witness:
  "\<exists>s1 s2. Run_iteration one_message one_json default_mq 0 True True counting_start = Some s1 \<and>
    Run_iteration one_message one_json default_mq 5 True True s1 = Some s2 \<and> rest_of s2 = rest_of s1 \<and>
    hd (answers (m_client (con_of s1))) = (7, Requeued) \<and> hd (answers (m_client (con_of s2))) = (7, Acked)"
proof (rule counting_first)
  fix con1 e cl i s1
  assume 1: "EnsureConnected one_message default_mq (con_of counting_start, met_of counting_start) = (True, con1, new_ChatMetrics)"
    and 2: "Consume one_message 1000 '''' (m_client con1) =
       (Some \<lparr>delivery_tag = 7, routing_key = ''chat.x'', body = ''E'', message_id = []\<rparr>, e, cl)"
    and 3: "fate_of one_json ''E'' 0 (m_idempotency (con_of counting_start)) = Fresh one_env i"
    and 4: "DispatchToScheduler (con_of counting_start) True one_env (new_ChatMetrics, [], 0) =
       (NACK_REQUEUE, (new_ChatMetrics, [''m''], 1), [])"
    and run: "Run_iteration one_message one_json default_mq 0 True True counting_start = Some s1"
    and s1: "m_running (con_of s1)" "m_connected (m_client (con_of s1))"
  have r: "m_running (con_of counting_start)" "rest_of counting_start = ([], 0)" by (simp_all add: counting_start_def)
  have e1: "EnsureConnected one_message default_mq (con_of s1, met_of s1) = (True, con_of s1, met_of s1)"
    using s1(2) by (simp add: EnsureConnected_def)
  obtain cl1 where c1: "Consume one_message 1000 '''' (m_client (con_of s1)) =
     (Some \<lparr>delivery_tag = 7, routing_key = ''chat.x'', body = ''E'', message_id = []\<rparr>, '''', cl1)"
    using one_message_delivers by blast
  show ?thesis
    using requeued_message_lost [OF consumer_start_cache [OF counting_start_ok] r(1) 1 2 _ _ run s1(1) e1 c1,
        where env = one_env and idem = i and sr = "(new_ChatMetrics, [''m''], 1)" and ?late0.0 = "[]" and ?t1.0 = 5
          and ?ready1.0 = True] 3 4 r(2) run
    by (auto simp del: split_paired_Ex)
qed

theorem consumer_crash_iff_witness:
  "Run_iteration one_message one_json default_mq 0 True True counting_start \<noteq> None"
proof (rule counting_first)
  fix con1 e cl
  assume 1: "EnsureConnected one_message default_mq (con_of counting_start, met_of counting_start) = (True, con1, new_ChatMetrics)"
    and 2: "Consume one_message 1000 '''' (m_client con1) =
       (Some \<lparr>delivery_tag = 7, routing_key = ''chat.x'', body = ''E'', message_id = []\<rparr>, e, cl)"
  show ?thesis
    using consumer_crash_iff [OF counting_start_ok consumer_run.simps(1), of one_message one_json default_mq 0 True True]
      1 2 one_env_parsed by auto
qed

theorem consumer_protocol_witness:
  "\<exists>s. fold (consumer_exec one_message one_json default_mq) [ConIterate (0, True, True)] (Some counting_start) = Some s \<and>
    live one_message (calls (m_client (con_of s))) = Some (m_conn (m_client (con_of s)))"
proof (rule counting_first)
  fix s1
  assume "Run_iteration one_message one_json default_mq 0 True True counting_start = Some s1"
  then have f: "fold (consumer_exec one_message one_json default_mq) [ConIterate (0, True, True)] (Some counting_start) = Some s1"
    by (simp add: consumer_step_def)
  from consumer_protocol [OF counting_start_ok f] f show ?thesis by blast
qed

end
