(* ===== verification/Mq_To_Ws.thy ===== *)
theory Mq_To_Ws
  imports Ws_To_Mq Consumer
begin

text \<open>
  \<open>chat/dispatch/mq_to_ws.{h,cc}\<close>: what the service does with a message from the broker. Each handler
  returns its \<open>ConsumeResult\<close>, or \<open>None\<close> for an exception of the JSON accessors, and the state: what was
  pushed before the exception stays pushed. A \<open>std::set\<close> of user ids that is iterated is the sorted
  list of its elements, and one that is only asked for membership is a set. \<open>now_ms\<close> is the reading of
  \<open>NowMs()\<close>.
\<close>

text \<open>A frame for one connection: scheduled on the connection's IO manager, or sent at once without one.\<close>

definition push_conn ::
  "'j json_lib \<Rightarrow> string \<Rightarrow> 'j \<Rightarrow> bool \<Rightarrow> int \<Rightarrow> ptr \<Rightarrow> 'j service \<Rightarrow> 'j service" where
  "push_conn J type data has_seq seq c s =
     (if oc_session (sv_heap s c) = None then s
      else case oc_io_manager (sv_heap s c) of
             Some iom \<Rightarrow> schedule iom (PushTask c type data has_seq seq) s
           | None \<Rightarrow> send_push J c type data has_seq seq s)"

definition PushToUser :: "'j json_lib \<Rightarrow> u64 \<Rightarrow> string \<Rightarrow> 'j \<Rightarrow> 'j service \<Rightarrow> 'j service" where
  "PushToUser J uid type data s =
     fold (push_conn J type data False 0) (GetByUser uid (sv_registry s)) s"

text \<open>\<open>p.isMember(key) && p[key].isArray()\<close>: the array, if there is one.\<close>

definition array_member :: "'j json_lib \<Rightarrow> 'j \<Rightarrow> string \<Rightarrow> 'j option option" where
  "array_member J p key =
     do {
       has \<leftarrow> j_is_member J p key;
       if \<not> has then Some None
       else do { v \<leftarrow> j_member J p key; Some (if j_is_array J v then Some v else None) }
     }"

text \<open>The values that a loop over an array reads, unless one of its accessors throws.\<close>

fun read_all :: "('j \<Rightarrow> 'a option) \<Rightarrow> 'j option list \<Rightarrow> 'a list option" where
  "read_all f [] = Some []"
| "read_all f (v # vs) = do { x \<leftarrow> v; y \<leftarrow> f x; ys \<leftarrow> read_all f vs; Some (y # ys) }"

definition read_array :: "'j json_lib \<Rightarrow> ('j \<Rightarrow> u64 option) \<Rightarrow> 'j \<Rightarrow> string \<Rightarrow> u64 list option" where
  "read_array J f p key =
     do {
       a \<leftarrow> array_member J p key;
       case a of None \<Rightarrow> Some [] | Some v \<Rightarrow> read_all f (j_elems J v)
     }"

text \<open>The loop over a set of users.\<close>

definition push_users :: "'j json_lib \<Rightarrow> string \<Rightarrow> 'j \<Rightarrow> u64 list \<Rightarrow> 'j service \<Rightarrow> 'j service" where
  "push_users J type p users s =
     fold (\<lambda>u. if u > 0 then PushToUser J u type p else id) (sort (remdups users)) s"

definition answer_sender ::
  "'j json_lib \<Rightarrow> string \<Rightarrow> int \<Rightarrow> PendingSend \<Rightarrow> 'j \<Rightarrow> ptr \<Rightarrow> 'j service \<Rightarrow> 'j service" where
  "answer_sender J client_msg_id mid pending p c s =
     (if oc_session (sv_heap s c) = None then s
      else if oc_device_id (sv_heap s c) = ps_sender_device_id pending
      then let resp = j_null J;
               resp = j_set J resp ''clientMsgId'' (j_string J client_msg_id);
               resp = j_set J resp ''code'' (j_int J 200);
               resp = j_set J resp ''messageId'' (j_int J mid)
           in push_conn J ''msg.send.resp'' resp (ps_has_seq pending) (ps_seq pending) c s
      else push_conn J ''msg.new'' p False 0 c s)"

fun push_receivers ::
  "'j json_lib \<Rightarrow> 'j \<Rightarrow> u64 \<Rightarrow> 'j option list \<Rightarrow> u64 set \<Rightarrow> 'j service \<Rightarrow> ConsumeResult option \<times> 'j service"
where
  "push_receivers J p sender_id [] pushed s = (Some ACK, s)"
| "push_receivers J p sender_id (v # vs) pushed s =
     (case do { x \<leftarrow> v; j_as_uint64 J x } of
        None \<Rightarrow> (None, s)
      | Some uid \<Rightarrow>
          if uid = 0 \<or> uid = sender_id then push_receivers J p sender_id vs pushed s
          else if uid \<notin> pushed
          then push_receivers J p sender_id vs (insert uid pushed) (PushToUser J uid ''msg.new'' p s)
          else push_receivers J p sender_id vs pushed s)"

definition OnChatMsgSend ::
  "'j json_lib \<Rightarrow> int \<Rightarrow> 'j Envelope \<Rightarrow> 'j service \<Rightarrow> ConsumeResult option \<times> 'j service" where
  "OnChatMsgSend J now_ms env s =
     (let p = payload env
      in case do {
                client_msg_id \<leftarrow> get_string J p ''clientMsgId'';
                mid \<leftarrow> get_int64 J p ''messageId'';
                sender_id \<leftarrow> get_uint64 J p ''senderId'';
                Some (client_msg_id, mid, sender_id)
              } of
           None \<Rightarrow> (None, s)
         | Some (client_msg_id, mid, sender_id) \<Rightarrow>
             (case TakePending client_msg_id s of (pending, s) \<Rightarrow>
                let s = (case pending of
                           None \<Rightarrow> s
                         | Some pend \<Rightarrow>
                             let latency = word_of_int (i64 (now_ms - ps_created_ms pend));
                                 s = count_metric (ObserveMsgSendLatencyMs latency) s
                             in fold (answer_sender J client_msg_id mid pend p)
                                  (GetByUser sender_id (sv_registry s)) s)
                in case array_member J p ''receivers'' of
                     None \<Rightarrow> (None, s)
                   | Some None \<Rightarrow> (Some ACK, s)
                   | Some (Some a) \<Rightarrow> push_receivers J p sender_id (j_elems J a) {} s))"

definition OnChatMsgReplay ::
  "'j json_lib \<Rightarrow> 'j Envelope \<Rightarrow> 'j service \<Rightarrow> ConsumeResult option \<times> 'j service" where
  "OnChatMsgReplay J env s =
     (case get_uint64 J (payload env) ''targetUserId'' of
        None \<Rightarrow> (None, s)
      | Some target \<Rightarrow>
          if target = 0 then (Some NACK_DROP, s)
          else (Some ACK, PushToUser J target ''msg.replay'' (payload env) s))"

definition OnChatMsgRecall ::
  "'j json_lib \<Rightarrow> 'j Envelope \<Rightarrow> 'j service \<Rightarrow> ConsumeResult option \<times> 'j service" where
  "OnChatMsgRecall J env s =
     (let p = payload env
      in case do {
                operator_id \<leftarrow> get_uint64 J p ''operatorId'';
                receivers \<leftarrow> read_array J (j_as_uint64 J) p ''receivers'';
                Some ((if operator_id > 0 then [operator_id] else []) @ receivers)
              } of
           None \<Rightarrow> (None, s)
         | Some users \<Rightarrow> (Some ACK, push_users J ''msg.recall'' p users s))"

definition OnFriendRequest ::
  "'j json_lib \<Rightarrow> 'j Envelope \<Rightarrow> 'j service \<Rightarrow> ConsumeResult option \<times> 'j service" where
  "OnFriendRequest J env s =
     (case get_uint64 J (payload env) ''toUserId'' of
        None \<Rightarrow> (None, s)
      | Some to_uid \<Rightarrow>
          if to_uid = 0 then (Some NACK_DROP, s)
          else (Some ACK, PushToUser J to_uid ''friend.request'' (payload env) s))"

definition OnFriendAccept ::
  "'j json_lib \<Rightarrow> 'j Envelope \<Rightarrow> 'j service \<Rightarrow> ConsumeResult option \<times> 'j service" where
  "OnFriendAccept J env s =
     (let p = payload env
      in case do {
                from_uid \<leftarrow> get_uint64 J p ''fromUserId'';
                to_uid \<leftarrow> get_uint64 J p ''toUserId'';
                Some (from_uid, to_uid)
              } of
           None \<Rightarrow> (None, s)
         | Some (from_uid, to_uid) \<Rightarrow>
             let s = (if from_uid > 0 then PushToUser J from_uid ''friend.accept'' p s else s);
                 s = (if to_uid > 0 \<and> to_uid \<noteq> from_uid
                      then PushToUser J to_uid ''friend.accept'' p s else s)
             in (Some ACK, s))"

fun push_members ::
  "'j json_lib \<Rightarrow> 'j \<Rightarrow> 'j option list \<Rightarrow> 'j service \<Rightarrow> ConsumeResult option \<times> 'j service" where
  "push_members J p [] s = (Some ACK, s)"
| "push_members J p (v # vs) s =
     (case do { x \<leftarrow> v; j_as_uint64 J x } of
        None \<Rightarrow> (None, s)
      | Some uid \<Rightarrow>
          push_members J p vs (if uid > 0 then PushToUser J uid ''conversation.created'' p s else s))"

definition OnConversationCreated ::
  "'j json_lib \<Rightarrow> 'j Envelope \<Rightarrow> 'j service \<Rightarrow> ConsumeResult option \<times> 'j service" where
  "OnConversationCreated J env s =
     (case array_member J (payload env) ''memberIds'' of
        None \<Rightarrow> (None, s)
      | Some None \<Rightarrow> (Some NACK_DROP, s)
      | Some (Some a) \<Rightarrow> push_members J (payload env) (j_elems J a) s)"

definition OnConversationMemberChanged ::
  "'j json_lib \<Rightarrow> 'j Envelope \<Rightarrow> 'j service \<Rightarrow> ConsumeResult option \<times> 'j service" where
  "OnConversationMemberChanged J env s =
     (let p = payload env
      in case do {
                added \<leftarrow> read_array J (j_as_uint64 J) p ''addedIds'';
                removed \<leftarrow> read_array J (j_as_uint64 J) p ''removedIds'';
                changed \<leftarrow> read_array J (\<lambda>v. get_uint64 J v ''userId'') p ''roleChanges'';
                Some (added @ removed @ changed)
              } of
           None \<Rightarrow> (None, s)
         | Some users \<Rightarrow> (Some ACK, push_users J ''conversation.member_changed'' p users s))"

definition OnEnvelope ::
  "'j json_lib \<Rightarrow> int \<Rightarrow> 'j Envelope \<Rightarrow> 'j service \<Rightarrow> ConsumeResult option \<times> 'j service" where
  "OnEnvelope J now_ms env s =
     (if env_type env = ''chat.msg.send'' then OnChatMsgSend J now_ms env s
      else if env_type env = ''chat.msg.replay'' then OnChatMsgReplay J env s
      else if env_type env = ''chat.msg.recall'' then OnChatMsgRecall J env s
      else if env_type env = ''chat.friend.request'' then OnFriendRequest J env s
      else if env_type env = ''chat.friend.accept'' then OnFriendAccept J env s
      else if env_type env = ''chat.conversation.created'' then OnConversationCreated J env s
      else if env_type env = ''chat.conversation.member_changed'' then OnConversationMemberChanged J env s
      else (Some ACK, s))"

section \<open>Pushes\<close>

text \<open>
  The frames that a handler sends out, as data: connection, type, data and sequence number. Every
  handler is shown to compute such a list from the message, the registry and the pending sends, and
  to deliver it.
\<close>

type_synonym 'j push = "ptr \<times> string \<times> 'j \<times> bool \<times> int"

definition deliver :: "'j json_lib \<Rightarrow> 'j push list \<Rightarrow> 'j service \<Rightarrow> 'j service" where
  "deliver J ps = fold (\<lambda>(c, type, data, has_seq, seq). push_conn J type data has_seq seq c) ps"

definition user_pushes :: "SessionRegistry \<Rightarrow> string \<Rightarrow> 'j \<Rightarrow> u64 \<Rightarrow> 'j push list" where
  "user_pushes r type data uid = map (\<lambda>c. (c, type, data, False, 0)) (GetByUser uid r)"

text \<open>The task and the effects of one push.\<close>

fun push_task :: "heap \<Rightarrow> 'j push \<Rightarrow> (nat \<times> 'j task) list" where
  "push_task h (c, type, data, has_seq, seq) =
     (case (oc_session (h c), oc_io_manager (h c)) of
        (Some _, Some iom) \<Rightarrow> [(iom, PushTask c type data has_seq seq)]
      | _ \<Rightarrow> [])"

fun push_effect :: "'j json_lib \<Rightarrow> heap \<Rightarrow> 'j push \<Rightarrow> effect list" where
  "push_effect J h (c, type, data, has_seq, seq) =
     (case (oc_session (h c), oc_io_manager (h c)) of
        (Some w, None) \<Rightarrow> [SendMessage w (frame_text J type data has_seq seq)]
      | _ \<Rightarrow> [])"

lemma push_conn_frame [state_simps]:
  "sv_heap (push_conn J type data hs sq c s) = sv_heap s" "sv_next (push_conn J type data hs sq c s) = sv_next s"
  "sv_registry (push_conn J type data hs sq c s) = sv_registry s"
  "sv_pending (push_conn J type data hs sq c s) = sv_pending s"
  "sv_publisher (push_conn J type data hs sq c s) = sv_publisher s"
  "sv_device_seq (push_conn J type data hs sq c s) = sv_device_seq s"
  "sv_tasks (push_conn J type data hs sq c s) = sv_tasks s @ push_task (sv_heap s) (c, type, data, hs, sq)"
  "sv_effects (push_conn J type data hs sq c s) = sv_effects s @ push_effect J (sv_heap s) (c, type, data, hs, sq)"
  by (simp_all add: push_conn_def send_push_def send_frame_perform state_simps split: option.split)

lemma deliver_simps [simp]:
  "deliver J [] s = s"
  "deliver J (p # ps) s = deliver J ps (case p of (c, type, data, hs, sq) \<Rightarrow> push_conn J type data hs sq c s)"
  "deliver J (ps @ qs) s = deliver J qs (deliver J ps s)"
  by (simp_all add: deliver_def split: prod.split)

lemma deliver_frame [state_simps]:
  "sv_heap (deliver J ps s) = sv_heap s" "sv_next (deliver J ps s) = sv_next s"
  "sv_registry (deliver J ps s) = sv_registry s" "sv_pending (deliver J ps s) = sv_pending s"
  "sv_publisher (deliver J ps s) = sv_publisher s" "sv_device_seq (deliver J ps s) = sv_device_seq s"
  "sv_tasks (deliver J ps s) = sv_tasks s @ concat (map (push_task (sv_heap s)) ps)"
  "sv_effects (deliver J ps s) = sv_effects s @ concat (map (push_effect J (sv_heap s)) ps)"
  by (induction ps arbitrary: s) (simp_all add: push_conn_frame split: prod.split)

lemma PushToUser_deliver: "PushToUser J uid type data s = deliver J (user_pushes (sv_registry s) type data uid) s"
  by (simp add: PushToUser_def deliver_def user_pushes_def fold_map comp_def)

text \<open>The users that a loop reads before an accessor throws, and those that it meets for the first time.\<close>

fun readable :: "('j \<Rightarrow> 'a option) \<Rightarrow> 'j option list \<Rightarrow> 'a list" where
  "readable f [] = []"
| "readable f (v # vs) = (case do { x \<leftarrow> v; f x } of None \<Rightarrow> [] | Some y \<Rightarrow> y # readable f vs)"

fun firsts :: "'a set \<Rightarrow> 'a list \<Rightarrow> 'a list" where
  "firsts A [] = []"
| "firsts A (x # xs) = (if x \<in> A then firsts A xs else x # firsts (insert x A) xs)"

lemma firsts_set: "set (firsts A xs) = set xs - A" "distinct (firsts A xs)"
  by (induction xs arbitrary: A) auto

lemma readable_all: "read_all f vs = Some ys \<Longrightarrow> readable f vs = ys"
  by (induction vs arbitrary: ys) (auto split: bind_splits option.splits)

lemma readable_set: "set (readable f vs) \<subseteq> {y. \<exists>x. Some x \<in> set vs \<and> f x = Some y}"
  by (induction vs) (auto split: bind_splits option.splits)

lemma read_all_set: "read_all f vs = Some ys \<Longrightarrow> set ys \<subseteq> {y. \<exists>x. Some x \<in> set vs \<and> f x = Some y}"
  using readable_set [of f vs] readable_all [of f vs ys] by simp

abbreviation push_each :: "SessionRegistry \<Rightarrow> string \<Rightarrow> 'j \<Rightarrow> u64 list \<Rightarrow> 'j push list" where
  "push_each r type data users \<equiv> concat (map (user_pushes r type data) users)"

lemma push_users_deliver:
  "push_users J type p users s =
     deliver J (push_each (sv_registry s) type p (filter (\<lambda>u. u > 0) (sort (remdups users)))) s"
proof -
  have "fold (\<lambda>u. if u > 0 then PushToUser J u type p else id) us s =
      deliver J (push_each (sv_registry s) type p (filter (\<lambda>u. u > 0) us)) s" for us
    by (induction us arbitrary: s) (simp_all add: PushToUser_deliver deliver_frame)
  then show ?thesis by (simp add: push_users_def)
qed

lemma push_receivers_deliver:
  "push_receivers J p sender vs pushed s =
     (if read_all (j_as_uint64 J) vs = None then None else Some ACK,
      deliver J (push_each (sv_registry s) ''msg.new'' p
        (firsts (insert 0 (insert sender pushed)) (readable (j_as_uint64 J) vs))) s)"
proof (induction vs arbitrary: pushed s)
  case Nil
  show ?case by simp
next
  case (Cons v vs)
  show ?case
  proof (cases "do { x \<leftarrow> v; j_as_uint64 J x }")
    case None
    then show ?thesis by (auto split: bind_splits)
  next
    case (Some u)
    have "insert u (insert 0 (insert sender pushed)) = insert 0 (insert sender (insert u pushed))" by auto
    with Cons Some show ?thesis
      by (auto simp: PushToUser_deliver deliver_frame split: bind_splits)
  qed
qed

lemma push_members_deliver:
  "push_members J p vs s =
     (if read_all (j_as_uint64 J) vs = None then None else Some ACK,
      deliver J (push_each (sv_registry s) ''conversation.created'' p
        (filter (\<lambda>u. u > 0) (readable (j_as_uint64 J) vs))) s)"
proof (induction vs arbitrary: s)
  case Nil
  show ?case by simp
next
  case (Cons v vs)
  then show ?case
    by (cases "do { x \<leftarrow> v; j_as_uint64 J x }")
      (auto simp: PushToUser_deliver deliver_frame split: bind_splits)
qed

definition sender_push ::
  "'j json_lib \<Rightarrow> heap \<Rightarrow> string \<Rightarrow> int \<Rightarrow> PendingSend \<Rightarrow> 'j \<Rightarrow> ptr \<Rightarrow> 'j push" where
  "sender_push J h client_msg_id mid pending p c =
     (if oc_device_id (h c) = ps_sender_device_id pending
      then (c, ''msg.send.resp'',
            j_set J (j_set J (j_set J (j_null J) ''clientMsgId'' (j_string J client_msg_id))
              ''code'' (j_int J 200)) ''messageId'' (j_int J mid),
            ps_has_seq pending, ps_seq pending)
      else (c, ''msg.new'', p, False, 0))"

lemma answer_senders_deliver:
  "fold (answer_sender J cid mid pend p) cs s = deliver J (map (sender_push J (sv_heap s) cid mid pend p) cs) s"
proof (induction cs arbitrary: s)
  case Nil
  show ?case by simp
next
  case (Cons c cs)
  have "answer_sender J cid mid pend p c s =
      (case sender_push J (sv_heap s) cid mid pend p c of (c, type, data, hs, sq) \<Rightarrow> push_conn J type data hs sq c s)"
    by (simp add: answer_sender_def sender_push_def push_conn_def Let_def)
  with Cons show ?case by (simp add: push_conn_frame split: prod.split)
qed

section \<open>The audience of a message\<close>

text \<open>
  The specification of the handlers other than \<open>OnChatMsgSend\<close>: the verdict and the users who get the
  frame, in order, as a function of the message alone.
\<close>

fun verdict_on :: "'a option \<Rightarrow> ('a \<Rightarrow> ConsumeResult \<times> u64 list) \<Rightarrow> ConsumeResult option \<times> u64 list" where
  "verdict_on None f = (None, [])"
| "verdict_on (Some x) f = (Some (fst (f x)), snd (f x))"

definition one_user :: "u64 \<Rightarrow> ConsumeResult \<times> u64 list" where
  "one_user u = (if u = 0 then (NACK_DROP, []) else (ACK, [u]))"

definition all_users :: "u64 list \<Rightarrow> ConsumeResult \<times> u64 list" where
  "all_users us = (ACK, filter (\<lambda>u. u > 0) (sort (remdups us)))"

definition audience :: "'j json_lib \<Rightarrow> string \<Rightarrow> 'j \<Rightarrow> ConsumeResult option \<times> u64 list" where
  "audience J type p =
     (if type = ''chat.msg.replay'' then verdict_on (get_uint64 J p ''targetUserId'') one_user
      else if type = ''chat.msg.recall'' then
        verdict_on (do { x \<leftarrow> get_uint64 J p ''operatorId''; us \<leftarrow> read_array J (j_as_uint64 J) p ''receivers'';
                         Some (x # us) }) all_users
      else if type = ''chat.friend.request'' then verdict_on (get_uint64 J p ''toUserId'') one_user
      else if type = ''chat.friend.accept'' then
        verdict_on (do { x \<leftarrow> get_uint64 J p ''fromUserId''; y \<leftarrow> get_uint64 J p ''toUserId''; Some (x, y) })
          (\<lambda>(x, y). (ACK, filter (\<lambda>u. u > 0) (if y = x then [x] else [x, y])))
      else if type = ''chat.conversation.created'' then
        (case array_member J p ''memberIds'' of
           None \<Rightarrow> (None, [])
         | Some None \<Rightarrow> (Some NACK_DROP, [])
         | Some (Some a) \<Rightarrow>
             (if read_all (j_as_uint64 J) (j_elems J a) = None then None else Some ACK,
              filter (\<lambda>u. u > 0) (readable (j_as_uint64 J) (j_elems J a))))
      else if type = ''chat.conversation.member_changed'' then
        verdict_on (do { xs \<leftarrow> read_array J (j_as_uint64 J) p ''addedIds'';
                         ys \<leftarrow> read_array J (j_as_uint64 J) p ''removedIds'';
                         zs \<leftarrow> read_array J (\<lambda>v. get_uint64 J v ''userId'') p ''roleChanges'';
                         Some (xs @ ys @ zs) }) all_users
      else (Some ACK, []))"

definition frame_type :: "string \<Rightarrow> string" where
  "frame_type type =
     (if type = ''chat.msg.replay'' then ''msg.replay'' else if type = ''chat.msg.recall'' then ''msg.recall''
      else if type = ''chat.friend.request'' then ''friend.request''
      else if type = ''chat.friend.accept'' then ''friend.accept''
      else if type = ''chat.conversation.created'' then ''conversation.created''
      else ''conversation.member_changed'')"

lemma filter_sort_zero:
  "filter (\<lambda>u::u64. u > 0) (sort (remdups (0 # us))) = filter (\<lambda>u. u > 0) (sort (remdups us))"
proof -
  have "filter (\<lambda>u. u > 0) (remdups (0 # us)) = filter (\<lambda>u. u > 0) (remdups us)" by simp
  then show ?thesis by (simp only: filter_sort)
qed

lemma Replay_audience:
  "OnChatMsgReplay J env s =
     (let (v, us) = verdict_on (get_uint64 J (payload env) ''targetUserId'') one_user
      in (v, deliver J (push_each (sv_registry s) ''msg.replay'' (payload env) us) s))"
  by (simp add: OnChatMsgReplay_def one_user_def PushToUser_deliver split: option.split)

lemma FriendRequest_audience:
  "OnFriendRequest J env s =
     (let (v, us) = verdict_on (get_uint64 J (payload env) ''toUserId'') one_user
      in (v, deliver J (push_each (sv_registry s) ''friend.request'' (payload env) us) s))"
  by (simp add: OnFriendRequest_def one_user_def PushToUser_deliver split: option.split)

lemma Recall_audience:
  "OnChatMsgRecall J env s =
     (let (v, us) = verdict_on (do { x \<leftarrow> get_uint64 J (payload env) ''operatorId'';
            us \<leftarrow> read_array J (j_as_uint64 J) (payload env) ''receivers''; Some (x # us) }) all_users
      in (v, deliver J (push_each (sv_registry s) ''msg.recall'' (payload env) us) s))"
proof -
  have "filter (\<lambda>u. u > 0) (sort (remdups ((if x > 0 then [x] else []) @ us))) =
      filter (\<lambda>u. u > 0) (sort (remdups (x # us)))" for x :: u64 and us
    using filter_sort_zero [of us] by (cases "x = 0") (simp_all add: word_gt_0)
  then show ?thesis
    by (cases "get_uint64 J (payload env) ''operatorId''";
        cases "read_array J (j_as_uint64 J) (payload env) ''receivers''")
      (simp_all add: OnChatMsgRecall_def Let_def all_users_def push_users_deliver)
qed

lemma FriendAccept_audience:
  "OnFriendAccept J env s =
     (let (v, us) = verdict_on (do { x \<leftarrow> get_uint64 J (payload env) ''fromUserId'';
            y \<leftarrow> get_uint64 J (payload env) ''toUserId''; Some (x, y) })
          (\<lambda>(x, y). (ACK, filter (\<lambda>u. u > 0) (if y = x then [x] else [x, y])))
      in (v, deliver J (push_each (sv_registry s) ''friend.accept'' (payload env) us) s))"
proof -
  have two: "deliver J (push_each r type p (filter (\<lambda>u. u > 0) (if y = x then [x] else [x, y]))) s =
      (let s = (if x > 0 then deliver J (user_pushes r type p x) s else s)
       in if y > 0 \<and> y \<noteq> x then deliver J (user_pushes r type p y) s else s)" for r type p and x y :: u64
    by (cases "y = x") (simp_all add: Let_def)
  show ?thesis
    by (cases "get_uint64 J (payload env) ''fromUserId''"; cases "get_uint64 J (payload env) ''toUserId''")
      (simp_all only: OnFriendAccept_def Let_def PushToUser_deliver deliver_frame two verdict_on.simps
        Option.bind.simps option.case prod.case fst_conv snd_conv deliver_simps if_distribR concat.simps
        if_distrib [where f = sv_registry] list.map if_cancel)
qed

lemma Created_audience:
  "OnConversationCreated J env s =
     (case array_member J (payload env) ''memberIds'' of
        None \<Rightarrow> (None, s)
      | Some None \<Rightarrow> (Some NACK_DROP, s)
      | Some (Some a) \<Rightarrow>
          (if read_all (j_as_uint64 J) (j_elems J a) = None then None else Some ACK,
           deliver J (push_each (sv_registry s) ''conversation.created'' (payload env)
             (filter (\<lambda>u. u > 0) (readable (j_as_uint64 J) (j_elems J a)))) s))"
  by (simp add: OnConversationCreated_def push_members_deliver split: option.split)

lemma MemberChanged_audience:
  "OnConversationMemberChanged J env s =
     (let (v, us) = verdict_on (do { xs \<leftarrow> read_array J (j_as_uint64 J) (payload env) ''addedIds'';
            ys \<leftarrow> read_array J (j_as_uint64 J) (payload env) ''removedIds'';
            zs \<leftarrow> read_array J (\<lambda>v. get_uint64 J v ''userId'') (payload env) ''roleChanges'';
            Some (xs @ ys @ zs) }) all_users
      in (v, deliver J (push_each (sv_registry s) ''conversation.member_changed'' (payload env) us) s))"
  by (cases "read_array J (j_as_uint64 J) (payload env) ''addedIds''";
      cases "read_array J (j_as_uint64 J) (payload env) ''removedIds''";
      cases "read_array J (\<lambda>v. get_uint64 J v ''userId'') (payload env) ''roleChanges''")
    (simp_all add: OnConversationMemberChanged_def Let_def all_users_def push_users_deliver)

lemmas handler_audiences = Replay_audience FriendRequest_audience Recall_audience FriendAccept_audience
  Created_audience MemberChanged_audience

lemma OnEnvelope_is_audience:
  assumes "env_type env \<noteq> ''chat.msg.send''"
  shows "OnEnvelope J now env s =
    (fst (audience J (env_type env) (payload env)),
     deliver J (push_each (sv_registry s) (frame_type (env_type env)) (payload env)
       (snd (audience J (env_type env) (payload env)))) s)"
proof -
  consider "env_type env = ''chat.msg.replay''" | "env_type env = ''chat.msg.recall''"
    | "env_type env = ''chat.friend.request''" | "env_type env = ''chat.friend.accept''"
    | "env_type env = ''chat.conversation.created''" | "env_type env = ''chat.conversation.member_changed''"
    | "env_type env \<notin> {''chat.msg.replay'', ''chat.msg.recall'', ''chat.friend.request'', ''chat.friend.accept'',
        ''chat.conversation.created'', ''chat.conversation.member_changed''}"
    by blast
  then show ?thesis
    using assms by cases (simp_all add: OnEnvelope_def handler_audiences audience_def frame_type_def Let_def
        case_prod_beta split: option.split)
qed

lemma audience_users:
  "0 \<notin> set (snd (audience J type p)) \<and>
   (type \<noteq> ''chat.conversation.created'' \<longrightarrow> distinct (snd (audience J type p)))"
proof -
  have one: "0 \<notin> set (snd (verdict_on m one_user)) \<and> distinct (snd (verdict_on m one_user))" for m
    by (cases m) (simp_all add: one_user_def)
  have all: "0 \<notin> set (snd (verdict_on m all_users)) \<and> distinct (snd (verdict_on m all_users))" for m
    by (cases m) (simp_all add: all_users_def)
  have two: "0 \<notin> set (snd (verdict_on m (\<lambda>(x, y). (ACK, filter (\<lambda>u. u > 0) (if y = x then [x] else [x, y]))))) \<and>
      distinct (snd (verdict_on m (\<lambda>(x, y). (ACK, filter (\<lambda>u::u64. u > 0) (if y = x then [x] else [x, y])))))" for m
    by (cases m) auto
  show ?thesis
    unfolding audience_def using one all two by (auto split: option.split simp del: verdict_on.simps)
qed
text \<open>
  C13. Every message from the broker other than \<open>chat.msg.send\<close> is handled as its audience says: the
  result is the audience's verdict, and each connection of each user of the audience, in order, gets
  one frame of the message's type with the message's payload; an exception while a list of users is
  read leaves the frames sent so far. The users are never zero and, except for the members of a new
  conversation, never repeated. Nothing else of the state changes but the counters.
\<close>

theorem OnEnvelope_refines_audience:
  assumes "env_type env \<noteq> ''chat.msg.send''"
    and "OnEnvelope J now env s = (r, s')" "audience J (env_type env) (payload env) = (v, users)"
  shows "r = v \<and>
    sv_tasks s' = sv_tasks s @ concat (map (push_task (sv_heap s))
      (push_each (sv_registry s) (frame_type (env_type env)) (payload env) users)) \<and>
    sv_effects s' = sv_effects s @ concat (map (push_effect J (sv_heap s))
      (push_each (sv_registry s) (frame_type (env_type env)) (payload env) users)) \<and>
    0 \<notin> set users \<and> (env_type env \<noteq> ''chat.conversation.created'' \<longrightarrow> distinct users) \<and>
    sv_registry s' = sv_registry s \<and> sv_heap s' = sv_heap s \<and> sv_pending s' = sv_pending s \<and>
    sv_publisher s' = sv_publisher s"
  using audience_users [of J "env_type env" "payload env"] assms(2,3)
  by (auto simp: OnEnvelope_is_audience [OF assms(1)] deliver_frame)

section \<open>A sent message\<close>

text \<open>
  \<open>OnChatMsgSend\<close> as pushes: the answers to the sender's connections when the send is pending, then one
  round over the receivers; the state before the pushes has the pending entry taken and the latency
  observed.
\<close>

definition taken :: "string \<Rightarrow> int \<Rightarrow> 'j service \<Rightarrow> 'j service" where
  "taken cid now s =
     (case map_of (sv_pending s) cid of
        None \<Rightarrow> s
      | Some pend \<Rightarrow> count_metric (ObserveMsgSendLatencyMs (word_of_int (i64 (now - ps_created_ms pend))))
                      (s\<lparr>sv_pending := AList.delete cid (sv_pending s)\<rparr>))"

definition answer_pushes ::
  "'j json_lib \<Rightarrow> 'j service \<Rightarrow> string \<Rightarrow> int \<Rightarrow> u64 \<Rightarrow> 'j \<Rightarrow> 'j push list" where
  "answer_pushes J s cid mid sender p =
     (case map_of (sv_pending s) cid of
        None \<Rightarrow> []
      | Some pend \<Rightarrow> map (sender_push J (sv_heap s) cid mid pend p) (GetByUser sender (sv_registry s)))"

lemma taken_frame [state_simps]:
  "sv_heap (taken cid now s) = sv_heap s" "sv_next (taken cid now s) = sv_next s"
  "sv_registry (taken cid now s) = sv_registry s" "sv_publisher (taken cid now s) = sv_publisher s"
  "sv_device_seq (taken cid now s) = sv_device_seq s" "sv_tasks (taken cid now s) = sv_tasks s"
  "sv_effects (taken cid now s) = sv_effects s"
  "sv_pending (taken cid now s) = AList.delete cid (sv_pending s)"
  by (simp_all add: taken_def count_metric_simps delete_absent split: option.split)

definition read_ids :: "'j json_lib \<Rightarrow> 'j \<Rightarrow> (string \<times> int \<times> u64) option" where
  "read_ids J p =
     do {
       cid \<leftarrow> get_string J p ''clientMsgId'';
       mid \<leftarrow> get_int64 J p ''messageId'';
       sender \<leftarrow> get_uint64 J p ''senderId'';
       Some (cid, mid, sender)
     }"

lemma OnChatMsgSend_pushes:
  "OnChatMsgSend J now env s =
     (case read_ids J (payload env) of
        None \<Rightarrow> (None, s)
      | Some (cid, mid, sender) \<Rightarrow>
          let s1 = deliver J (answer_pushes J s cid mid sender (payload env)) (taken cid now s)
          in case array_member J (payload env) ''receivers'' of
               None \<Rightarrow> (None, s1)
             | Some None \<Rightarrow> (Some ACK, s1)
             | Some (Some a) \<Rightarrow>
                 (if read_all (j_as_uint64 J) (j_elems J a) = None then None else Some ACK,
                  deliver J (push_each (sv_registry s) ''msg.new'' (payload env)
                    (firsts {0, sender} (readable (j_as_uint64 J) (j_elems J a)))) s1))"
proof -
  have T: "(case TakePending cid s of (pending, s) \<Rightarrow>
      case pending of None \<Rightarrow> s
      | Some pend \<Rightarrow> fold (answer_sender J cid mid pend p) (GetByUser sender (sv_registry s))
          (count_metric (ObserveMsgSendLatencyMs (word_of_int (i64 (now - ps_created_ms pend)))) s)) =
      deliver J (answer_pushes J s cid mid sender p) (taken cid now s)" for cid mid sender p
    by (simp add: TakePending_def taken_def answer_pushes_def answer_senders_deliver count_metric_simps
        split: option.split)
  have O: "OnChatMsgSend J now env s =
     (case read_ids J (payload env) of
        None \<Rightarrow> (None, s)
      | Some (cid, mid, sender) \<Rightarrow>
          let s1 = (case TakePending cid s of (pending, s) \<Rightarrow>
              case pending of None \<Rightarrow> s
              | Some pend \<Rightarrow> fold (answer_sender J cid mid pend (payload env)) (GetByUser sender (sv_registry s))
                  (count_metric (ObserveMsgSendLatencyMs (word_of_int (i64 (now - ps_created_ms pend)))) s))
          in case array_member J (payload env) ''receivers'' of
               None \<Rightarrow> (None, s1)
             | Some None \<Rightarrow> (Some ACK, s1)
             | Some (Some a) \<Rightarrow> push_receivers J (payload env) sender (j_elems J a) {} s1)"
    by (simp add: OnChatMsgSend_def read_ids_def Let_def count_metric_simps case_prod_beta
        split: option.split)
  show ?thesis
    unfolding O T by (simp add: Let_def push_receivers_deliver deliver_frame taken_frame split: option.split)
qed

text \<open>
  C21. A message that the backend has stored is answered and fanned out exactly: the pending send with its
  client id is taken; if there was one, each of the sender's connections gets one frame, the answer
  with the client's sequence number on the device that sent and the message itself on the others;
  then every receiver other than the sender and user zero gets the message once per connection,
  however often the list repeats a user. Nothing is queued for the broker.
\<close>

theorem OnChatMsgSend_spec:
  assumes "read_ids J (payload env) = Some (cid, mid, sender)"
    and "array_member J (payload env) ''receivers'' = Some (Some a)"
    and "read_all (j_as_uint64 J) (j_elems J a) = Some ids"
    and "OnChatMsgSend J now env s = (r, s')"
  shows "r = Some ACK \<and> sv_pending s' = AList.delete cid (sv_pending s) \<and>
    sv_publisher s' = sv_publisher s \<and> sv_registry s' = sv_registry s \<and>
    (\<exists>users. distinct users \<and> set users = set ids - {0, sender} \<and>
       sv_tasks s' = sv_tasks s @
         concat (map (push_task (sv_heap s)) (answer_pushes J s cid mid sender (payload env))) @
         concat (map (push_task (sv_heap s)) (push_each (sv_registry s) ''msg.new'' (payload env) users)) \<and>
       sv_effects s' = sv_effects s @
         concat (map (push_effect J (sv_heap s)) (answer_pushes J s cid mid sender (payload env))) @
         concat (map (push_effect J (sv_heap s)) (push_each (sv_registry s) ''msg.new'' (payload env) users)))"
proof -
  have "readable (j_as_uint64 J) (j_elems J a) = ids" by (rule readable_all [OF assms(3)])
  with assms have "r = Some ACK"
    "s' = deliver J (push_each (sv_registry s) ''msg.new'' (payload env) (firsts {0, sender} ids))
       (deliver J (answer_pushes J s cid mid sender (payload env)) (taken cid now s))"
    by (simp_all add: OnChatMsgSend_pushes)
  then show ?thesis
    using firsts_set [of "{0, sender}" ids]
    by (intro conjI exI [of _ "firsts {0, sender} ids"]) (simp_all add: deliver_frame taken_frame)
qed

text \<open>
  The fan-out stops at the first receiver whose id is not an unsigned number: the call fails, the
  receivers before it have got the message, the ones after it get nothing, and the pending send is
  gone nevertheless, so that a redelivery cannot answer the sender any more.
\<close>

theorem bad_receiver_cuts_off:
  assumes "read_ids J (payload env) = Some (cid, mid, sender)"
    and "array_member J (payload env) ''receivers'' = Some (Some a)"
    and "j_elems J a = map Some good @ Some bad # rest"
    and "\<forall>x \<in> set good. j_as_uint64 J x \<noteq> None" "j_as_uint64 J bad = None"
    and "OnChatMsgSend J now env s = (r, s')"
  shows "r = None \<and> map_of (sv_pending s') cid = None \<and>
    sv_tasks s' = sv_tasks s @
      concat (map (push_task (sv_heap s)) (answer_pushes J s cid mid sender (payload env))) @
      concat (map (push_task (sv_heap s)) (push_each (sv_registry s) ''msg.new'' (payload env)
        (firsts {0, sender} (map (the \<circ> j_as_uint64 J) good))))"
proof -
  have "readable (j_as_uint64 J) (map Some good @ Some bad # rest) = map (the \<circ> j_as_uint64 J) good \<and>
      read_all (j_as_uint64 J) (map Some good @ Some bad # rest) = None"
    using assms(4) by (induction good) (auto simp: assms(5))
  then show ?thesis
    using assms(1,2,6) by (auto simp: OnChatMsgSend_pushes assms(3) deliver_frame taken_frame)
qed

section \<open>Isolation\<close>

text \<open>The users that a message names.\<close>

definition names_user :: "'j json_lib \<Rightarrow> 'j \<Rightarrow> u64 \<Rightarrow> bool" where
  "names_user J p u \<longleftrightarrow>
     (\<exists>k \<in> {''senderId'', ''targetUserId'', ''operatorId'', ''toUserId'', ''fromUserId''}.
        get_uint64 J p k = Some u) \<or>
     (\<exists>k \<in> {''receivers'', ''memberIds'', ''addedIds'', ''removedIds''}. \<exists>a. array_member J p k = Some (Some a) \<and>
        (\<exists>x. Some x \<in> set (j_elems J a) \<and> j_as_uint64 J x = Some u)) \<or>
     (\<exists>a x. array_member J p ''roleChanges'' = Some (Some a) \<and> Some x \<in> set (j_elems J a) \<and>
        get_uint64 J x ''userId'' = Some u)"

lemma read_array_set:
  assumes "read_array J f p k = Some us" "u \<in> set us"
  shows "\<exists>a. array_member J p k = Some (Some a) \<and> (\<exists>x. Some x \<in> set (j_elems J a) \<and> f x = Some u)"
  using assms read_all_set by (fastforce simp: read_array_def split: bind_splits option.splits)

lemma audience_named:
  assumes "u \<in> set (snd (audience J type p))"
  shows "names_user J p u"
proof -
  have one: "u \<in> set (snd (verdict_on m one_user)) \<Longrightarrow> m = Some u" for m
    by (cases m) (auto simp: one_user_def split: if_splits)
  have all: "u \<in> set (snd (verdict_on m all_users)) \<Longrightarrow> \<exists>us. m = Some us \<and> u \<in> set us" for m
    by (cases m) (auto simp: all_users_def)
  have two: "u \<in> set (snd (verdict_on m (\<lambda>(x, y). (ACK, filter (\<lambda>u. u > 0) (if y = x then [x] else [x, y]))))) \<Longrightarrow>
      \<exists>x y. m = Some (x, y) \<and> (u = x \<or> u = y)" for m
    by (cases m) (auto split: if_splits)
  have created: "u \<in> set (readable (j_as_uint64 J) (j_elems J a)) \<Longrightarrow>
      \<exists>x. Some x \<in> set (j_elems J a) \<and> j_as_uint64 J x = Some u" for a
    using readable_set [of "j_as_uint64 J" "j_elems J a"] by blast
  consider "get_uint64 J p ''targetUserId'' = Some u" | "get_uint64 J p ''toUserId'' = Some u"
    | "get_uint64 J p ''operatorId'' = Some u" | "get_uint64 J p ''fromUserId'' = Some u"
    | us where "read_array J (j_as_uint64 J) p ''receivers'' = Some us" "u \<in> set us"
    | us where "read_array J (j_as_uint64 J) p ''addedIds'' = Some us" "u \<in> set us"
    | us where "read_array J (j_as_uint64 J) p ''removedIds'' = Some us" "u \<in> set us"
    | us where "read_array J (\<lambda>v. get_uint64 J v ''userId'') p ''roleChanges'' = Some us" "u \<in> set us"
    | a where "array_member J p ''memberIds'' = Some (Some a)" "u \<in> set (readable (j_as_uint64 J) (j_elems J a))"
    using assms unfolding audience_def
    by (auto dest!: one all two split: if_splits bind_splits option.splits simp del: verdict_on.simps)
  then show ?thesis
    by cases (auto simp: names_user_def dest!: read_array_set created)
qed

definition addressed :: "'j json_lib \<Rightarrow> 'j \<Rightarrow> SessionRegistry \<Rightarrow> 'j push \<Rightarrow> bool" where
  "addressed J p r push \<longleftrightarrow> (\<exists>u. names_user J p u \<and> fst push \<in> set (GetByUser u r))"

lemma push_each_addressed:
  "(\<And>u. u \<in> set us \<Longrightarrow> names_user J p u) \<Longrightarrow> push \<in> set (push_each r type data us) \<Longrightarrow> addressed J p r push"
  by (fastforce simp: addressed_def user_pushes_def)

lemma answer_pushes_addressed:
  assumes "names_user J p sender" "push \<in> set (answer_pushes J s cid mid sender p)"
  shows "addressed J p (sv_registry s) push"
proof -
  from assms(2) obtain pend c where "c \<in> set (GetByUser sender (sv_registry s))"
    "push = sender_push J (sv_heap s) cid mid pend p c"
    by (auto simp: answer_pushes_def split: option.splits)
  with assms(1) show ?thesis by (auto simp: addressed_def sender_push_def)
qed

text \<open>The effect of any message, for every proof about what it leaves alone.\<close>

lemma OnEnvelope_pushes:
  obtains ps s1 where "snd (OnEnvelope J now env s) = deliver J ps s1"
    "\<forall>push \<in> set ps. addressed J (payload env) (sv_registry s) push"
    "s1 = s \<or> (\<exists>cid. s1 = taken cid now s)"
proof (cases "env_type env = ''chat.msg.send''")
  case False
  show ?thesis
  proof (rule that)
    show "snd (OnEnvelope J now env s) = deliver J (push_each (sv_registry s) (frame_type (env_type env))
        (payload env) (snd (audience J (env_type env) (payload env)))) s"
      by (simp add: OnEnvelope_is_audience [OF False])
    show "\<forall>push \<in> set (push_each (sv_registry s) (frame_type (env_type env))
        (payload env) (snd (audience J (env_type env) (payload env)))). addressed J (payload env) (sv_registry s) push"
      by (intro ballI) (rule push_each_addressed [OF audience_named])
  qed simp
next
  case True
  then have O: "OnEnvelope J now env s = OnChatMsgSend J now env s" by (simp add: OnEnvelope_def)
  show ?thesis
  proof (cases "read_ids J (payload env)")
    case None
    with O show ?thesis by (intro that [of "[]" s]) (simp_all add: OnChatMsgSend_pushes)
  next
    case (Some x)
    then obtain cid mid sender where x: "read_ids J (payload env) = Some (cid, mid, sender)" by (cases x) simp
    then have sender: "names_user J (payload env) sender"
      by (auto simp: read_ids_def names_user_def split: bind_splits)
    define us where "us = (case array_member J (payload env) ''receivers'' of
        Some (Some a) \<Rightarrow> firsts {0, sender} (readable (j_as_uint64 J) (j_elems J a)) | _ \<Rightarrow> [])"
    have us: "names_user J (payload env) u" if u: "u \<in> set us" for u
    proof -
      from u obtain a where a: "array_member J (payload env) ''receivers'' = Some (Some a)"
        "u \<in> set (readable (j_as_uint64 J) (j_elems J a))"
        unfolding us_def by (auto simp: firsts_set split: option.splits dest: sym)
      from subsetD [OF readable_set a(2)] a(1) show ?thesis by (auto simp: names_user_def)
    qed
    show ?thesis
    proof (rule that)
      show "snd (OnEnvelope J now env s) = deliver J (answer_pushes J s cid mid sender (payload env) @
          push_each (sv_registry s) ''msg.new'' (payload env) us) (taken cid now s)"
        by (simp add: O OnChatMsgSend_pushes x us_def Let_def split: option.split)
      show "\<forall>push \<in> set (answer_pushes J s cid mid sender (payload env) @
          push_each (sv_registry s) ''msg.new'' (payload env) us). addressed J (payload env) (sv_registry s) push"
        unfolding set_append using push_each_addressed [OF us] answer_pushes_addressed [OF sender]
        by (intro ballI) (elim UnE)
    qed blast
  qed
qed

text \<open>
  Whatever message the broker delivers, what is sent out reaches only connections that are registered
  for a user the message names: every task that it schedules pushes a frame to such a connection on
  that connection's own IO manager, and every frame sent at once goes to such a connection's session.
  No connection is added, removed or changed.
\<close>

theorem push_isolation:
  assumes "registry_wf (sv_heap s) mx (sv_registry s)" "OnEnvelope J now env s = (r, s')"
  shows "\<exists>ts es. sv_tasks s' = sv_tasks s @ ts \<and> sv_effects s' = sv_effects s @ es \<and>
    (\<forall>(iom, t) \<in> set ts. \<exists>c type data hs sq. t = PushTask c type data hs sq \<and>
       oc_io_manager (sv_heap s c) = Some iom \<and> names_user J (payload env) (oc_user_id (sv_heap s c)) \<and>
       Get (oc_user_id (sv_heap s c)) (oc_device_id (sv_heap s c)) (sv_registry s) = Some c) \<and>
    (\<forall>e \<in> set es. \<exists>c w text. e = SendMessage w text \<and> oc_session (sv_heap s c) = Some w \<and>
       names_user J (payload env) (oc_user_id (sv_heap s c)) \<and>
       Get (oc_user_id (sv_heap s c)) (oc_device_id (sv_heap s c)) (sv_registry s) = Some c) \<and>
    sv_registry s' = sv_registry s \<and> sv_heap s' = sv_heap s"
proof -
  obtain ps s1 where ps: "snd (OnEnvelope J now env s) = deliver J ps s1"
    "\<forall>push \<in> set ps. addressed J (payload env) (sv_registry s) push"
    "s1 = s \<or> (\<exists>cid. s1 = taken cid now s)" by (rule OnEnvelope_pushes)
  from ps(3) have s1: "sv_heap s1 = sv_heap s" "sv_registry s1 = sv_registry s" "sv_tasks s1 = sv_tasks s"
    "sv_effects s1 = sv_effects s" by (auto simp: taken_frame)
  have registered: "names_user J (payload env) (oc_user_id (sv_heap s c)) \<and>
      Get (oc_user_id (sv_heap s c)) (oc_device_id (sv_heap s c)) (sv_registry s) = Some c"
    if push: "(c, p) \<in> set ps" for c p
  proof -
    from bspec [OF ps(2) push] obtain u d where "names_user J (payload env) u" "(d, c) \<in> set (devices (sv_registry s) u)"
      by (auto simp: addressed_def GetByUser_devices)
    with devices_facts [OF assms(1)] show ?thesis by (auto simp: Get_devices)
  qed
  have "s' = deliver J ps s1" using ps(1) assms(2) by simp
  then show ?thesis
    using registered s1 by (intro exI conjI) (fastforce simp: deliver_frame split: option.splits)+
qed

section \<open>Examples\<close>

text \<open>User 7 on the devices \<open>a\<close> and \<open>b\<close>, user 9 on \<open>c\<close> without an IO manager.\<close>

definition demo_heap :: heap where
  "demo_heap c = (if c = 0 then new_OnlineConn 7 ''a'' (Some 10) (Some 1) 0 20
                  else if c = 1 then new_OnlineConn 7 ''b'' (Some 11) (Some 1) 0 20
                  else new_OnlineConn 9 ''c'' (Some 12) None 0 20)"

definition demo_online :: "json service" where
  "demo_online = (service_start demo_heap)
     \<lparr>sv_registry := \<lparr>m_conns = [(7, [(''a'', 0), (''b'', 1)]), (9, [(''c'', 2)])]\<rparr>,
      sv_pending := [(''m'', \<lparr>ps_sender_user_id = 7, ps_sender_device_id = ''a'', ps_created_ms = 0,
        ps_has_seq = True, ps_seq = 4\<rparr>)]\<rparr>"

definition demo_stored :: "json \<Rightarrow> json Envelope" where
  "demo_stored receivers = \<lparr>msg_id = ''e'', version = 1, occurred_at = ''t'', source = ''s'',
     env_type = ''chat.msg.send'',
     payload = JObj [(''clientMsgId'', JStr ''m''), (''messageId'', JInt 33), (''senderId'', JInt 7),
       (''receivers'', receivers)]\<rparr>"

definition demo_replay :: "json Envelope" where
  "demo_replay = \<lparr>msg_id = ''e'', version = 1, occurred_at = ''t'', source = ''s'',
     env_type = ''chat.msg.replay'', payload = JObj [(''targetUserId'', JInt 9)]\<rparr>"

lemmas demo_defs = demo_heap_def demo_online_def demo_stored_def demo_replay_def new_OnlineConn_def
  service_start_def

lemma demo_reads:
  "read_ids (ref_json []) (payload (demo_stored rs)) = Some (''m'', 33, 7)"
  "array_member (ref_json []) (payload (demo_stored rs)) ''receivers'' =
     Some (case rs of JArr _ \<Rightarrow> Some rs | _ \<Rightarrow> None)"
  "read_all (j_as_uint64 (ref_json [])) (j_elems (ref_json []) (JArr [JInt 9, JInt 7, JInt 9])) = Some [9, 7, 9]"
  by (simp_all add: read_ids_def array_member_def demo_stored_def ref_json_defs split: json.split)

lemma demo_online_wf: "registry_wf (sv_heap demo_online) 5 (sv_registry demo_online)"
  by (simp add: demo_defs registry_wf_def devices_wf_def)

theorem OnChatMsgSend_spec_witness:
  "length (sv_tasks (snd (OnChatMsgSend (ref_json []) 5 (demo_stored (JArr [JInt 9, JInt 7, JInt 9])) demo_online))) = 2 \<and>
   length (sv_effects (snd (OnChatMsgSend (ref_json []) 5 (demo_stored (JArr [JInt 9, JInt 7, JInt 9])) demo_online))) = 1"
proof -
  let ?e = "demo_stored (JArr [JInt 9, JInt 7, JInt 9])"
  obtain r s' where O: "OnChatMsgSend (ref_json []) 5 ?e demo_online = (r, s')" by (rule prod.exhaust)
  have am: "array_member (ref_json []) (payload ?e) ''receivers'' = Some (Some (JArr [JInt 9, JInt 7, JInt 9]))"
    by (simp add: demo_reads)
  from OnChatMsgSend_spec [OF demo_reads(1) am demo_reads(3) O]
  obtain users where u: "distinct users" "set users = set [9, 7, 9] - {0, 7}"
    "sv_tasks s' = sv_tasks demo_online @
         concat (map (push_task (sv_heap demo_online)) (answer_pushes (ref_json []) demo_online ''m'' 33 7 (payload ?e))) @
         concat (map (push_task (sv_heap demo_online)) (push_each (sv_registry demo_online) ''msg.new'' (payload ?e) users))"
    "sv_effects s' = sv_effects demo_online @
         concat (map (push_effect (ref_json []) (sv_heap demo_online)) (answer_pushes (ref_json []) demo_online ''m'' 33 7 (payload ?e))) @
         concat (map (push_effect (ref_json []) (sv_heap demo_online)) (push_each (sv_registry demo_online) ''msg.new'' (payload ?e) users))"
    by blast
  have "set users = {9}" unfolding u(2) by auto
  with u(1) have "users = [9]" by (cases users; cases "tl users") auto
  with u(3,4) O show ?thesis
    by (simp add: demo_defs answer_pushes_def GetByUser_def sender_push_def user_pushes_def)
qed

theorem bad_receiver_cuts_off_witness:
  "fst (OnChatMsgSend (ref_json []) 5 (demo_stored (JArr [JInt 7, JStr ''x'', JInt 9])) demo_online) = None \<and>
   sv_effects demo_online = [] \<and>
   length (sv_tasks (snd (OnChatMsgSend (ref_json []) 5 (demo_stored (JArr [JInt 7, JStr ''x'', JInt 9])) demo_online))) = 2"
proof -
  let ?e = "demo_stored (JArr [JInt 7, JStr ''x'', JInt 9])"
  obtain r s' where O: "OnChatMsgSend (ref_json []) 5 ?e demo_online = (r, s')" by (rule prod.exhaust)
  have am: "array_member (ref_json []) (payload ?e) ''receivers'' = Some (Some (JArr [JInt 7, JStr ''x'', JInt 9]))"
    by (simp add: demo_reads)
  have el: "j_elems (ref_json []) (JArr [JInt 7, JStr ''x'', JInt 9]) = map Some [JInt 7] @ Some (JStr ''x'') # [Some (JInt 9)]"
    by (simp add: ref_json_defs)
  have num: "\<forall>x \<in> set [JInt 7]. j_as_uint64 (ref_json []) x \<noteq> None" "j_as_uint64 (ref_json []) (JStr ''x'') = None"
    by (simp_all add: ref_json_defs)
  have "firsts {0, 7 :: u64} (map (the \<circ> j_as_uint64 (ref_json [])) [JInt 7]) = []"
    by (simp add: ref_json_defs)
  with bad_receiver_cuts_off [OF demo_reads(1) am el num O] O show ?thesis
    by (simp add: demo_defs answer_pushes_def GetByUser_def sender_push_def)
qed

theorem OnEnvelope_refines_audience_witness:
  "sv_effects (snd (OnEnvelope (ref_json []) 5 demo_replay demo_online)) =
     [SendMessage 12 (frame_text (ref_json []) ''msg.replay'' (payload demo_replay) False 0)]"
proof -
  obtain r s' where O: "OnEnvelope (ref_json []) 5 demo_replay demo_online = (r, s')" by (rule prod.exhaust)
  have "audience (ref_json []) (env_type demo_replay) (payload demo_replay) = (Some ACK, [9])"
    by (simp add: audience_def demo_replay_def one_user_def ref_json_defs)
  from OnEnvelope_refines_audience [OF _ O this] O show ?thesis
    by (simp add: demo_defs frame_type_def GetByUser_def user_pushes_def)
qed

theorem push_isolation_witness:
  "\<exists>es. sv_effects (snd (OnEnvelope (ref_json []) 5 demo_replay demo_online)) = es \<and>
     (\<forall>e \<in> set es. \<exists>c w text. e = SendMessage w text \<and> oc_session (sv_heap demo_online c) = Some w)"
proof -
  obtain r s' where O: "OnEnvelope (ref_json []) 5 demo_replay demo_online = (r, s')" by (rule prod.exhaust)
  have "sv_effects demo_online = []" by (simp add: demo_defs)
  with push_isolation [OF demo_online_wf O] O show ?thesis by fastforce
qed

end
