(* ===== verification/Base64url.thy ===== *)
theory Base64url
  imports Prelude Rfc4648
begin

text \<open>
  \<open>chat/util/base64url.{h,cc}\<close>. The framework's \<open>flz::base64encode\<close> and \<open>flz::base64decode\<close>, OpenSSL's
  \<open>HMAC\<close> (with \<open>EVP_sha256\<close>) and \<open>CRYPTO_memcmp\<close> are not in the repository: they are the fields of a
  parameter record. \<open>base64_laws\<close> is the documented behaviour of a base64 codec with padding. Both
  functions of the class return \<open>true\<close> always; the pair keeps that result.
\<close>

record crypto_lib =
  base64encode :: "string \<Rightarrow> string"
  base64decode :: "string \<Rightarrow> string"
  hmac_sha256 :: "string \<Rightarrow> string \<Rightarrow> string option" \<comment> \<open>key, data; \<open>None\<close>: \<open>nullptr\<close>\<close>
  crypto_memcmp :: "string \<Rightarrow> string \<Rightarrow> int" \<comment> \<open>two buffers of the same length\<close>

definition to_url_char :: "char \<Rightarrow> char" where
  "to_url_char c = (if c = CHR ''+'' then CHR ''-'' else if c = CHR ''/'' then CHR ''_'' else c)"

definition from_url_char :: "char \<Rightarrow> char" where
  "from_url_char c = (if c = CHR ''-'' then CHR ''+'' else if c = CHR ''_'' then CHR ''/'' else c)"

text \<open>\<open>while(!out.empty() && out[out.size() - 1] == '=') out.resize(out.size() - 1);\<close>\<close>

function strip_pad :: "string \<Rightarrow> string" where
  "strip_pad out = (if out \<noteq> [] \<and> last out = CHR ''='' then strip_pad (butlast out) else out)"
  by pat_completeness auto
termination
  by (relation "measure length") auto

text \<open>\<open>while(base.size() % 4 != 0) base.push_back('=');\<close>\<close>

function push_pad :: "string \<Rightarrow> string" where
  "push_pad base = (if length base mod 4 \<noteq> 0 then push_pad (base @ ''='') else base)"
  by pat_completeness auto
termination
proof (relation "measure (\<lambda>s. (4 - length s mod 4) mod 4)", goal_cases)
  case 1
  show ?case by simp
next
  case (2 s)
  define r where "r = length s mod 4"
  then have r: "r = 1 \<or> r = 2 \<or> r = 3" using 2 by auto
  have "Suc (length s) mod 4 = (if r = 3 then 0 else Suc r)" by (simp add: r_def mod_Suc)
  then have "(4 - Suc (length s) mod 4) mod 4 < (4 - r) mod 4" using r by auto
  then show ?case by (simp add: r_def)
qed

declare strip_pad.simps [simp del] push_pad.simps [simp del]

definition Encode :: "crypto_lib \<Rightarrow> string \<Rightarrow> bool \<times> string" where
  "Encode K input = (True, strip_pad (map to_url_char (base64encode K input)))"

definition Decode :: "crypto_lib \<Rightarrow> string \<Rightarrow> bool \<times> string" where
  "Decode K input = (True, base64decode K (push_pad (map from_url_char input)))"

section \<open>Documented behaviour of the codec\<close>

definition base64_laws :: "crypto_lib \<Rightarrow> bool" where
  "base64_laws K \<longleftrightarrow> (\<forall>x. base64decode K (base64encode K x) = x) \<and>
     (\<forall>x. 4 dvd length (base64encode K x)) \<and>
     (\<forall>x. \<exists>body pad. base64encode K x = body @ replicate pad (CHR ''='') \<and> pad < 4 \<and>
        set body \<subseteq> set b64_alphabet)"

definition ref_crypto :: "(string \<Rightarrow> string \<Rightarrow> string option) \<Rightarrow> crypto_lib" where
  "ref_crypto mac = \<lparr>base64encode = rfc_encode, base64decode = rfc_decode, hmac_sha256 = mac,
     crypto_memcmp = (\<lambda>a b. if a = b then 0 else 1)\<rparr>"

lemma ref_crypto_laws: "base64_laws (ref_crypto mac)"
  using rfc_roundtrip rfc_length rfc_shape by (simp add: base64_laws_def ref_crypto_def)

section \<open>Padding\<close>

lemma strip_pad_app: "strip_pad (s @ replicate n (CHR ''='')) = strip_pad s"
proof (induction n)
  case 0
  show ?case by simp
next
  case (Suc n)
  have "strip_pad (s @ replicate (Suc n) (CHR ''='')) = strip_pad (s @ replicate n (CHR ''=''))"
    unfolding replicate_app_Cons_same [symmetric] replicate_Suc
    by (subst strip_pad.simps) (simp flip: replicate_append_same append_assoc)
  with Suc show ?case by simp
qed

lemma strip_pad_none: "CHR ''='' \<notin> set s \<Longrightarrow> strip_pad s = s"
  by (subst strip_pad.simps) (use last_in_set in fastforce)

lemma push_pad_app:
  "n < 4 \<Longrightarrow> 4 dvd length s + n \<Longrightarrow> push_pad s = s @ replicate n (CHR ''='')"
proof (induction n arbitrary: s)
  case 0
  then show ?case by (simp add: push_pad.simps dvd_eq_mod_eq_0)
next
  case (Suc n)
  have "length s mod 4 \<noteq> 0" using Suc.prems by presburger
  then have "push_pad s = push_pad (s @ ''='')" by (simp add: push_pad.simps [of s])
  also have "\<dots> = (s @ ''='') @ replicate n (CHR ''='')" using Suc.prems by (intro Suc.IH) simp_all
  finally show ?case by simp
qed

text \<open>The alphabet of RFC 4648 base64url: letters, digits, minus and underscore.\<close>

definition url_alphabet :: string where
  "url_alphabet = ''ABCDEFGHIJKLMNOPQRSTUVWXYZabcdefghijklmnopqrstuvwxyz0123456789-_''"

lemma url_char_all:
  "\<forall>c \<in> set b64_alphabet. from_url_char (to_url_char c) = c \<and> to_url_char c \<noteq> CHR ''='' \<and>
     to_url_char c \<in> set url_alphabet"
  by code_simp

lemma Encode_body:
  assumes "base64_laws K"
  obtains body pad where "base64encode K x = body @ replicate pad (CHR ''='')" "pad < 4"
    "set body \<subseteq> set b64_alphabet" "4 dvd length body + pad" "snd (Encode K x) = map to_url_char body"
proof -
  obtain body pad where b: "base64encode K x = body @ replicate pad (CHR ''='')" "pad < 4"
    "set body \<subseteq> set b64_alphabet"
    using assms unfolding base64_laws_def by metis
  moreover have "4 dvd length (base64encode K x)" using assms by (simp add: base64_laws_def)
  moreover have "CHR ''='' \<notin> set (map to_url_char body)"
    using b(3) url_char_all by (force simp: subset_iff)
  then have "strip_pad (map to_url_char body) = map to_url_char body" by (rule strip_pad_none)
  moreover have "to_url_char (CHR ''='') = CHR ''=''" by (simp add: to_url_char_def)
  ultimately show ?thesis
    using that by (simp add: Encode_def strip_pad_app map_replicate)
qed

section \<open>Properties\<close>

text \<open>
  C36. For any byte string, \<open>Base64Url::Encode\<close> yields a text over the URL-safe alphabet (no \<open>+\<close>, \<open>/\<close>
  and no padding), and \<open>Base64Url::Decode\<close> of that text gives the byte string back, given a base64
  codec with padding behind them.
\<close>

theorem base64url_roundtrip:
  assumes "base64_laws K"
  shows "set (snd (Encode K x)) \<subseteq> set url_alphabet \<and> Decode K (snd (Encode K x)) = (True, x)"
proof (rule Encode_body [OF assms, of x])
  fix body pad
  assume b: "base64encode K x = body @ replicate pad (CHR ''='')" "pad < 4"
    "set body \<subseteq> set b64_alphabet" "4 dvd length body + pad" "snd (Encode K x) = map to_url_char body"
  have "map from_url_char (map to_url_char body) = body"
    using b(3) url_char_all by (simp add: map_idI subset_iff)
  then have "Decode K (snd (Encode K x)) = (True, base64decode K (base64encode K x))"
    using b(1,5) push_pad_app [OF b(2,4)] by (simp add: Decode_def)
  moreover have "base64decode K (base64encode K x) = x" using assms by (simp add: base64_laws_def)
  moreover have "set (snd (Encode K x)) \<subseteq> set url_alphabet"
    using b(3,5) url_char_all by auto
  ultimately show ?thesis by simp
qed

theorem base64url_roundtrip_witness:
  "snd (Encode (ref_crypto (\<lambda>k d. None)) [CHR 0xFB, CHR 0xFF]) = ''-_8'' \<and>
   Decode (ref_crypto (\<lambda>k d. None)) ''-_8'' = (True, [CHR 0xFB, CHR 0xFF])"
proof -
  have "snd (Encode (ref_crypto (\<lambda>k d. None)) [CHR 0xFB, CHR 0xFF]) = ''-_8''" by code_simp
  with base64url_roundtrip [OF ref_crypto_laws, of "\<lambda>k d. None" "[CHR 0xFB, CHR 0xFF]"]
  show ?thesis by simp
qed

end
