(* ===== verification/Jwt.thy ===== *)
theory Jwt
  imports Config Base64url Json_Lib Ref_Json
begin

text \<open>
  \<open>chat/auth/jwt.{h,cc}\<close> and \<open>jwt_claims.h\<close>: verification of an HS256 token. Parameters: the JSON
  library \<open>J\<close>, the codec and MAC \<open>K\<close>, the JWT configuration, and the clock \<open>time(nullptr)\<close> in seconds.
  The result is \<open>None\<close> when a JSON accessor throws, otherwise the error text or the claims.
\<close>

record 'j JwtClaims =
  jc_user_id :: u64
  jc_device_id :: string
  jc_iat :: int
  jc_exp :: int
  jc_iss :: string
  jc_raw_payload :: 'j

fun Split_loop :: "string \<Rightarrow> char \<Rightarrow> string list \<Rightarrow> string \<Rightarrow> string list" where
  "Split_loop [] ch parts current = parts @ [current]"
| "Split_loop (c # s) ch parts current =
     (if c = ch then Split_loop s ch (parts @ [current]) [] else Split_loop s ch parts (current @ [c]))"

definition Split :: "string \<Rightarrow> char \<Rightarrow> string list" where
  "Split s ch = Split_loop s ch [] []"

text \<open>
  The C library's \<open>strtoull(s, &end, 10)\<close>: white space, an optional sign, digits; the value saturates
  at \<open>ULLONG_MAX\<close>, a minus sign negates modulo \<open>2^64\<close>; the second result is the text at \<open>end\<close>, which
  is the whole text when there are no digits. \<open>c_str\<close> ends at the first NUL.
\<close>

definition is_space :: "char \<Rightarrow> bool" where
  "is_space c \<longleftrightarrow> c = CHR '' '' \<or> (9 \<le> (of_char c :: nat) \<and> (of_char c :: nat) \<le> 13)"

definition strtoull :: "string \<Rightarrow> u64 \<times> string" where
  "strtoull s =
     (let s1 = dropWhile is_space s;
          (neg, s2) = (case s1 of [] \<Rightarrow> (False, s1)
                       | c # cs \<Rightarrow> if c = CHR ''-'' then (True, cs) else if c = CHR ''+'' then (False, cs)
                                  else (False, s1));
          ds = takeWhile is_digit s2;
          v = foldl (\<lambda>v c. 10 * v + digit_value c) 0 ds
      in if ds = [] then (0, s)
         else (if v \<ge> 2 ^ 64 then - 1 else if neg then - word_of_nat v else word_of_nat v,
               dropWhile is_digit s2))"

definition ParseUInt64 :: "string \<Rightarrow> u64 option" where
  "ParseUInt64 input =
     (if input = [] then None
      else let (v, rest) = strtoull (c_str input) in if rest \<noteq> [] then None else Some v)"

text \<open>
  The text of the subject: \<open>sub\<close> as a string, or the digits of an integer \<open>sub\<close> (lines 117-122).
\<close>

definition sub_text :: "'j json_lib \<Rightarrow> 'j \<Rightarrow> string option" where
  "sub_text J payload =
     do {
       sub \<leftarrow> get_string J payload ''sub'';
       if sub = [] then
         do {
           v \<leftarrow> j_member J payload ''sub'';
           if j_is_uint64 J v \<or> j_is_int64 J v then j_as_string J v else Some sub
         }
       else Some sub
     }"

text \<open>The checks of the payload once the signature is verified (lines 99-129).\<close>

definition check_claims ::
  "'j json_lib \<Rightarrow> JwtConfig \<Rightarrow> int \<Rightarrow> 'j \<Rightarrow> (string + 'j JwtClaims) option" where
  "check_claims J cfg now payload =
     do {
       is \<leftarrow> get_string J payload ''iss'';
       if is \<noteq> jwt_issuer cfg then Some (Inl ''token issuer mismatch'')
       else do {
         ex \<leftarrow> get_int64 J payload ''exp'';
         ia \<leftarrow> get_int64 J payload ''iat'';
         if ex \<le> 0 \<or> now > i64 (ex + jwt_clock_skew_seconds cfg) then Some (Inl ''token expired'')
         else if ia > 0 \<and> i64 (now + jwt_clock_skew_seconds cfg) < ia
         then Some (Inl ''token iat invalid'')
         else do {
           sub \<leftarrow> sub_text J payload;
           case ParseUInt64 sub of
             None \<Rightarrow> Some (Inl ''token sub invalid'')
           | Some uid \<Rightarrow>
               if uid = 0 then Some (Inl ''token sub invalid'')
               else do {
                 did \<leftarrow> get_string J payload ''did'';
                 Some (Inr \<lparr>jc_user_id = uid, jc_device_id = did, jc_iat = ia, jc_exp = ex,
                            jc_iss = is, jc_raw_payload = payload\<rparr>)
               }
         }
       }
     }"

definition Verify ::
  "'j json_lib \<Rightarrow> crypto_lib \<Rightarrow> JwtConfig \<Rightarrow> int \<Rightarrow> string \<Rightarrow> (string + 'j JwtClaims) option" where
  "Verify J K cfg now token =
     (let parts = Split token (CHR ''.'') in
      if length parts \<noteq> 3 \<or> parts ! 0 = [] \<or> parts ! 1 = [] \<or> parts ! 2 = []
      then Some (Inl ''token format invalid'')
      else if \<not> fst (Decode K (parts ! 0)) \<or> \<not> fst (Decode K (parts ! 1))
      then Some (Inl ''token base64 decode failed'')
      else
        case j_parse J (snd (Decode K (parts ! 0))) of
          None \<Rightarrow> Some (Inl ''token header invalid'')
        | Some header \<Rightarrow>
            if \<not> j_is_object J header then Some (Inl ''token header invalid'')
            else
              case j_parse J (snd (Decode K (parts ! 1))) of
                None \<Rightarrow> Some (Inl ''token payload invalid'')
              | Some payload \<Rightarrow>
                  if \<not> j_is_object J payload then Some (Inl ''token payload invalid'')
                  else do {
                    alg \<leftarrow> get_string J header ''alg'';
                    if alg \<noteq> ''HS256'' then Some (Inl ''token alg invalid'')
                    else
                      let signing_input = parts ! 0 @ ''.'' @ parts ! 1 in
                      case hmac_sha256 K (jwt_secret cfg) signing_input of
                        None \<Rightarrow> Some (Inl ''hmac failed'')
                      | Some digest \<Rightarrow>
                          let expected_sig = snd (Encode K digest) in
                          if length expected_sig \<noteq> length (parts ! 2)
                             \<or> crypto_memcmp K expected_sig (parts ! 2) \<noteq> 0
                          then Some (Inl ''token signature invalid'')
                          else check_claims J cfg now payload
                  })"

section \<open>Splitting\<close>

fun join :: "string \<Rightarrow> string list \<Rightarrow> string" where
  "join sep [] = []"
| "join sep [x] = x"
| "join sep (x # y # xs) = x @ sep @ join sep (y # xs)"

lemma join_snoc: "xs \<noteq> [] \<Longrightarrow> join sep (xs @ [y]) = join sep xs @ sep @ y"
  by (induction sep xs rule: join.induct) auto

lemma Split_loop_join:
  "join [ch] (Split_loop s ch parts current) = join [ch] (parts @ [current]) @ s"
proof (induction s ch parts current rule: Split_loop.induct)
  case (1 ch parts current)
  show ?case by simp
next
  case (2 c s ch parts current)
  then show ?case
    using join_snoc [of "parts @ [current]" "[ch]" "[]"]
    by (cases "parts = []") (auto simp: join_snoc)
qed

lemma Split_loop_no_sep:
  "ch \<notin> set current \<Longrightarrow> \<forall>p \<in> set parts. ch \<notin> set p \<Longrightarrow>
     \<forall>p \<in> set (Split_loop s ch parts current). ch \<notin> set p"
  by (induction s ch parts current rule: Split_loop.induct) auto

lemma Split_loop_length:
  "length (Split_loop s ch parts current) = length parts + 1 + count_list s ch"
  by (induction s ch parts current rule: Split_loop.induct) auto

lemma Split_loop_char:
  "\<forall>p \<in> set xs. ch \<notin> set p \<Longrightarrow> ch \<notin> set x \<Longrightarrow>
     Split_loop (join [ch] (x # xs)) ch parts current = parts @ (current @ x) # xs"
proof (induction xs arbitrary: x parts current)
  case Nil
  have "ch \<notin> set x \<Longrightarrow> Split_loop x ch parts current = parts @ [current @ x]" for x
    by (induction x arbitrary: current) auto
  with Nil show ?case by simp
next
  case (Cons y ys)
  have "ch \<notin> set x \<Longrightarrow> Split_loop (x @ ch # z) ch parts current
      = Split_loop z ch (parts @ [current @ x]) []" for x z
    by (induction x arbitrary: current) auto
  with Cons show ?case by simp
qed

text \<open>
  \<open>Split\<close> cuts a string at every separator and loses nothing: joining the parts gives the string
  back, no part contains the separator, there is one part more than separators, and splitting
  joined separator-free parts returns them.
\<close>

theorem Split_join:
  "join [ch] (Split s ch) = s \<and> (\<forall>p \<in> set (Split s ch). ch \<notin> set p) \<and>
   length (Split s ch) = 1 + count_list s ch \<and>
   ((\<forall>p \<in> set (x # xs). ch \<notin> set p) \<longrightarrow> Split (join [ch] (x # xs)) ch = x # xs)"
  using Split_loop_join [of ch s "[]" "[]"] Split_loop_no_sep [of ch "[]" "[]" s]
    Split_loop_length [of s ch "[]" "[]"] Split_loop_char [of xs ch x "[]" "[]"]
  by (auto simp: Split_def)

theorem Split_join_witness:
  "Split ''h.p.s'' (CHR ''.'') = [''h'', ''p'', ''s'']"
  using Split_join [of "CHR ''.''" "[]" "''h''" "[''p'', ''s'']"] by simp

section \<open>Numbers\<close>

lemma takeWhile_digits: "list_all is_digit s \<Longrightarrow> takeWhile is_digit s = s \<and> dropWhile is_digit s = []"
  by (induction s) auto

lemma digit_first:
  assumes "is_digit c"
  shows "c \<noteq> CHR 0x00" "\<not> is_space c" "c \<noteq> CHR ''-''" "c \<noteq> CHR ''+''"
  using assms by (auto simp: is_digit_def is_space_def)

lemma c_str_digits: "list_all is_digit s \<Longrightarrow> c_str s = s"
  unfolding c_str_def takeWhile_eq_all_conv list_all_iff using digit_first(1) by blast

lemma strtoull_digits:
  assumes "list_all is_digit s" "s \<noteq> []" "foldl (\<lambda>v c. 10 * v + digit_value c) 0 s < 2 ^ 64"
  shows "strtoull s = (word_of_nat (foldl (\<lambda>v c. 10 * v + digit_value c) 0 s), [])"
proof -
  obtain c cs where s: "s = c # cs" using assms(2) by (cases s) auto
  with assms(1) have "is_digit c" by simp
  from digit_first [OF this] s have 1: "dropWhile is_space s = s"
    and 2: "(case s of [] \<Rightarrow> (False, s) | c # cs \<Rightarrow> if c = CHR ''-'' then (True, cs)
        else if c = CHR ''+'' then (False, cs) else (False, s)) = (False, s)"
    by simp_all
  define v where "v = foldl (\<lambda>v c. 10 * v + digit_value c) 0 s"
  have 3: "\<not> 2 ^ 64 \<le> v" using assms(3) by (simp only: v_def not_le)
  show ?thesis
    unfolding strtoull_def Let_def 1 2 prod.case takeWhile_digits [OF assms(1), THEN conjunct1]
      takeWhile_digits [OF assms(1), THEN conjunct2] v_def [symmetric]
    using assms(2) 3 by simp
qed

text \<open>
  \<open>ParseUInt64\<close> reads back the decimal text of every 64-bit user id.
\<close>

theorem ParseUInt64_roundtrip: "ParseUInt64 (show_u64 u) = Some u"
proof -
  have v: "foldl (\<lambda>v c. 10 * v + digit_value c) 0 (show_nat (unat u)) = unat u"
    by (rule show_nat_value)
  moreover have "unat u < 2 ^ 64" using unsigned_less [of u] by simp
  ultimately show ?thesis
    using strtoull_digits [OF show_nat_digits [of "unat u"]]
    by (simp add: ParseUInt64_def show_u64_def c_str_digits [OF show_nat_digits] split_beta)
qed

text \<open>
  \<open>ParseUInt64\<close> is not a check that its input is a decimal 64-bit number: it accepts leading
  white space and signs, negates \<open>-1\<close> to the largest id, saturates a number that is too large to
  the same id, and ignores everything after an embedded NUL.
\<close>

theorem ParseUInt64_lenient:
  "ParseUInt64 '' 7'' = Some 7 \<and> ParseUInt64 ''+7'' = Some 7 \<and>
   ParseUInt64 ''-1'' = Some 18446744073709551615 \<and>
   ParseUInt64 ''99999999999999999999'' = Some 18446744073709551615 \<and>
   ParseUInt64 (''7'' @ [CHR 0x00] @ ''x'') = Some 7 \<and> ParseUInt64 ''7x'' = None"
  by (intro conjI) (simp_all add: ParseUInt64_def c_str_def strtoull_def is_space_def is_digit_def
      digit_value_def Let_def)

section \<open>What an accepted token is\<close>

text \<open>Documented behaviour of \<open>CRYPTO_memcmp\<close>: zero exactly for equal buffers.\<close>

definition memcmp_law :: "crypto_lib \<Rightarrow> bool" where
  "memcmp_law K \<longleftrightarrow> (\<forall>a b. length a = length b \<longrightarrow> (crypto_memcmp K a b = 0 \<longleftrightarrow> a = b))"

definition payload_accepted :: "'j json_lib \<Rightarrow> JwtConfig \<Rightarrow> int \<Rightarrow> 'j \<Rightarrow> 'j JwtClaims \<Rightarrow> bool" where
  "payload_accepted J cfg now payload c \<longleftrightarrow>
     jc_raw_payload c = payload \<and>
     get_string J payload ''iss'' = Some (jc_iss c) \<and> jc_iss c = jwt_issuer cfg \<and>
     get_int64 J payload ''exp'' = Some (jc_exp c) \<and> get_int64 J payload ''iat'' = Some (jc_iat c) \<and>
     0 < jc_exp c \<and> now \<le> i64 (jc_exp c + jwt_clock_skew_seconds cfg) \<and>
     (jc_iat c \<le> 0 \<or> jc_iat c \<le> i64 (now + jwt_clock_skew_seconds cfg)) \<and>
     (\<exists>sub. sub_text J payload = Some sub \<and> ParseUInt64 sub = Some (jc_user_id c)) \<and>
     jc_user_id c \<noteq> 0 \<and> get_string J payload ''did'' = Some (jc_device_id c)"

definition signed_by :: "crypto_lib \<Rightarrow> string \<Rightarrow> string \<Rightarrow> string \<Rightarrow> string \<Rightarrow> bool" where
  "signed_by K secret h p s \<longleftrightarrow>
     (\<exists>digest. hmac_sha256 K secret (h @ ''.'' @ p) = Some digest \<and> s = snd (Encode K digest))"

definition token_accepted ::
  "'j json_lib \<Rightarrow> crypto_lib \<Rightarrow> JwtConfig \<Rightarrow> int \<Rightarrow> string \<Rightarrow> 'j JwtClaims \<Rightarrow> bool" where
  "token_accepted J K cfg now token c \<longleftrightarrow>
     (\<exists>h p s header.
        token = h @ ''.'' @ p @ ''.'' @ s \<and> h \<noteq> [] \<and> p \<noteq> [] \<and> s \<noteq> [] \<and>
        CHR ''.'' \<notin> set h \<union> set p \<union> set s \<and>
        j_parse J (snd (Decode K h)) = Some header \<and> j_is_object J header \<and>
        get_string J header ''alg'' = Some ''HS256'' \<and>
        signed_by K (jwt_secret cfg) h p s \<and>
        j_parse J (snd (Decode K p)) = Some (jc_raw_payload c) \<and>
        j_is_object J (jc_raw_payload c) \<and>
        payload_accepted J cfg now (jc_raw_payload c) c)"

lemma check_claims_iff:
  "check_claims J cfg now payload = Some (Inr c) \<longleftrightarrow> payload_accepted J cfg now payload c"
proof
  assume "check_claims J cfg now payload = Some (Inr c)"
  then show "payload_accepted J cfg now payload c"
    by (auto simp: check_claims_def payload_accepted_def split: bind_splits if_splits option.splits)
next
  assume "payload_accepted J cfg now payload c"
  then show "check_claims J cfg now payload = Some (Inr c)"
    by (auto simp: check_claims_def payload_accepted_def)
qed

lemma Split_three:
  "Split token (CHR ''.'') = [h, p, s] \<longleftrightarrow>
     token = h @ ''.'' @ p @ ''.'' @ s \<and> CHR ''.'' \<notin> set h \<union> set p \<union> set s"
  using Split_loop_join [of "CHR ''.''" token "[]" "[]"]
    Split_loop_no_sep [of "CHR ''.''" "[]" "[]" token]
    Split_loop_char [of "[p, s]" "CHR ''.''" h "[]" "[]"]
  by (auto simp: Split_def)

lemma Verify_parts:
  assumes "memcmp_law K" "Split token (CHR ''.'') = [h, p, s]"
  shows "Verify J K cfg now token = Some (Inr c) \<longleftrightarrow>
    h \<noteq> [] \<and> p \<noteq> [] \<and> s \<noteq> [] \<and>
    (\<exists>header payload. j_parse J (snd (Decode K h)) = Some header \<and> j_is_object J header \<and>
       j_parse J (snd (Decode K p)) = Some payload \<and> j_is_object J payload \<and>
       get_string J header ''alg'' = Some ''HS256'' \<and> signed_by K (jwt_secret cfg) h p s \<and>
       check_claims J cfg now payload = Some (Inr c))"
proof -
  have same: "crypto_memcmp K e e = 0" for e
    using assms(1) by (simp add: memcmp_law_def)
  have differ: "length e = length s \<Longrightarrow> crypto_memcmp K e s = 0 \<Longrightarrow> s = e" for e
    using assms(1) by (simp add: memcmp_law_def)
  have dec: "fst (Decode K x)" for x by (simp add: Decode_def)
  show ?thesis
    unfolding Verify_def assms(2) Let_def signed_by_def
    by (auto simp: dec same dest: differ split: option.splits bind_splits if_splits)
qed

lemma Verify_iff:
  assumes "memcmp_law K"
  shows "Verify J K cfg now token = Some (Inr c) \<longleftrightarrow> token_accepted J K cfg now token c"
proof
  assume v: "Verify J K cfg now token = Some (Inr c)"
  then have "length (Split token (CHR ''.'')) = 3"
    by (auto simp: Verify_def Let_def split: if_splits)
  then obtain h p s where sp: "Split token (CHR ''.'') = [h, p, s]"
    by (auto simp: numeral_3_eq_3 length_Suc_conv)
  from v [unfolded Verify_parts [OF assms sp] check_claims_iff] obtain header payload where
    1: "h \<noteq> []" "p \<noteq> []" "s \<noteq> []" "j_parse J (snd (Decode K h)) = Some header" "j_is_object J header"
    "j_parse J (snd (Decode K p)) = Some payload" "j_is_object J payload"
    "get_string J header ''alg'' = Some ''HS256''" "signed_by K (jwt_secret cfg) h p s"
    "payload_accepted J cfg now payload c" by (elim conjE exE) (rule that; assumption)
  from 1(10) have "payload = jc_raw_payload c" by (simp add: payload_accepted_def)
  with 1 Split_three [THEN iffD1, OF sp] show "token_accepted J K cfg now token c"
    unfolding token_accepted_def
    by (intro exI [of _ h] exI [of _ p] exI [of _ s] exI [of _ header]) simp
next
  assume "token_accepted J K cfg now token c"
  then obtain h p s header where t: "token = h @ ''.'' @ p @ ''.'' @ s" "h \<noteq> []" "p \<noteq> []" "s \<noteq> []"
    "CHR ''.'' \<notin> set h \<union> set p \<union> set s" "j_parse J (snd (Decode K h)) = Some header"
    "j_is_object J header" "get_string J header ''alg'' = Some ''HS256''"
    "signed_by K (jwt_secret cfg) h p s" "j_parse J (snd (Decode K p)) = Some (jc_raw_payload c)"
    "j_is_object J (jc_raw_payload c)" "payload_accepted J cfg now (jc_raw_payload c) c"
    unfolding token_accepted_def by (elim exE conjE) (rule that; assumption)
  then have "Split token (CHR ''.'') = [h, p, s]" by (simp add: Split_three)
  from t show "Verify J K cfg now token = Some (Inr c)"
    unfolding Verify_parts [OF assms \<open>Split token _ = _\<close>] check_claims_iff
    by (intro conjI exI [of _ header] exI [of _ "jc_raw_payload c"])
qed

text \<open>
  C7. A token is accepted, with claims \<open>c\<close>, exactly when it is \<open>h.p.s\<close> with nonempty dot-free parts,
  the header decodes to an object with \<open>alg\<close> HS256, \<open>s\<close> is the base64url text of the HMAC of \<open>h.p\<close>
  under the configured secret, and the payload that \<open>p\<close> decodes to has the configured issuer, a
  positive \<open>exp\<close> that is not past by more than the clock skew, an \<open>iat\<close> that is not ahead by more
  than it, and a nonzero user id; the claims are those of that payload.
\<close>

theorem Verify_accepts_iff:
  assumes "memcmp_law K"
  shows "Verify J K cfg now token = Some (Inr c) \<longleftrightarrow> token_accepted J K cfg now token c"
  by (rule Verify_iff [OF assms])

definition demo_crypto :: crypto_lib where
  "demo_crypto = ref_crypto (\<lambda>key data. Some (key @ [CHR 0x01]))"

definition demo_jwt :: JwtConfig where
  "demo_jwt = \<lparr>jwt_algorithm = ''HS256'', jwt_secret = ''ab'', jwt_issuer = ''i'', jwt_clock_skew_seconds = 60\<rparr>"

definition demo_json :: "json json_lib" where
  "demo_json = ref_json [(''H'', JObj [(''alg'', JStr ''HS256'')]),
     (''P'', JObj [(''iss'', JStr ''i''), (''exp'', JInt 100), (''sub'', JStr ''7''), (''did'', JStr ''d'')]),
     (''X'', JObj [(''alg'', JObj [])])]"

definition demo_claims :: "json JwtClaims" where
  "demo_claims = \<lparr>jc_user_id = 7, jc_device_id = ''d'', jc_iat = 0, jc_exp = 100, jc_iss = ''i'',
     jc_raw_payload = JObj [(''iss'', JStr ''i''), (''exp'', JInt 100), (''sub'', JStr ''7''), (''did'', JStr ''d'')]\<rparr>"

lemma demo_memcmp: "memcmp_law demo_crypto"
  by (simp add: memcmp_law_def demo_crypto_def ref_crypto_def)

text \<open>Any table with the two parts of the token serves.\<close>

lemma table_accepted:
  assumes "map_of texts ''H'' = Some (JObj [(''alg'', JStr ''HS256'')])"
    and "map_of texts ''P'' = Some (jc_raw_payload demo_claims)"
  shows "token_accepted (ref_json texts) demo_crypto demo_jwt 150 ''SA.UA.YWIB'' demo_claims"
proof -
  have "snd (Decode demo_crypto ''SA'') = ''H''" "snd (Decode demo_crypto ''UA'') = ''P''"
    "snd (Encode demo_crypto (''ab'' @ [CHR 0x01])) = ''YWIB''" by code_simp+
  moreover have "ParseUInt64 ''7'' = Some 7"
    by (simp add: ParseUInt64_def c_str_def strtoull_def is_space_def is_digit_def digit_value_def
        Let_def)
  ultimately show ?thesis
    using assms unfolding token_accepted_def signed_by_def
    by (intro exI [of _ "''SA''"] exI [of _ "''UA''"] exI [of _ "''YWIB''"]
        exI [of _ "JObj [(''alg'', JStr ''HS256'')]"])
      (simp add: payload_accepted_def demo_claims_def demo_jwt_def ref_json_defs
        sub_text_def demo_crypto_def ref_crypto_def)
qed

lemma demo_accepted: "token_accepted demo_json demo_crypto demo_jwt 150 ''SA.UA.YWIB'' demo_claims"
  unfolding demo_json_def by (rule table_accepted) (simp_all add: demo_claims_def)

theorem Verify_accepts_iff_witness:
  "Verify demo_json demo_crypto demo_jwt 150 ''SA.UA.YWIB'' = Some (Inr demo_claims) \<and>
   token_accepted demo_json demo_crypto demo_jwt 150 ''SA.UA.YWIB'' demo_claims"
  using Verify_accepts_iff [OF demo_memcmp] demo_accepted by blast

text \<open>
  A token whose header has an \<open>alg\<close> that is not convertible to a string (an object or an array)
  makes \<open>Verify\<close> throw instead of returning an error, whatever the secret: the exception needs no
  valid signature and is raised before any is computed.
\<close>

theorem Verify_throws_unauthenticated:
  assumes "Split token (CHR ''.'') = [h, p, s]" "h \<noteq> []" "p \<noteq> []" "s \<noteq> []"
    and "j_parse J (snd (Decode K h)) = Some header" "j_is_object J header"
    and "j_parse J (snd (Decode K p)) = Some payload" "j_is_object J payload"
    and "get_string J header ''alg'' = None"
  shows "Verify J K cfg now token = None"
  using assms by (simp add: Verify_def Let_def Decode_def)

theorem Verify_throws_unauthenticated_witness:
  "Verify demo_json demo_crypto demo_jwt 0 ''WA.UA.x'' = None"
proof -
  have "Split ''WA.UA.x'' (CHR ''.'') = [''WA'', ''UA'', ''x'']" by code_simp
  moreover have "snd (Decode demo_crypto ''WA'') = ''X''" "snd (Decode demo_crypto ''UA'') = ''P''"
    by code_simp+
  ultimately show ?thesis
    by (intro Verify_throws_unauthenticated [where header = "JObj [(''alg'', JObj [])]"
          and payload = "jc_raw_payload demo_claims"])
      (assumption | simp add: demo_json_def ref_json_defs demo_claims_def)+
qed

end
