(* ===== verification/Chat_Servlet.thy ===== *)
theory Chat_Servlet
  imports Mq_To_Ws Jwt
begin

text \<open>
  \<open>chat/chat_servlet.{h,cc}\<close>: the three callbacks of a WebSocket session. The request header is a value of
  the framework that \<open>onConnect\<close> returns updated; the clock readings and the IO manager of the calling
  thread are arguments. A callback's return code is \<open>None\<close> when an exception leaves it.
\<close>

section \<open>The callbacks\<close>

definition CloseSessionOnOwner :: "ptr \<Rightarrow> 'j service \<Rightarrow> 'j service" where
  "CloseSessionOnOwner c s =
     (case oc_session (sv_heap s c) of
        None \<Rightarrow> s
      | Some w \<Rightarrow>
          (case oc_io_manager (sv_heap s c) of
             None \<Rightarrow> perform [CloseSession w] s
           | Some iom \<Rightarrow> schedule iom (CloseTask c) s))"

definition SendKickedOnOwner :: "'j json_lib \<Rightarrow> string \<Rightarrow> ptr \<Rightarrow> 'j service \<Rightarrow> 'j service" where
  "SendKickedOnOwner J reason c s =
     (if oc_session (sv_heap s c) = None then s
      else let kicked = j_set J (j_null J) ''reason'' (j_string J reason)
           in case oc_io_manager (sv_heap s c) of
                Some iom \<Rightarrow> schedule iom (KickTask c kicked) s
              | None \<Rightarrow> send_frame J (oc_session (sv_heap s c)) ''kicked'' kicked False 0 s)"

definition kBearer :: string where
  "kBearer = ''Bearer ''"

definition kProtoPrefix :: string where
  "kProtoPrefix = ''bearer.''"

definition ExtractToken :: "'h http_lib \<Rightarrow> 'h \<Rightarrow> string" where
  "ExtractToken H header =
     (let token = getParam H header ''token'' in
      if token \<noteq> [] then token
      else
        let auth = getHeader H header ''Authorization'' in
        if take (length kBearer) auth = kBearer \<and> length auth > length kBearer
        then drop (length kBearer) auth
        else
          let subprotocol = getHeader H header ''Sec-WebSocket-Protocol'' in
          if take (length kProtoPrefix) subprotocol = kProtoPrefix \<and> length subprotocol > length kProtoPrefix
          then drop (length kProtoPrefix) subprotocol
          else [])"

definition AllocFallbackDeviceId :: "u64 \<Rightarrow> 'j service \<Rightarrow> string \<times> 'j service" where
  "AllocFallbackDeviceId uid s =
     (let seq = sv_device_seq s + 1
      in (''device-'' @ show_u64 uid @ ''-'' @ show_u64 seq, s\<lparr>sv_device_seq := seq\<rparr>))"

definition max_devices :: "ChatConfig \<Rightarrow> nat" where
  "max_devices cfg = unat (word_of_int (chat_max_devices_per_user (m_chat cfg)) :: 64 word)"

text \<open>The branch of \<open>onConnect\<close> for a missing or rejected token (lines 91-100).\<close>

definition auth_fail :: "'j json_lib \<Rightarrow> string \<Rightarrow> sid \<Rightarrow> 'j service \<Rightarrow> 'j service" where
  "auth_fail J err session s =
     (let s = count_metric (IncJwtVerifyFail (if err = [] then ''empty_token'' else err)) s;
          data = j_set J (j_null J) ''code'' (j_int J 401);
          data = j_set J data ''msg'' (j_string J (if err = [] then ''missing token'' else err));
          s = send_frame J (Some session) ''auth_fail'' data False 0 s
      in perform [CloseSession session] s)"

text \<open>The rest of \<open>onConnect\<close>, from the creation of the connection object on (lines 103-136).\<close>

definition register_conn ::
  "'h http_lib \<Rightarrow> 'j json_lib \<Rightarrow> ChatConfig \<Rightarrow> int \<Rightarrow> int \<Rightarrow> nat option \<Rightarrow> 'j JwtClaims \<Rightarrow> string \<Rightarrow> 'h \<Rightarrow> sid
     \<Rightarrow> 'j service \<Rightarrow> int option \<times> 'h \<times> 'j service" where
  "register_conn H J cfg now_ms iso_ms iom claims device_id header session s =
     (let uid = jc_user_id claims;
          first_device = (\<not> IsUserOnline uid (sv_registry s));
          conn = sv_next s;
          s = s\<lparr>sv_heap := (sv_heap s)(conn := new_OnlineConn uid device_id (Some session) iom now_ms
                                 (chat_frame_rate_limit_per_second (m_chat cfg))),
                sv_next := conn + 1\<rparr>
      in case Add (sv_heap s) (Some conn) (max_devices cfg) (sv_registry s) of (replaced, evicted, reg) \<Rightarrow>
           let s = s\<lparr>sv_registry := reg\<rparr>;
               s = (case replaced of
                      None \<Rightarrow> s
                    | Some old \<Rightarrow> CloseSessionOnOwner old (SendKickedOnOwner J ''login_elsewhere'' old s));
               s = fold (\<lambda>e s. CloseSessionOnOwner e (SendKickedOnOwner J ''too_many_devices'' e s)) evicted s;
               header = setHeader H header ''$uid'' (show_u64 uid);
               header = setHeader H header ''$did'' device_id;
               header = setHeader H header ''$exp'' (show_int (jc_exp claims));
               auth_ok = j_set J (j_null J) ''userId'' (j_uint J uid);
               auth_ok = j_set J auth_ok ''deviceId'' (j_string J device_id);
               auth_ok = j_set J auth_ok ''serverTime'' (j_string J (Iso8601Now iso_ms));
               s = send_frame J (Some session) ''auth_ok'' auth_ok False 0 s;
               s = count_metric (IncWsOut ''auth_ok'') s;
               s = (if first_device then snd (on_publisher (PublishUserOnline J (m_rabbitmq cfg) uid) s) else s)
           in (Some 0, header, s))"

definition onConnect ::
  "'h http_lib \<Rightarrow> 'j json_lib \<Rightarrow> crypto_lib \<Rightarrow> ChatConfig \<Rightarrow> int \<Rightarrow> int \<Rightarrow> int \<Rightarrow> nat option \<Rightarrow> 'h \<Rightarrow> sid
     \<Rightarrow> 'j service \<Rightarrow> int option \<times> 'h \<times> 'j service" where
  "onConnect H J K cfg now_s now_ms iso_ms iom header session s =
     (let token = ExtractToken H header in
      case (if token = [] then Some (Inl '''') else Verify J K (m_jwt cfg) now_s token) of
        None \<Rightarrow> (None, header, s)
      | Some (Inl err) \<Rightarrow> (Some (-1), header, auth_fail J err session s)
      | Some (Inr claims) \<Rightarrow>
          (case (if jc_device_id claims = [] then AllocFallbackDeviceId (jc_user_id claims) s
                 else (jc_device_id claims, s)) of
             (device_id, s) \<Rightarrow>
               register_conn H J cfg now_ms iso_ms iom claims device_id header session s))"

definition header_uid :: "'h http_lib \<Rightarrow> 'h \<Rightarrow> u64" where
  "header_uid H header = word_of_int (Atoi H (getHeader H header ''$uid''))"

definition onClose ::
  "'h http_lib \<Rightarrow> 'j json_lib \<Rightarrow> ChatConfig \<Rightarrow> 'h \<Rightarrow> sid \<Rightarrow> 'j service \<Rightarrow> int option \<times> 'j service" where
  "onClose H J cfg header session s =
     (let uid = header_uid H header;
          did = getHeader H header ''$did''
      in if uid = 0 \<or> did = [] then (Some 0, s)
         else
           let s = s\<lparr>sv_registry := snd (Remove uid did (sv_registry s))\<rparr>;
               s = (if \<not> IsUserOnline uid (sv_registry s)
                    then snd (on_publisher (PublishUserOffline J (m_rabbitmq cfg) uid) s) else s)
           in (Some 0, s))"

text \<open>The dispatch on the type of a frame that has passed the checks (lines 183-208).\<close>

definition dispatch_frame ::
  "'j json_lib \<Rightarrow> ChatConfig \<Rightarrow> int \<Rightarrow> int \<Rightarrow> bool \<Rightarrow> u64 \<Rightarrow> string \<Rightarrow> sid \<Rightarrow> 'j ClientFrame \<Rightarrow> 'j service
     \<Rightarrow> int option \<times> 'j service" where
  "dispatch_frame J cfg iso_ms now_ms log_info uid did session frame s =
     (let s = count_metric (IncWsIn (cf_type frame)) s in
      if cf_type frame = ''ping'' then
        (case j_get J (cf_data frame) ''ts'' (j_int J now_ms) of
           None \<Rightarrow> (None, s)
         | Some ts \<Rightarrow>
             let pong_data = j_set J (j_null J) ''ts'' ts;
                 s = send_frame J (Some session) ''pong'' pong_data (cf_has_seq frame) (cf_seq frame) s
             in (Some 0, count_metric (IncWsOut ''pong'') s))
      else if cf_type frame = ''msg.send'' then
        HandleMsgSend J cfg iso_ms now_ms uid did (Some session) (cf_has_seq frame) (cf_seq frame) (cf_data frame) s
      else if cf_type frame = ''msg.ack'' then
        HandleMsgAck J cfg iso_ms uid (Some session) (cf_has_seq frame) (cf_seq frame) (cf_data frame) s
      else if cf_type frame = ''msg.read'' then HandleMsgRead J log_info (cf_data frame) s
      else if cf_type frame = ''bye'' then (Some 1, s)
      else (Some 0, send_error J (Some session) 404 ''unknown type'' (cf_has_seq frame) (cf_seq frame) s))"

definition handle ::
  "'h http_lib \<Rightarrow> 'j json_lib \<Rightarrow> ChatConfig \<Rightarrow> int \<Rightarrow> int \<Rightarrow> bool \<Rightarrow> 'h \<Rightarrow> bool \<Rightarrow> string \<Rightarrow> sid \<Rightarrow> 'j service
     \<Rightarrow> int option \<times> 'j service" where
  "handle H J cfg iso_ms now_ms log_info header is_text msg session s =
     (if \<not> is_text then (Some 1, send_error J (Some session) 400 ''text frame required'' False 0 s)
      else
        let uid = header_uid H header;
            did = getHeader H header ''$did''
        in if uid = 0 \<or> did = [] then (Some 1, send_error J (Some session) 401 ''unauthorized'' False 0 s)
        else
          case (case Get uid did (sv_registry s) of
                  None \<Rightarrow> (True, s)
                | Some c \<Rightarrow>
                    (case ConsumeToken now_ms (chat_frame_rate_limit_per_second (m_chat cfg)) (sv_heap s c) of
                       (ok, conn) \<Rightarrow> (ok, s\<lparr>sv_heap := (sv_heap s)(c := conn)\<rparr>))) of
            (allowed, s) \<Rightarrow>
              if \<not> allowed then (Some 1, send_error J (Some session) 429 ''too many frames'' False 0 s)
              else
                let s = s\<lparr>sv_heap := Touch uid did now_ms (sv_registry s) (sv_heap s)\<rparr>
                in case ParseClientFrame J msg of
                     None \<Rightarrow> (None, s)
                   | Some (Inl err) \<Rightarrow> (Some 0, send_error J (Some session) 400 err False 0 s)
                   | Some (Inr frame) \<Rightarrow> dispatch_frame J cfg iso_ms now_ms log_info uid did session frame s)"

section \<open>The invariant of the service\<close>

definition task_conn :: "'j task \<Rightarrow> ptr" where
  "task_conn t = (case t of PushTask c _ _ _ _ \<Rightarrow> c | KickTask c _ \<Rightarrow> c | CloseTask c \<Rightarrow> c)"

text \<open>
  The registry is well formed for the configured device limit and files nobody under user zero, the
  pending sends are a map, every connection that is registered or captured by a scheduled closure has
  been created, and the publisher's queue is within its capacity.
\<close>

definition service_wf :: "ChatConfig \<Rightarrow> 'j service \<Rightarrow> bool" where
  "service_wf cfg s \<longleftrightarrow> registry_wf (sv_heap s) (max_devices cfg) (sv_registry s) \<and> pending_wf s \<and>
     (\<forall>uid did c. Get uid did (sv_registry s) = Some c \<longrightarrow> c < sv_next s \<and> uid \<noteq> 0) \<and>
     (\<forall>(iom, t) \<in> set (sv_tasks s). task_conn t < sv_next s) \<and>
     length (Publisher.m_queue (sv_publisher s)) \<le> queue_capacity (m_rabbitmq cfg)"

text \<open>A change of a connection object that keeps who and where it is.\<close>

definition same_place :: "OnlineConn \<Rightarrow> OnlineConn \<Rightarrow> bool" where
  "same_place c c' \<longleftrightarrow> oc_user_id c' = oc_user_id c \<and> oc_device_id c' = oc_device_id c \<and>
     oc_session c' = oc_session c \<and> oc_io_manager c' = oc_io_manager c \<and> oc_login_at c' = oc_login_at c"

lemma devices_Get: "registry_wf h mx r \<Longrightarrow> (did, c) \<in> set (devices r uid) \<longleftrightarrow> Get uid did r = Some c"
  using devices_facts(1) by (simp add: Get_devices)

lemma registry_wf_heap:
  assumes "registry_wf h mx r"
    and "\<And>uid did c. Get uid did r = Some c \<Longrightarrow> oc_user_id (h' c) = oc_user_id (h c) \<and>
      oc_device_id (h' c) = oc_device_id (h c)"
  shows "registry_wf h' mx r"
  unfolding registry_wf_def
proof (intro conjI allI impI)
  fix uid m
  assume m: "map_of (m_conns r) uid = Some m"
  then have wf: "devices_wf h mx uid m" and d: "devices r uid = m"
    using assms(1) by (simp_all add: registry_wf_def devices_def)
  have "oc_user_id (h' c) = uid \<and> oc_device_id (h' c) = did" if "(did, c) \<in> set m" for did c
    using that wf assms(2) devices_Get [OF assms(1), of did c uid] d by (simp add: devices_wf_def)
  with wf show "devices_wf h' mx uid m" by (simp add: devices_wf_def)
qed (use assms(1) in \<open>simp add: registry_wf_def\<close>)

lemma ConsumeToken_place: "same_place c (snd (ConsumeToken now rate c))"
  by (simp add: ConsumeToken_def same_place_def)

lemma Touch_place: "same_place (h c) (Touch uid did now r h c)"
  by (simp add: Touch_def same_place_def split: option.split)

lemma service_wf_frame:
  assumes "service_wf cfg s" "sv_registry s' = sv_registry s" "sv_next s' = sv_next s"
    "sv_publisher s' = sv_publisher s" "pending_wf s'"
    and "\<And>c. same_place (sv_heap s c) (sv_heap s' c)"
    and "\<And>iom t. (iom, t) \<in> set (sv_tasks s') \<Longrightarrow> (iom, t) \<in> set (sv_tasks s) \<or> task_conn t < sv_next s"
  shows "service_wf cfg s'"
proof -
  have "registry_wf (sv_heap s') (max_devices cfg) (sv_registry s')"
    unfolding assms(2)
  proof (rule registry_wf_heap [of "sv_heap s"])
    show "registry_wf (sv_heap s) (max_devices cfg) (sv_registry s)" using assms(1) by (simp add: service_wf_def)
  qed (use assms(6) in \<open>simp add: same_place_def\<close>)
  moreover have "\<forall>(iom, t) \<in> set (sv_tasks s'). task_conn t < sv_next s"
    using assms(7) assms(1) by (fastforce simp: service_wf_def)
  ultimately show ?thesis using assms(1-5) by (simp add: service_wf_def)
qed

section \<open>Kicking a connection out\<close>

definition kick :: "'j json_lib \<Rightarrow> string \<Rightarrow> ptr \<Rightarrow> 'j service \<Rightarrow> 'j service" where
  "kick J reason c s = CloseSessionOnOwner c (SendKickedOnOwner J reason c s)"

definition kick_tasks :: "'j json_lib \<Rightarrow> string \<Rightarrow> heap \<Rightarrow> ptr \<Rightarrow> (nat \<times> 'j task) list" where
  "kick_tasks J reason h c =
     (case (oc_session (h c), oc_io_manager (h c)) of
        (Some w, Some iom) \<Rightarrow>
          [(iom, KickTask c (j_set J (j_null J) ''reason'' (j_string J reason))), (iom, CloseTask c)]
      | _ \<Rightarrow> [])"

definition kick_effects :: "'j json_lib \<Rightarrow> string \<Rightarrow> heap \<Rightarrow> ptr \<Rightarrow> effect list" where
  "kick_effects J reason h c =
     (case (oc_session (h c), oc_io_manager (h c)) of
        (Some w, None) \<Rightarrow>
          [SendMessage w (frame_text J ''kicked'' (j_set J (j_null J) ''reason'' (j_string J reason)) False 0),
           CloseSession w]
      | _ \<Rightarrow> [])"

lemma kick_state:
  "kick J reason c s = s\<lparr>sv_tasks := sv_tasks s @ kick_tasks J reason (sv_heap s) c,
     sv_effects := sv_effects s @ kick_effects J reason (sv_heap s) c\<rparr>"
  by (cases "oc_session (sv_heap s c)"; cases "oc_io_manager (sv_heap s c)")
    (simp_all add: kick_def kick_tasks_def kick_effects_def CloseSessionOnOwner_def SendKickedOnOwner_def
      Let_def schedule_def send_frame_perform perform_def)

lemma kicks_state:
  "fold (kick J reason) cs s = s\<lparr>sv_tasks := sv_tasks s @ concat (map (kick_tasks J reason (sv_heap s)) cs),
     sv_effects := sv_effects s @ concat (map (kick_effects J reason (sv_heap s)) cs)\<rparr>"
  by (induction cs arbitrary: s) (simp_all add: kick_state)

text \<open>\<open>register_conn\<close>, one field of the state after another.\<close>

lemma register_conn_state:
  assumes "register_conn H J cfg now_ms iso_ms iom claims did header w s = (rc, header', s')"
    and uid: "uid = jc_user_id claims" and c: "c = sv_next s"
    and h: "h = (sv_heap s)(c := new_OnlineConn uid did (Some w) iom now_ms
                              (chat_frame_rate_limit_per_second (m_chat cfg)))"
    and add: "Add h (Some c) (max_devices cfg) (sv_registry s) = (rep, ev, reg)"
  shows "rc = Some 0" "sv_heap s' = h" "sv_next s' = c + 1" "sv_registry s' = reg" "sv_pending s' = sv_pending s"
    "header' = setHeader H (setHeader H (setHeader H header ''$uid'' (show_u64 uid)) ''$did'' did)
                 ''$exp'' (show_int (jc_exp claims))"
    "sv_tasks s' = sv_tasks s @ (case rep of None \<Rightarrow> [] | Some old \<Rightarrow> kick_tasks J ''login_elsewhere'' h old) @
       concat (map (kick_tasks J ''too_many_devices'' h) ev)"
    "Publisher.m_queue (sv_publisher s') = Publisher.m_queue (sv_publisher s) @
       (if IsUserOnline uid (sv_registry s) \<or>
           queue_capacity (m_rabbitmq cfg) \<le> length (Publisher.m_queue (sv_publisher s)) then []
        else [\<lparr>t_routing_key = ''business.user.online'',
               t_payload = j_set J (j_null J) ''userId'' (j_uint J uid), t_priority = 5\<rparr>])"
    "\<exists>text. sv_effects s' = sv_effects s @
       (case rep of None \<Rightarrow> [] | Some old \<Rightarrow> kick_effects J ''login_elsewhere'' h old) @
       concat (map (kick_effects J ''too_many_devices'' h) ev) @ [SendMessage w text]"
proof -
  have k: "(\<lambda>e s. CloseSessionOnOwner e (SendKickedOnOwner J reason e s)) = kick J reason" for reason
    by (simp add: kick_def fun_eq_iff)
  have k1: "CloseSessionOnOwner e (SendKickedOnOwner J reason e s) = kick J reason e s" for reason e s
    by (simp add: kick_def)
  note eq = assms(1) [symmetric, unfolded register_conn_def Let_def, folded uid c, simplified, folded h]
  show "rc = Some 0" "sv_heap s' = h" "sv_next s' = c + 1" "sv_registry s' = reg" "sv_pending s' = sv_pending s"
    "header' = setHeader H (setHeader H (setHeader H header ''$uid'' (show_u64 uid)) ''$did'' did)
                 ''$exp'' (show_int (jc_exp claims))"
    "sv_tasks s' = sv_tasks s @ (case rep of None \<Rightarrow> [] | Some old \<Rightarrow> kick_tasks J ''login_elsewhere'' h old) @
       concat (map (kick_tasks J ''too_many_devices'' h) ev)"
    "Publisher.m_queue (sv_publisher s') = Publisher.m_queue (sv_publisher s) @
       (if IsUserOnline uid (sv_registry s) \<or>
           queue_capacity (m_rabbitmq cfg) \<le> length (Publisher.m_queue (sv_publisher s)) then []
        else [\<lparr>t_routing_key = ''business.user.online'',
               t_payload = j_set J (j_null J) ''userId'' (j_uint J uid), t_priority = 5\<rparr>])"
    "\<exists>text. sv_effects s' = sv_effects s @
       (case rep of None \<Rightarrow> [] | Some old \<Rightarrow> kick_effects J ''login_elsewhere'' h old) @
       concat (map (kick_effects J ''too_many_devices'' h) ev) @ [SendMessage w text]"
    using eq unfolding k k1
    by (simp_all add: add kicks_state kick_state state_simps send_frame_perform on_publisher_def
        PublishUserOnline_def Publisher.Publish_def split: option.split)
qed

section \<open>Connecting\<close>

lemma kick_tasks_conn: "(iom, t) \<in> set (kick_tasks J reason h c) \<Longrightarrow> task_conn t = c"
  by (auto simp: kick_tasks_def task_conn_def split: option.splits)

text \<open>Adding a new connection object to a well-formed service: everyone named in the outcome has been created.\<close>

lemma Add_created:
  assumes "service_wf cfg s" "1 \<le> max_devices cfg" "uid \<noteq> 0"
    and h: "h = (sv_heap s)(sv_next s := new_OnlineConn uid did w iom now_ms rate)"
    and A: "Add h (Some (sv_next s)) (max_devices cfg) (sv_registry s) = (rep, ev, reg)"
  shows "registry_wf h (max_devices cfg) (sv_registry s)" "registry_wf h (max_devices cfg) reg"
    "Get u d reg = Some c \<Longrightarrow> c < sv_next s + 1 \<and> u \<noteq> 0"
    "c \<in> set_option rep \<union> set ev \<Longrightarrow> c < sv_next s + 1"
proof -
  let ?c = "sv_next s" and ?mx = "max_devices cfg"
  have old: "c < ?c \<and> u \<noteq> 0" if "Get u d (sv_registry s) = Some c" for u d c
    using assms(1) that by (simp add: service_wf_def)
  show wf: "registry_wf h ?mx (sv_registry s)"
  proof (rule registry_wf_heap [of "sv_heap s"])
    show "registry_wf (sv_heap s) ?mx (sv_registry s)" using assms(1) by (simp add: service_wf_def)
    show "oc_user_id (h c) = oc_user_id (sv_heap s c) \<and> oc_device_id (h c) = oc_device_id (sv_heap s c)"
      if "Get u d (sv_registry s) = Some c" for u d c
      using old [OF that] by (simp add: h)
  qed
  have hc: "oc_user_id (h ?c) = uid" "oc_device_id (h ?c) = did" by (simp_all add: h new_OnlineConn_def)
  from Add_result [OF wf assms(2) A] have wf': "registry_wf h ?mx reg"
    and rep: "rep = Get uid did (sv_registry s)"
    and other: "\<And>u. u \<noteq> uid \<Longrightarrow> devices reg u = devices (sv_registry s) u"
    and mem: "set ev \<union> set (GetByUser uid reg) =
      insert ?c {p. \<exists>d. d \<noteq> did \<and> Get uid d (sv_registry s) = Some p}"
    by (simp_all add: hc)
  show "registry_wf h ?mx reg" by (rule wf')
  have le: "p < ?c + 1" if "p \<in> set ev \<union> set (GetByUser uid reg)" for p
    using that old unfolding mem by (auto intro: less_SucI)
  show "c < ?c + 1 \<and> u \<noteq> 0" if g: "Get u d reg = Some c" for u d c
  proof (cases "u = uid")
    case True
    with g devices_Get [OF wf', of d c u] have "c \<in> set (GetByUser uid reg)"
      by (force simp: GetByUser_devices)
    with le True assms(3) show ?thesis by blast
  next
    case False
    with g other old show ?thesis by (fastforce simp: Get_devices)
  qed
  show "c < ?c + 1" if "c \<in> set_option rep \<union> set ev" for c
    using that le rep old by (auto intro: less_SucI)
qed

lemma register_conn_registers:
  assumes "register_conn H J cfg now_ms iso_ms iom claims did header w s = (rc, header', s')"
    and "service_wf cfg s" "1 \<le> max_devices cfg" "jc_user_id claims \<noteq> 0"
  obtains h rep ev reg where
    "h = (sv_heap s)(sv_next s := new_OnlineConn (jc_user_id claims) did (Some w) iom now_ms
                              (chat_frame_rate_limit_per_second (m_chat cfg)))"
    "Add h (Some (sv_next s)) (max_devices cfg) (sv_registry s) = (rep, ev, reg)"
    "registry_wf h (max_devices cfg) (sv_registry s)" "service_wf cfg s'"
proof -
  let ?c = "sv_next s" and ?mx = "max_devices cfg"
  define h where "h = (sv_heap s)(?c := new_OnlineConn (jc_user_id claims) did (Some w) iom now_ms
                              (chat_frame_rate_limit_per_second (m_chat cfg)))"
  obtain rep ev reg where A: "Add h (Some ?c) ?mx (sv_registry s) = (rep, ev, reg)" by (rule prod_cases3)
  note st = register_conn_state [OF assms(1) refl refl h_def A]
  note created = Add_created [OF assms(2-4) h_def A]
  have tasks: "task_conn t < ?c + 1" if "(i, t) \<in> set (sv_tasks s')" for i t
  proof -
    from that consider "(i, t) \<in> set (sv_tasks s)"
      | p reason where "p \<in> set_option rep \<union> set ev" "(i, t) \<in> set (kick_tasks J reason h p)"
      unfolding st(7) by (auto split: option.splits)
    then show ?thesis
    proof cases
      case 1
      with assms(2) show ?thesis by (fastforce simp: service_wf_def)
    next
      case 2
      with created(4) kick_tasks_conn show ?thesis by metis
    qed
  qed
  have "length (Publisher.m_queue (sv_publisher s')) \<le> queue_capacity (m_rabbitmq cfg)"
    using assms(2) by (simp add: st(8) service_wf_def)
  with created(2,3) tasks assms(2) have "service_wf cfg s'"
    unfolding service_wf_def st(2,3,4) by (auto simp: st(5) service_wf_def pending_wf_def)
  with h_def A created(1) show ?thesis by (rule that)
qed

lemma auth_fail_state:
  "sv_registry (auth_fail J err w s) = sv_registry s" "sv_heap (auth_fail J err w s) = sv_heap s"
  "sv_next (auth_fail J err w s) = sv_next s" "sv_publisher (auth_fail J err w s) = sv_publisher s"
  "sv_pending (auth_fail J err w s) = sv_pending s" "sv_tasks (auth_fail J err w s) = sv_tasks s"
  "\<exists>data. sv_effects (auth_fail J err w s) =
     sv_effects s @ [SendMessage w (frame_text J ''auth_fail'' data False 0), CloseSession w]"
  by (simp_all add: auth_fail_def Let_def state_simps send_frame_perform) blast

text \<open>The outcomes of \<open>onConnect\<close>.\<close>

lemma onConnect_cases:
  assumes "onConnect H J K cfg now_s now_ms iso_ms iom header w s = (rc, header', s')"
  obtains (thrown) "rc = None" "header' = header" "s' = s"
      "ExtractToken H header \<noteq> []" "Verify J K (m_jwt cfg) now_s (ExtractToken H header) = None"
  | (refused) err where "rc = Some (-1)" "header' = header" "s' = auth_fail J err w s"
      "ExtractToken H header = [] \<or> Verify J K (m_jwt cfg) now_s (ExtractToken H header) = Some (Inl err)"
  | (accepted) claims did s1 where "ExtractToken H header \<noteq> []"
      "Verify J K (m_jwt cfg) now_s (ExtractToken H header) = Some (Inr claims)"
      "register_conn H J cfg now_ms iso_ms iom claims did header w s1 = (rc, header', s')"
      "s1 = s \<or> s1 = s\<lparr>sv_device_seq := sv_device_seq s + 1\<rparr>" "did \<noteq> []"
      "jc_device_id claims \<noteq> [] \<Longrightarrow> did = jc_device_id claims \<and> s1 = s"
proof -
  consider "ExtractToken H header = []"
    | "ExtractToken H header \<noteq> []" "Verify J K (m_jwt cfg) now_s (ExtractToken H header) = None"
    | err where "ExtractToken H header \<noteq> []" "Verify J K (m_jwt cfg) now_s (ExtractToken H header) = Some (Inl err)"
    | claims where "ExtractToken H header \<noteq> []"
        "Verify J K (m_jwt cfg) now_s (ExtractToken H header) = Some (Inr claims)"
    by (metis option.exhaust sum.exhaust)
  then show ?thesis
  proof cases
    case 1
    with assms show ?thesis by (intro refused [of "[]"]) (simp_all add: onConnect_def)
  next
    case 2
    with assms show ?thesis by (intro thrown) (simp_all add: onConnect_def)
  next
    case 3
    with assms show ?thesis by (intro refused [of err]) (simp_all add: onConnect_def)
  next
    case 4
    show ?thesis
    proof (cases "jc_device_id claims = []")
      case True
      then show ?thesis
        using assms 4
        by (intro accepted [of claims "fst (AllocFallbackDeviceId (jc_user_id claims) s)"
              "snd (AllocFallbackDeviceId (jc_user_id claims) s)"])
          (simp_all add: onConnect_def AllocFallbackDeviceId_def Let_def)
    next
      case False
      then show ?thesis
        using assms 4 by (intro accepted [of claims "jc_device_id claims" s]) (simp_all add: onConnect_def)
    qed
  qed
qed

lemma token_uid_nonzero: "token_accepted J K jwt now token c \<Longrightarrow> jc_user_id c \<noteq> 0"
  by (auto simp: token_accepted_def payload_accepted_def)

lemma service_wf_seq: "service_wf cfg (s\<lparr>sv_device_seq := n\<rparr>) = service_wf cfg s"
  by (simp add: service_wf_def pending_wf_def)

lemma service_wf_auth_fail: "service_wf cfg s \<Longrightarrow> service_wf cfg (auth_fail J err w s)"
  by (rule service_wf_frame [of cfg s]) (simp_all add: auth_fail_state service_wf_def pending_wf_def same_place_def)

lemma onConnect_wf:
  assumes "memcmp_law K" "service_wf cfg s" "1 \<le> max_devices cfg"
    and "onConnect H J K cfg now_s now_ms iso_ms iom header w s = (rc, header', s')"
  shows "service_wf cfg s'"
  using assms(4)
proof (cases rule: onConnect_cases)
  case thrown
  with assms(2) show ?thesis by simp
next
  case (refused err)
  with service_wf_auth_fail [OF assms(2)] show ?thesis by simp
next
  case (accepted claims did s1)
  have "jc_user_id claims \<noteq> 0"
    using token_uid_nonzero Verify_iff [OF assms(1)] accepted(2) by blast
  moreover have "service_wf cfg s1" using accepted(4) assms(2) service_wf_seq by auto
  ultimately show ?thesis using register_conn_registers [OF accepted(3) _ assms(3)] by blast
qed

text \<open>
  C16. A session is admitted exactly when the token that its request carries (the \<open>token\<close> parameter, else
  the bearer header, else the subprotocol) is one that the service's key signed for a nonzero user and
  that is valid now. A session that is refused is not registered and nothing is scheduled or published for it;
  it is sent \<open>auth_fail\<close> and closed. When the verification throws, the exception leaves the callback
  with nothing done: no trace of the session in the service, but neither an answer nor a close
  (\<open>Jwt.Verify_throws_unauthenticated\<close> shows that a client can bring this about).
\<close>

theorem onConnect_authenticates:
  assumes "memcmp_law K"
    and "onConnect H J K cfg now_s now_ms iso_ms iom header w s = (rc, header', s')"
  shows "(rc = Some 0 \<longleftrightarrow> ExtractToken H header \<noteq> [] \<and>
      (\<exists>c. token_accepted J K (m_jwt cfg) now_s (ExtractToken H header) c \<and> jc_user_id c \<noteq> 0)) \<and>
    (rc \<noteq> Some 0 \<longrightarrow> header' = header \<and> sv_registry s' = sv_registry s \<and> sv_heap s' = sv_heap s \<and>
      sv_publisher s' = sv_publisher s \<and> sv_tasks s' = sv_tasks s \<and> sv_pending s' = sv_pending s) \<and>
    (rc \<noteq> Some 0 \<longrightarrow> rc \<noteq> None \<longrightarrow> rc = Some (-1) \<and>
      (\<exists>data. sv_effects s' = sv_effects s @ [SendMessage w (frame_text J ''auth_fail'' data False 0), CloseSession w])) \<and>
    (rc = None \<longleftrightarrow> ExtractToken H header \<noteq> [] \<and> Verify J K (m_jwt cfg) now_s (ExtractToken H header) = None) \<and>
    (rc = None \<longrightarrow> s' = s)"
proof -
  note verify = Verify_iff [OF assms(1), of J "m_jwt cfg" now_s "ExtractToken H header", symmetric]
  from assms(2) show ?thesis
  proof (cases rule: onConnect_cases)
    case thrown
    then show ?thesis by (simp add: verify)
  next
    case (refused err)
    then show ?thesis using auth_fail_state(7) [of J err w s] by (auto simp: verify auth_fail_state)
  next
    case (accepted claims did s1)
    obtain rep ev reg where A: "Add ((sv_heap s1)(sv_next s1 := new_OnlineConn (jc_user_id claims) did (Some w)
        iom now_ms (chat_frame_rate_limit_per_second (m_chat cfg)))) (Some (sv_next s1)) (max_devices cfg)
        (sv_registry s1) = (rep, ev, reg)" by (rule prod_cases3)
    have "rc = Some 0" by (rule register_conn_state(1) [OF accepted(3) refl refl refl A])
    moreover have "token_accepted J K (m_jwt cfg) now_s (ExtractToken H header) claims"
      using accepted(2) verify by simp
    ultimately show ?thesis using accepted(1,2) by (auto intro!: exI [of _ claims] dest: token_uid_nonzero)
  qed
qed

text \<open>
  The framework's requests: a header that is set is read back, and setting another one of the three
  that the servlet sets does not disturb it; \<open>Atoi\<close> reads the decimal text of a number below \<open>2 ^ 63\<close>.
\<close>

definition http_laws :: "'h http_lib \<Rightarrow> bool" where
  "http_laws H \<longleftrightarrow>
     (\<forall>h k v. getHeader H (setHeader H h k v) k = v) \<and>
     (\<forall>h k k' v. k \<in> {''$uid'', ''$did'', ''$exp''} \<longrightarrow> k' \<in> {''$uid'', ''$did'', ''$exp''} \<longrightarrow> k \<noteq> k' \<longrightarrow>
        getHeader H (setHeader H h k v) k' = getHeader H h k') \<and>
     (\<forall>u. unat u < 2 ^ 63 \<longrightarrow> Atoi H (show_u64 u) = uint u)"

lemma onConnect_result:
  assumes "memcmp_law K" "http_laws H" "service_wf cfg s" "1 \<le> max_devices cfg"
    and "onConnect H J K cfg now_s now_ms iso_ms iom header w s = (Some 0, header', s')"
    and "\<forall>u d c. Get u d (sv_registry s) = Some c \<longrightarrow> oc_login_at (sv_heap s c) < now_ms"
  shows "\<exists>claims did c. token_accepted J K (m_jwt cfg) now_s (ExtractToken H header) claims \<and>
    (jc_device_id claims \<noteq> [] \<longrightarrow> did = jc_device_id claims) \<and>
    Get (jc_user_id claims) did (sv_registry s') = Some c \<and>
    oc_session (sv_heap s' c) = Some w \<and> oc_io_manager (sv_heap s' c) = iom \<and>
    UserConnectionCount (jc_user_id claims) (sv_registry s') \<le> max_devices cfg \<and>
    (\<forall>u. u \<noteq> jc_user_id claims \<longrightarrow> GetByUser u (sv_registry s') = GetByUser u (sv_registry s)) \<and>
    getHeader H header' ''$did'' = did \<and>
    (unat (jc_user_id claims) < 2 ^ 63 \<longrightarrow> header_uid H header' = jc_user_id claims) \<and>
    Publisher.m_queue (sv_publisher s') = Publisher.m_queue (sv_publisher s) @
      (if \<not> IsUserOnline (jc_user_id claims) (sv_registry s) \<and>
          length (Publisher.m_queue (sv_publisher s)) < queue_capacity (m_rabbitmq cfg)
       then [\<lparr>t_routing_key = ''business.user.online'',
              t_payload = j_set J (j_null J) ''userId'' (j_uint J (jc_user_id claims)), t_priority = 5\<rparr>]
       else [])"
  using assms(5)
proof (cases rule: onConnect_cases)
  case (accepted claims did s1)
  have tok: "token_accepted J K (m_jwt cfg) now_s (ExtractToken H header) claims"
    using Verify_iff [OF assms(1)] accepted(2) by blast
  have s1: "sv_registry s1 = sv_registry s" "sv_heap s1 = sv_heap s" "sv_publisher s1 = sv_publisher s"
    and wf1: "service_wf cfg s1"
    using accepted(4) assms(3) by (auto simp: service_wf_seq)
  let ?u = "jc_user_id claims" and ?c = "sv_next s1"
  obtain h rep ev reg where
    h: "h = (sv_heap s1)(?c := new_OnlineConn ?u did (Some w) iom now_ms
                              (chat_frame_rate_limit_per_second (m_chat cfg)))"
    and A: "Add h (Some ?c) (max_devices cfg) (sv_registry s1) = (rep, ev, reg)"
    and wf: "registry_wf h (max_devices cfg) (sv_registry s1)" and wf': "service_wf cfg s'"
    by (rule register_conn_registers [OF accepted(3) wf1 assms(4) token_uid_nonzero [OF tok]])
  note st = register_conn_state [OF accepted(3) refl refl h A]
  have hc: "oc_user_id (h ?c) = ?u" "oc_device_id (h ?c) = did" "oc_login_at (h ?c) = now_ms"
    "oc_session (h ?c) = Some w" "oc_io_manager (h ?c) = iom"
    by (simp_all add: h new_OnlineConn_def)
  have older: "oc_login_at (h p) < now_ms"
    if "p \<in> set (GetByUser ?u (sv_registry s1))" "oc_device_id (h p) \<noteq> did" for p
  proof -
    from that(1) devices_Get [OF wf] obtain d where "Get ?u d (sv_registry s1) = Some p"
      by (auto simp: GetByUser_devices)
    moreover from that(2) hc(2) have "p \<noteq> ?c" by blast
    ultimately show ?thesis using assms(6) s1 by (simp add: h)
  qed
  have "Get ?u did reg = Some ?c"
  proof -
    have "\<forall>p \<in> set (GetByUser ?u (sv_registry s1)). oc_device_id (h p) \<noteq> did \<longrightarrow> oc_login_at (h p) < now_ms"
      using older by blast
    with Add_newest [OF wf assms(4) A, unfolded hc] show ?thesis by blast
  qed
  moreover have "\<forall>u. u \<noteq> ?u \<longrightarrow> GetByUser u reg = GetByUser u (sv_registry s)"
    using Add_result [OF wf assms(4) A, unfolded hc] s1 by (simp add: GetByUser_devices)
  moreover have "UserConnectionCount ?u reg \<le> max_devices cfg"
    using wf' devices_facts(2) st(4) by (fastforce simp: service_wf_def UserConnectionCount_devices)
  moreover have "header_uid H header' = ?u" if "unat ?u < 2 ^ 63"
    using assms(2) that by (simp add: http_laws_def header_uid_def st(6))
  moreover have "getHeader H header' ''$did'' = did" using assms(2) by (simp add: http_laws_def st(6))
  ultimately show ?thesis
    using tok hc accepted(6) st(2,4,8) s1
    by (intro exI [of _ claims] exI [of _ did] exI [of _ ?c]) auto
qed simp_all

text \<open>
  C22. An admitted session is registered under the user of its token, on the token's device or a new
  device name: when every registered connection logged in at an earlier clock reading, the user's entry for that
  device is the new connection, on this session; the user has no more devices than the limit, other users' entries
  are untouched, the request carries the user and device for the later callbacks, and what is queued for the
  broker is one message, that this user is online, when the user had no connection and the queue has room,
  and nothing otherwise.
\<close>

theorem onConnect_registers:
  assumes "memcmp_law K" "http_laws H" "service_wf cfg s" "1 \<le> max_devices cfg"
    and "onConnect H J K cfg now_s now_ms iso_ms iom header w s = (Some 0, header', s')"
    and "\<forall>u d c. Get u d (sv_registry s) = Some c \<longrightarrow> oc_login_at (sv_heap s c) < now_ms"
  shows "\<exists>claims did c. token_accepted J K (m_jwt cfg) now_s (ExtractToken H header) claims \<and>
    (jc_device_id claims \<noteq> [] \<longrightarrow> did = jc_device_id claims) \<and>
    Get (jc_user_id claims) did (sv_registry s') = Some c \<and>
    oc_session (sv_heap s' c) = Some w \<and> oc_io_manager (sv_heap s' c) = iom \<and>
    UserConnectionCount (jc_user_id claims) (sv_registry s') \<le> max_devices cfg \<and>
    (\<forall>u. u \<noteq> jc_user_id claims \<longrightarrow> GetByUser u (sv_registry s') = GetByUser u (sv_registry s)) \<and>
    getHeader H header' ''$did'' = did \<and>
    (unat (jc_user_id claims) < 2 ^ 63 \<longrightarrow> header_uid H header' = jc_user_id claims) \<and>
    Publisher.m_queue (sv_publisher s') = Publisher.m_queue (sv_publisher s) @
      (if \<not> IsUserOnline (jc_user_id claims) (sv_registry s) \<and>
          length (Publisher.m_queue (sv_publisher s)) < queue_capacity (m_rabbitmq cfg)
       then [\<lparr>t_routing_key = ''business.user.online'',
              t_payload = j_set J (j_null J) ''userId'' (j_uint J (jc_user_id claims)), t_priority = 5\<rparr>]
       else [])"
  by (rule onConnect_result [OF assms])

section \<open>Closing\<close>

lemma Remove_keeps_Get:
  "Get u d (snd (Remove uid did r)) = (if u = uid \<and> d = did then None else Get u d r)"
  by (simp add: Get_devices Remove_devices)

lemma onClose_state:
  assumes "onClose H J cfg header w s = (rc, s')"
  shows "rc = Some 0" "sv_heap s' = sv_heap s" "sv_next s' = sv_next s" "sv_pending s' = sv_pending s"
    "sv_tasks s' = sv_tasks s" "sv_effects s' = sv_effects s"
    "sv_registry s' = (if header_uid H header = 0 \<or> getHeader H header ''$did'' = [] then sv_registry s
       else snd (Remove (header_uid H header) (getHeader H header ''$did'') (sv_registry s)))"
    "Publisher.m_queue (sv_publisher s') = Publisher.m_queue (sv_publisher s) @
       (if header_uid H header = 0 \<or> getHeader H header ''$did'' = [] \<or>
           IsUserOnline (header_uid H header) (sv_registry s') \<or>
           queue_capacity (m_rabbitmq cfg) \<le> length (Publisher.m_queue (sv_publisher s)) then []
        else [\<lparr>t_routing_key = ''business.user.offline'',
               t_payload = j_set J (j_null J) ''userId'' (j_uint J (header_uid H header)), t_priority = 5\<rparr>])"
  using assms
  by (auto simp: onClose_def Let_def on_publisher_def PublishUserOffline_def Publisher.Publish_def split: if_splits)

lemma onClose_wf:
  assumes "service_wf cfg s" "onClose H J cfg header w s = (rc, s')"
  shows "service_wf cfg s'"
proof -
  note st = onClose_state [OF assms(2)]
  have "length (Publisher.m_queue (sv_publisher s')) \<le> queue_capacity (m_rabbitmq cfg)"
    using assms(1) by (auto simp: st(8) service_wf_def)
  moreover have "registry_wf (sv_heap s') (max_devices cfg) (sv_registry s')"
    using assms(1) Remove_wf by (simp add: st(2,7) service_wf_def)
  moreover have "c < sv_next s' \<and> u \<noteq> 0" if "Get u d (sv_registry s') = Some c" for u d c
    using that assms(1) by (auto simp: st(3,7) service_wf_def Remove_keeps_Get split: if_splits)
  ultimately show ?thesis
    using assms(1) by (auto simp: service_wf_def st(3-5) pending_wf_def)
qed


text \<open>
  C24. A session that was replaced by a newer one of the same device takes the newer one down with it: its
  late \<open>onClose\<close> removes the entry of the user and device whoever holds it. The newer session \<open>w2\<close>
  stays open and is told nothing, but is no longer found, gets no pushes and, if it was the user's
  only one, the user is announced as offline.
\<close>

theorem stale_close_unregisters:
  assumes "http_laws H" "service_wf cfg s"
    and "onConnect H J K cfg now_s now_ms iso_ms iom header w1 s0 = (Some 0, h1, s1)"
    and "Verify J K (m_jwt cfg) now_s (ExtractToken H header) = Some (Inr claims)"
    and "jc_device_id claims \<noteq> []" "unat (jc_user_id claims) < 2 ^ 63" "jc_user_id claims \<noteq> 0"
    and "Get (jc_user_id claims) (jc_device_id claims) (sv_registry s) = Some c"
      "oc_session (sv_heap s c) = Some w2" "w1 \<noteq> w2"
    and "onClose H J cfg h1 w1 s = (rc, s')"
  shows "Get (jc_user_id claims) (jc_device_id claims) (sv_registry s') = None \<and>
    c \<notin> set (GetByUser (jc_user_id claims) (sv_registry s')) \<and> sv_effects s' = sv_effects s \<and>
    sv_tasks s' = sv_tasks s \<and>
    (UserConnectionCount (jc_user_id claims) (sv_registry s) = 1 \<longrightarrow>
       \<not> IsUserOnline (jc_user_id claims) (sv_registry s'))"
  using assms(3)
proof (cases rule: onConnect_cases)
  case (accepted claims' did s1')
  let ?u = "jc_user_id claims" and ?d = "jc_device_id claims"
  from accepted(2,6) assms(4,5) have same: "claims' = claims" "did = ?d" by simp_all
  obtain rep ev reg where A: "Add ((sv_heap s1')(sv_next s1' := new_OnlineConn ?u ?d (Some w1)
        iom now_ms (chat_frame_rate_limit_per_second (m_chat cfg)))) (Some (sv_next s1')) (max_devices cfg)
        (sv_registry s1') = (rep, ev, reg)" by (rule prod_cases3)
  note h1 = register_conn_state(6) [OF accepted(3) [unfolded same] refl refl refl A]
  have "header_uid H h1 = ?u" "getHeader H h1 ''$did'' = ?d"
    using assms(1,6) by (simp_all add: h1 http_laws_def header_uid_def)
  with onClose_state(5-7) [OF assms(11)] assms(5,7)
  have st: "sv_effects s' = sv_effects s" "sv_tasks s' = sv_tasks s"
    "sv_registry s' = snd (Remove ?u ?d (sv_registry s))" by simp_all
  have wf: "registry_wf (sv_heap s) (max_devices cfg) (sv_registry s)" using assms(2) by (simp add: service_wf_def)
  have dev: "devices (sv_registry s') ?u = AList.delete ?d (devices (sv_registry s) ?u)"
    by (simp add: st Remove_devices)
  have mem: "(?d, c) \<in> set (devices (sv_registry s) ?u)" using devices_Get [OF wf] assms(8) by blast
  have "d = ?d" if "(d, c) \<in> set (devices (sv_registry s) ?u)" for d
    using devices_facts(3) [OF wf that] devices_facts(3) [OF wf mem] by simp
  then have gone: "c \<notin> set (GetByUser ?u (sv_registry s'))"
    by (auto simp: GetByUser_devices dev set_delete)
  have "\<not> IsUserOnline ?u (sv_registry s')" if one: "UserConnectionCount ?u (sv_registry s) = 1"
  proof -
    from one have "length (devices (sv_registry s) ?u) = 1" by (simp add: UserConnectionCount_devices)
    with mem have "devices (sv_registry s) ?u = [(?d, c)]" by (cases "devices (sv_registry s) ?u") auto
    moreover have "registry_wf (sv_heap s) (max_devices cfg) (sv_registry s')"
      using Remove_wf [OF wf] by (simp add: st)
    ultimately show ?thesis by (simp add: IsUserOnline_devices dev)
  qed
  with gone st show ?thesis by (simp add: Remove_keeps_Get)
qed simp_all

section \<open>Frames\<close>

text \<open>What the handlers of a frame leave alone, and what they may queue for the broker.\<close>

definition own_message :: "'j json_lib \<Rightarrow> u64 \<Rightarrow> 'j Task \<Rightarrow> bool" where
  "own_message J uid t \<longleftrightarrow>
     t_routing_key t = ''business.msg.persist'' \<and> get_uint64 J (t_payload t) ''senderId'' = Some uid \<or>
     t_routing_key t = ''business.msg.ack'' \<and> get_uint64 J (t_payload t) ''receiverId'' = Some uid"

definition queues_own :: "'j json_lib \<Rightarrow> ChatConfig \<Rightarrow> u64 \<Rightarrow> 'j service \<Rightarrow> 'j service \<Rightarrow> bool" where
  "queues_own J cfg uid s s' \<longleftrightarrow>
     Publisher.m_queue (sv_publisher s') = Publisher.m_queue (sv_publisher s) \<or>
     (\<exists>t. Publisher.m_queue (sv_publisher s') = Publisher.m_queue (sv_publisher s) @ [t] \<and> own_message J uid t \<and>
        length (Publisher.m_queue (sv_publisher s)) < queue_capacity (m_rabbitmq cfg))"

definition keeps_conns :: "'j service \<Rightarrow> 'j service \<Rightarrow> bool" where
  "keeps_conns s s' \<longleftrightarrow> sv_registry s' = sv_registry s \<and> sv_heap s' = sv_heap s \<and> sv_next s' = sv_next s \<and>
     sv_tasks s' = sv_tasks s"

lemma send_frame_state:
  "keeps_conns s (send_frame J session type data hs sq s)" "keeps_conns s (send_error J session code msg hs sq s)"
  "sv_publisher (send_frame J session type data hs sq s) = sv_publisher s"
  "sv_publisher (send_error J session code msg hs sq s) = sv_publisher s"
  "sv_pending (send_frame J session type data hs sq s) = sv_pending s"
  "sv_pending (send_error J session code msg hs sq s) = sv_pending s"
  by (simp_all add: keeps_conns_def send_error_frame send_frame_perform perform_simps)

lemma message_payload_sender:
  assumes "json_laws J" "add_media J media (message_payload J cmid conv uid content sent_at) = Some pl"
  shows "get_uint64 J pl ''senderId'' = Some uid"
proof -
  have p: "j_is_object J (message_payload J cmid conv uid content sent_at)"
    "get_uint64 J (message_payload J cmid conv uid content sent_at) ''senderId'' = Some uid"
    by (simp_all add: message_payload_def Let_def get_uint64_def json_set [OF assms(1)]
        json_null [OF assms(1)] json_conv [OF assms(1)])
  from add_media_reads(2) [OF assms(1) p(1) assms(2)] p(2) show ?thesis by (simp add: get_uint64_def)
qed

lemma HandleMsgSend_frame:
  assumes "HandleMsgSend J cfg iso_ms now uid did session has_seq seq data s = (rc, s')"
  shows "keeps_conns s s'" "json_laws J \<Longrightarrow> queues_own J cfg uid s s'"
proof -
  note parts = assms [unfolded HandleMsgSend_def Let_def]
  show "keeps_conns s s'"
    using parts by (auto simp: send_frame_state keeps_conns_def send_error_frame send_frame_perform perform_simps
        on_publisher_frame split: option.splits prod.splits if_splits)
  assume J: "json_laws J"
  show "queues_own J cfg uid s s'"
    using parts message_payload_sender [OF J]
    by (auto simp: queues_own_def send_frame_state own_message_def Publish_on_service(2)
        split: option.splits prod.splits if_splits dest: Publish_on_service(1,2))
qed

lemma HandleMsgAck_frame:
  assumes "HandleMsgAck J cfg iso_ms uid session has_seq seq data s = (rc, s')"
  shows "keeps_conns s s'" "sv_pending s' = sv_pending s" "json_laws J \<Longrightarrow> queues_own J cfg uid s s'"
proof -
  note parts = assms [unfolded HandleMsgAck_def PublishMsgAck_def Let_def]
  show "keeps_conns s s'" "sv_pending s' = sv_pending s"
    using parts by (auto simp: send_frame_state keeps_conns_def send_error_frame send_frame_perform perform_simps
        on_publisher_frame split: option.splits prod.splits if_splits)
  assume J: "json_laws J"
  have r: "get_uint64 J (j_set J (j_set J (j_set J (j_null J) ''messageId'' m) ''receiverId'' (j_uint J uid))
      ''ackAt'' t) ''receiverId'' = Some uid" for m t
    by (simp add: get_uint64_def json_set [OF J] json_null [OF J] json_conv [OF J])
  show "queues_own J cfg uid s s'"
    using parts r
    by (auto simp: queues_own_def send_frame_state own_message_def Publish_on_service(2)
        split: option.splits prod.splits if_splits dest: Publish_on_service(1,2))
qed

text \<open>Publishing touches the queue only, never the connection of the publisher's thread.\<close>

lemma publish_client:
  "on_publisher (Publisher.Publish cfg rk pl pr) s = (ok, s') \<Longrightarrow>
     Publisher.m_client (sv_publisher s') = Publisher.m_client (sv_publisher s)"
  by (auto simp: on_publisher_def Publisher.Publish_def split: if_splits)

lemma handlers_client:
  "HandleMsgSend J cfg iso_ms now uid did session has_seq seq data s = (rc, s') \<Longrightarrow>
     Publisher.m_client (sv_publisher s') = Publisher.m_client (sv_publisher s)"
  "HandleMsgAck J cfg iso_ms uid session has_seq seq data s = (rc, s') \<Longrightarrow>
     Publisher.m_client (sv_publisher s') = Publisher.m_client (sv_publisher s)"
  by (auto simp: HandleMsgSend_def HandleMsgAck_def PublishMsgAck_def Let_def send_frame_state
      split: option.splits prod.splits if_splits dest: publish_client)

lemma count_metric_keeps: "keeps_conns s (count_metric f s)" "sv_publisher (count_metric f s) = sv_publisher s"
  "sv_pending (count_metric f s) = sv_pending s"
  by (simp_all add: keeps_conns_def count_metric_simps)

lemma keeps_conns_trans: "keeps_conns s s' \<Longrightarrow> keeps_conns s' s'' \<Longrightarrow> keeps_conns s s''"
  by (simp add: keeps_conns_def)

text \<open>One frame: a state that a handler of the frame leaves.\<close>

lemma dispatch_frame_cases:
  assumes "dispatch_frame J cfg iso_ms now_ms log_info uid did w frame s = (rc, s')"
  obtains (quiet) "keeps_conns s s'" "sv_publisher s' = sv_publisher s" "sv_pending s' = sv_pending s"
  | (send) s1 where "s1 = count_metric (IncWsIn (cf_type frame)) s"
      "HandleMsgSend J cfg iso_ms now_ms uid did (Some w) (cf_has_seq frame) (cf_seq frame) (cf_data frame) s1 = (rc, s')"
  | (ack) s1 where "s1 = count_metric (IncWsIn (cf_type frame)) s"
      "HandleMsgAck J cfg iso_ms uid (Some w) (cf_has_seq frame) (cf_seq frame) (cf_data frame) s1 = (rc, s')"
proof -
  let ?s1 = "count_metric (IncWsIn (cf_type frame)) s"
  note D = assms [unfolded dispatch_frame_def Let_def]
  show ?thesis
  proof (cases "cf_type frame = ''msg.send'' \<or> cf_type frame = ''msg.ack''")
    case True
    with D send [OF refl] ack [OF refl] show ?thesis by (auto split: if_splits)
  next
    case False
    with D have "keeps_conns s s' \<and> sv_publisher s' = sv_publisher s \<and> sv_pending s' = sv_pending s"
      by (auto simp: HandleMsgRead_def keeps_conns_def count_metric_simps send_error_frame send_frame_perform
          perform_simps split: if_splits option.splits)
    then show ?thesis by (intro quiet) simp_all
  qed
qed

lemma dispatch_frame_frame:
  assumes "dispatch_frame J cfg iso_ms now_ms log_info uid did w frame s = (rc, s')"
  shows "keeps_conns s s'" "pending_wf s \<Longrightarrow> pending_wf s'" "json_laws J \<Longrightarrow> queues_own J cfg uid s s'"
  using assms
proof (atomize (full), cases rule: dispatch_frame_cases)
  case quiet
  then show "keeps_conns s s' \<and> (pending_wf s \<longrightarrow> pending_wf s') \<and> (json_laws J \<longrightarrow> queues_own J cfg uid s s')"
    by (simp add: queues_own_def pending_wf_def)
next
  case (send s1)
  note F = HandleMsgSend_frame [OF send(2)]
  have "pending_wf s \<Longrightarrow> pending_wf s'"
    using HandleMsgSend_keeps_pending [of s1 J cfg iso_ms now_ms uid did "Some w" "cf_has_seq frame" "cf_seq frame"
        "cf_data frame"] send by (simp add: pending_wf_def count_metric_simps)
  with F send(1) show "keeps_conns s s' \<and> (pending_wf s \<longrightarrow> pending_wf s') \<and> (json_laws J \<longrightarrow> queues_own J cfg uid s s')"
    by (simp add: keeps_conns_def queues_own_def count_metric_simps)
next
  case (ack s1)
  with HandleMsgAck_frame [OF ack(2)]
  show "keeps_conns s s' \<and> (pending_wf s \<longrightarrow> pending_wf s') \<and> (json_laws J \<longrightarrow> queues_own J cfg uid s s')"
    by (simp add: keeps_conns_def queues_own_def pending_wf_def count_metric_simps)
qed

lemma dispatch_frame_client:
  assumes "dispatch_frame J cfg iso_ms now_ms log_info uid did w frame s = (rc, s')"
  shows "Publisher.m_client (sv_publisher s') = Publisher.m_client (sv_publisher s)"
  using assms by (cases rule: dispatch_frame_cases) (auto simp: count_metric_keeps dest!: handlers_client)

text \<open>The bucket of the sender's connection, when there is one, allows the frame.\<close>

definition bucket_allows :: "ChatConfig \<Rightarrow> int \<Rightarrow> u64 \<Rightarrow> string \<Rightarrow> 'j service \<Rightarrow> bool" where
  "bucket_allows cfg now uid did s =
     (case Get uid did (sv_registry s) of
        None \<Rightarrow> True
      | Some c \<Rightarrow> fst (ConsumeToken now (chat_frame_rate_limit_per_second (m_chat cfg)) (sv_heap s c)))"

text \<open>The state after the checks of \<open>handle\<close>: the bucket used and the connection touched.\<close>

definition admitted :: "ChatConfig \<Rightarrow> int \<Rightarrow> u64 \<Rightarrow> string \<Rightarrow> 'j service \<Rightarrow> 'j service" where
  "admitted cfg now uid did s =
     (case Get uid did (sv_registry s) of
        None \<Rightarrow> s
      | Some c \<Rightarrow> s\<lparr>sv_heap := (sv_heap s)(c :=
          (snd (ConsumeToken now (chat_frame_rate_limit_per_second (m_chat cfg)) (sv_heap s c)))
            \<lparr>oc_last_active_ts := now\<rparr>)\<rparr>)"

definition limited :: "ChatConfig \<Rightarrow> int \<Rightarrow> u64 \<Rightarrow> string \<Rightarrow> 'j service \<Rightarrow> 'j service" where
  "limited cfg now uid did s =
     (case Get uid did (sv_registry s) of
        None \<Rightarrow> s
      | Some c \<Rightarrow> s\<lparr>sv_heap := (sv_heap s)(c :=
          snd (ConsumeToken now (chat_frame_rate_limit_per_second (m_chat cfg)) (sv_heap s c)))\<rparr>)"

lemma Touch_Get:
  "Touch uid did now r h =
     (case Get uid did r of None \<Rightarrow> h | Some c \<Rightarrow> h(c := (h c)\<lparr>oc_last_active_ts := now\<rparr>))"
  by (simp add: Touch_def Get_def split: option.split)

lemma limited_pair:
  "(case Get uid did (sv_registry s) of
      None \<Rightarrow> (True, s)
    | Some c \<Rightarrow>
        (case ConsumeToken now (chat_frame_rate_limit_per_second (m_chat cfg)) (sv_heap s c) of
           (ok, conn) \<Rightarrow> (ok, s\<lparr>sv_heap := (sv_heap s)(c := conn)\<rparr>))) =
   (bucket_allows cfg now uid did s, limited cfg now uid did s)"
  by (simp add: bucket_allows_def limited_def case_prod_beta split: option.split)

lemma admitted_Touch:
  "(limited cfg now uid did s)\<lparr>sv_heap := Touch uid did now (sv_registry (limited cfg now uid did s))
      (sv_heap (limited cfg now uid did s))\<rparr> = admitted cfg now uid did s"
  by (simp add: admitted_def limited_def Touch_Get split: option.split)

text \<open>\<open>handle\<close>, check by check.\<close>

lemma handle_checks:
  fixes H header
  defines "uid \<equiv> header_uid H header" and "did \<equiv> getHeader H header ''$did''"
  shows "handle H J cfg iso_ms now log_info header is_text msg w s =
    (if \<not> is_text then (Some 1, send_error J (Some w) 400 ''text frame required'' False 0 s)
     else if uid = 0 \<or> did = [] then (Some 1, send_error J (Some w) 401 ''unauthorized'' False 0 s)
     else if \<not> bucket_allows cfg now uid did s
     then (Some 1, send_error J (Some w) 429 ''too many frames'' False 0 (limited cfg now uid did s))
     else case ParseClientFrame J msg of
            None \<Rightarrow> (None, admitted cfg now uid did s)
          | Some (Inl err) \<Rightarrow> (Some 0, send_error J (Some w) 400 err False 0 (admitted cfg now uid did s))
          | Some (Inr frame) \<Rightarrow>
              dispatch_frame J cfg iso_ms now log_info uid did w frame (admitted cfg now uid did s))"
  unfolding uid_def did_def handle_def Let_def limited_pair prod.case admitted_Touch by (rule refl)

lemma admitted_place:
  "sv_registry (admitted cfg now uid did s) = sv_registry s" "sv_next (admitted cfg now uid did s) = sv_next s"
  "sv_tasks (admitted cfg now uid did s) = sv_tasks s" "sv_publisher (admitted cfg now uid did s) = sv_publisher s"
  "sv_pending (admitted cfg now uid did s) = sv_pending s" "sv_effects (admitted cfg now uid did s) = sv_effects s"
  "same_place (sv_heap s c) (sv_heap (admitted cfg now uid did s) c)"
  "sv_registry (limited cfg now uid did s) = sv_registry s" "sv_next (limited cfg now uid did s) = sv_next s"
  "sv_tasks (limited cfg now uid did s) = sv_tasks s" "sv_publisher (limited cfg now uid did s) = sv_publisher s"
  "sv_pending (limited cfg now uid did s) = sv_pending s" "sv_effects (limited cfg now uid did s) = sv_effects s"
  "same_place (sv_heap s c) (sv_heap (limited cfg now uid did s) c)"
  using ConsumeToken_place
  by (simp_all add: admitted_def limited_def same_place_def split: option.split)

lemma service_wf_pending: "service_wf cfg s \<Longrightarrow> pending_wf s"
  by (simp add: service_wf_def)

lemma service_wf_queue:
  assumes "service_wf cfg s" "keeps_conns s s'" "pending_wf s'"
    and "length (Publisher.m_queue (sv_publisher s')) \<le> queue_capacity (m_rabbitmq cfg)"
  shows "service_wf cfg s'"
  using assms by (simp add: service_wf_def keeps_conns_def)

lemma service_wf_place:
  assumes "service_wf cfg s" "sv_registry s' = sv_registry s" "sv_next s' = sv_next s"
    "sv_tasks s' = sv_tasks s" "sv_publisher s' = sv_publisher s" "sv_pending s' = sv_pending s"
    "\<And>c. same_place (sv_heap s c) (sv_heap s' c)"
  shows "service_wf cfg s'"
  using assms service_wf_pending [OF assms(1)]
  by (intro service_wf_frame [OF assms(1)]) (simp_all add: pending_wf_def)

lemma queues_own_bounded:
  "queues_own J cfg uid s s' \<Longrightarrow> length (Publisher.m_queue (sv_publisher s)) \<le> queue_capacity (m_rabbitmq cfg) \<Longrightarrow>
     length (Publisher.m_queue (sv_publisher s')) \<le> queue_capacity (m_rabbitmq cfg)"
  by (auto simp: queues_own_def)

lemma send_error_wf: "service_wf cfg s \<Longrightarrow> service_wf cfg (send_error J session code msg hs sq s)"
  by (rule service_wf_queue [of cfg s])
    (simp_all add: send_frame_state service_wf_def pending_wf_def)

lemma admitted_wf:
  assumes "service_wf cfg s"
  shows "service_wf cfg (admitted cfg now uid did s)" "service_wf cfg (limited cfg now uid did s)"
  by (rule service_wf_place [OF assms]; simp add: admitted_place)+

lemma dispatch_frame_wf:
  assumes "json_laws J" "service_wf cfg s" "dispatch_frame J cfg iso_ms now_ms log_info uid did w frame s = (rc, s')"
  shows "service_wf cfg s'"
proof -
  note F = dispatch_frame_frame [OF assms(3)]
  from assms(2) have "length (Publisher.m_queue (sv_publisher s')) \<le> queue_capacity (m_rabbitmq cfg)"
    using queues_own_bounded [OF F(3) [OF assms(1)]] by (simp add: service_wf_def)
  with F(1) F(2) [OF service_wf_pending [OF assms(2)]] show ?thesis
    by (intro service_wf_queue [OF assms(2)])
qed

lemma handle_wf:
  assumes "json_laws J" "service_wf cfg s" "handle H J cfg iso_ms now log_info header is_text msg w s = (rc, s')"
  shows "service_wf cfg s'"
  using assms(2,3) dispatch_frame_wf [OF assms(1) admitted_wf(1) [OF assms(2)]]
  unfolding handle_checks
  by (auto intro!: send_error_wf admitted_wf [OF assms(2)] split: if_splits option.splits sum.splits)

lemma handle_client:
  assumes "handle H J cfg iso_ms now log_info header is_text msg w s = (rc, s')"
  shows "Publisher.m_client (sv_publisher s') = Publisher.m_client (sv_publisher s)"
  using assms unfolding handle_checks
  by (auto simp: send_frame_state admitted_place split: if_splits option.splits sum.splits dest!: dispatch_frame_client)

lemma onClose_client:
  assumes "onClose H J cfg header w s = (rc, s')"
  shows "Publisher.m_client (sv_publisher s') = Publisher.m_client (sv_publisher s)"
  using assms
  by (auto simp: onClose_def Let_def on_publisher_def PublishUserOffline_def Publisher.Publish_def split: if_splits)

lemma onConnect_client:
  assumes "onConnect H J K cfg now_s now_ms iso_ms iom header w s = (rc, header', s')"
  shows "Publisher.m_client (sv_publisher s') = Publisher.m_client (sv_publisher s)"
  using assms
proof (cases rule: onConnect_cases)
  case (accepted claims did s1)
  have k: "(\<lambda>e s. CloseSessionOnOwner e (SendKickedOnOwner J reason e s)) = kick J reason" for reason
    by (simp add: kick_def fun_eq_iff)
  have k1: "CloseSessionOnOwner e (SendKickedOnOwner J reason e s) = kick J reason e s" for reason e s
    by (simp add: kick_def)
  from accepted(3) have "Publisher.m_client (sv_publisher s') = Publisher.m_client (sv_publisher s1)"
    unfolding register_conn_def Let_def k k1
    by (auto simp: kicks_state kick_state count_metric_simps send_frame_perform perform_simps on_publisher_def
        PublishUserOnline_def Publisher.Publish_def split: option.splits prod.splits if_splits)
  with accepted(4) show ?thesis by auto
qed (simp_all add: auth_fail_state)

text \<open>A frame changes the pending sends only as \<open>HandleMsgSend\<close> does, for a \<open>msg.send\<close> of an admitted session.\<close>

lemma handle_pending:
  fixes H J header
  defines "uid \<equiv> header_uid H header" and "did \<equiv> getHeader H header ''$did''"
  assumes "handle H J cfg iso_ms now log_info header is_text msg w s = (rc, s')" "sv_pending s' \<noteq> sv_pending s"
  obtains frame s1 where "is_text" "uid \<noteq> 0" "did \<noteq> []" "ParseClientFrame J msg = Some (Inr frame)"
    "cf_type frame = ''msg.send''" "sv_pending s1 = sv_pending s"
    "HandleMsgSend J cfg iso_ms now uid did (Some w) (cf_has_seq frame) (cf_seq frame) (cf_data frame) s1 = (rc, s')"
proof -
  let ?a = "admitted cfg now uid did s"
  have a: "sv_pending ?a = sv_pending s" by (simp add: admitted_place)
  obtain frame where f: "is_text" "uid \<noteq> 0" "did \<noteq> []" "ParseClientFrame J msg = Some (Inr frame)"
    "dispatch_frame J cfg iso_ms now log_info uid did w frame ?a = (rc, s')"
    using assms(3,4) unfolding handle_checks uid_def [symmetric] did_def [symmetric]
    by (auto simp: send_frame_state admitted_place split: if_splits option.splits sum.splits)
  have send: "cf_type frame = ''msg.send''"
  proof (rule ccontr)
    assume "cf_type frame \<noteq> ''msg.send''"
    with f(5) have "sv_pending s' = sv_pending ?a"
      by (auto simp: dispatch_frame_def Let_def HandleMsgRead_def count_metric_simps send_frame_state
          dest: HandleMsgAck_frame(2) split: if_splits option.splits)
    with assms(4) a show False by simp
  qed
  with f(5) have "HandleMsgSend J cfg iso_ms now uid did (Some w) (cf_has_seq frame) (cf_seq frame) (cf_data frame)
      (count_metric (IncWsIn (cf_type frame)) ?a) = (rc, s')"
    by (simp add: dispatch_frame_def Let_def)
  from that [OF f(1-4) send _ this] show ?thesis by (simp add: count_metric_simps a)
qed

lemma handle_effect:
  assumes "json_laws J" "handle H J cfg iso_ms now log_info header is_text msg w s = (rc, s')"
  shows "queues_own J cfg (header_uid H header) s s' \<and>
    (Publisher.m_queue (sv_publisher s') \<noteq> Publisher.m_queue (sv_publisher s) \<longrightarrow>
       is_text \<and> header_uid H header \<noteq> 0 \<and> getHeader H header ''$did'' \<noteq> [] \<and>
       bucket_allows cfg now (header_uid H header) (getHeader H header ''$did'') s \<and>
       (\<exists>frame. ParseClientFrame J msg = Some (Inr frame))) \<and>
    sv_registry s' = sv_registry s \<and> sv_tasks s' = sv_tasks s \<and>
    (\<forall>c. Get (header_uid H header) (getHeader H header ''$did'') (sv_registry s) \<noteq> Some c \<longrightarrow>
       sv_heap s' c = sv_heap s c) \<and>
    (\<forall>c. same_place (sv_heap s c) (sv_heap s' c))"
proof -
  let ?u = "header_uid H header" and ?d = "getHeader H header ''$did''"
  let ?a = "admitted cfg now ?u ?d s"
  have other: "sv_heap (limited cfg now ?u ?d s) c = sv_heap s c" "sv_heap ?a c = sv_heap s c"
    if "Get ?u ?d (sv_registry s) \<noteq> Some c" for c
    using that by (auto simp: limited_def admitted_def split: option.split)
  have refl_place: "same_place c c" for c by (simp add: same_place_def)
  consider (dispatched) frame where "is_text" "?u \<noteq> 0" "?d \<noteq> []" "bucket_allows cfg now ?u ?d s"
      "ParseClientFrame J msg = Some (Inr frame)"
      "dispatch_frame J cfg iso_ms now log_info ?u ?d w frame ?a = (rc, s')"
    | (answered) s1 where "s1 \<in> {s, limited cfg now ?u ?d s, ?a}" "keeps_conns s1 s'" "sv_publisher s' = sv_publisher s1"
  proof -
    assume d: "\<And>frame. is_text \<Longrightarrow> ?u \<noteq> 0 \<Longrightarrow> ?d \<noteq> [] \<Longrightarrow> bucket_allows cfg now ?u ?d s \<Longrightarrow>
        ParseClientFrame J msg = Some (Inr frame) \<Longrightarrow>
        dispatch_frame J cfg iso_ms now log_info ?u ?d w frame ?a = (rc, s') \<Longrightarrow> thesis"
      and a: "\<And>s1. s1 \<in> {s, limited cfg now ?u ?d s, ?a} \<Longrightarrow> keeps_conns s1 s' \<Longrightarrow>
        sv_publisher s' = sv_publisher s1 \<Longrightarrow> thesis"
    have k: "keeps_conns ?a ?a" by (simp add: keeps_conns_def)
    show thesis
      using assms(2) a [of s] a [of "limited cfg now ?u ?d s"] a [of ?a] d k
      unfolding handle_checks by (auto simp: send_frame_state split: if_splits option.splits sum.splits)
  qed
  then show ?thesis
  proof cases
    case dispatched
    note F = dispatch_frame_frame(1,3) [OF dispatched(6)]
    show ?thesis
      using F(1) F(2) [OF assms(1)] dispatched(1-5) other(2)
      by (simp add: keeps_conns_def queues_own_def admitted_place)
  next
    case answered
    then show ?thesis
      using other refl_place by (auto simp: keeps_conns_def queues_own_def admitted_place)
  qed
qed

text \<open>
  C14. Nobody can publish in another user's name: a frame queues at most one message for the broker, only
  when it is a text frame of an admitted session whose connection, if registered, had a token left in
  its bucket, and that message names the session's user as its sender or receiver whatever the
  frame says. Connections, registry and scheduled closures are as before but for the bucket and the
  time of activity of this session's own connection.
\<close>

theorem handle_publishes_own:
  assumes "json_laws J" "handle H J cfg iso_ms now log_info header is_text msg w s = (rc, s')"
  shows "queues_own J cfg (header_uid H header) s s' \<and>
    (Publisher.m_queue (sv_publisher s') \<noteq> Publisher.m_queue (sv_publisher s) \<longrightarrow>
       is_text \<and> header_uid H header \<noteq> 0 \<and> getHeader H header ''$did'' \<noteq> [] \<and>
       bucket_allows cfg now (header_uid H header) (getHeader H header ''$did'') s \<and>
       (\<exists>frame. ParseClientFrame J msg = Some (Inr frame))) \<and>
    sv_registry s' = sv_registry s \<and> sv_tasks s' = sv_tasks s \<and>
    (\<forall>c. Get (header_uid H header) (getHeader H header ''$did'') (sv_registry s) \<noteq> Some c \<longrightarrow>
       sv_heap s' c = sv_heap s c) \<and>
    (\<forall>c. same_place (sv_heap s c) (sv_heap s' c))"
  by (rule handle_effect [OF assms])

text \<open>
  The rate limit binds registered connections only: a session whose entry is gone (kicked out, timed out
  or removed by a late close) is still served, and no frame of it is ever refused as too many.
\<close>

theorem unregistered_not_limited:
  assumes "Get (header_uid H header) (getHeader H header ''$did'') (sv_registry s) = None"
    and "header_uid H header \<noteq> 0" "getHeader H header ''$did'' \<noteq> []"
    and "ParseClientFrame J msg = Some (Inr frame)"
  shows "handle H J cfg iso_ms now log_info header True msg w s =
    dispatch_frame J cfg iso_ms now log_info (header_uid H header) (getHeader H header ''$did'') w frame s"
  using assms by (simp add: handle_checks bucket_allows_def admitted_def)

text \<open>
  The data of a frame is not checked to be an object: for data on which the accessors throw, such as an
  array, the callback throws instead of answering with an error.
\<close>

theorem frame_data_throws:
  assumes "ParseClientFrame J msg = Some (Inr frame)" "cf_type frame = ''msg.send''"
    and "get_string J (cf_data frame) ''clientMsgId'' = None"
    and "header_uid H header \<noteq> 0" "getHeader H header ''$did'' \<noteq> []"
    and "bucket_allows cfg now (header_uid H header) (getHeader H header ''$did'') s"
  shows "fst (handle H J cfg iso_ms now log_info header True msg w s) = None"
  using assms by (simp add: handle_checks dispatch_frame_def HandleMsgSend_def read_send_def Let_def)

section \<open>Examples\<close>

definition demo_http :: "(string \<times> string) list http_lib" where
  "demo_http =
     \<lparr>getParam = (\<lambda>h k. case map_of h (CHR ''?'' # k) of None \<Rightarrow> [] | Some v \<Rightarrow> v),
      getHeader = (\<lambda>h k. case map_of h k of None \<Rightarrow> [] | Some v \<Rightarrow> v),
      setHeader = (\<lambda>h k v. (k, v) # h), Atoi = (\<lambda>s. int (foldl (\<lambda>v c. 10 * v + digit_value c) 0 s)),
      has_socket = (\<lambda>_. True)\<rparr>"

lemma demo_http_laws: "http_laws demo_http"
  by (auto simp: http_laws_def demo_http_def show_u64_def show_nat_value)

definition demo_conf :: ChatConfig where
  "demo_conf = demo_cfg\<lparr>m_jwt := demo_jwt\<rparr>"

lemma demo_conf_limits:
  "max_devices demo_conf = 5" "queue_capacity (m_rabbitmq demo_conf) = 10000" "m_jwt demo_conf = demo_jwt"
  "chat_frame_rate_limit_per_second (m_chat demo_conf) = 20"
  by (simp_all add: demo_conf_def max_devices_def queue_capacity_def read_config_def default_vars_def)

definition demo_request :: "(string \<times> string) list" where
  "demo_request = [(''?token'', ''SA.UA.YWIB'')]"

definition demo_header :: "string \<Rightarrow> (string \<times> string) list" where
  "demo_header did = [(''$uid'', ''7''), (''$did'', did)]"

lemma demo_token: "ExtractToken demo_http demo_request = ''SA.UA.YWIB''"
  by (simp add: ExtractToken_def demo_http_def demo_request_def)

lemma demo_verify:
  "Verify demo_json demo_crypto (m_jwt demo_conf) 150 (ExtractToken demo_http demo_request) = Some (Inr demo_claims)"
  unfolding Verify_iff [OF demo_memcmp] demo_token demo_conf_limits by (rule demo_accepted)

lemma demo_header_reads: "header_uid demo_http (demo_header did) = 7"
  "getHeader demo_http (demo_header did) ''$did'' = did"
  by (simp_all add: header_uid_def demo_http_def demo_header_def digit_value_def)

lemma service_start_wf: "service_wf cfg (service_start h)"
  using registry_wf_empty [of h]
  by (simp add: service_wf_def service_start_def pending_wf_def Get_def new_MqPublisher_def)
    (simp add: empty_registry_def)

lemma demo_service_wf: "service_wf cfg demo_service"
  by (simp add: demo_service_def service_start_wf)

lemma demo_connects:
  obtains h1 s1 where "onConnect demo_http demo_json demo_crypto demo_conf 150 1000 0 (Some 1) demo_request 10
    demo_service = (Some 0, h1, s1)"
proof -
  have "fst (onConnect demo_http demo_json demo_crypto demo_conf 150 1000 0 (Some 1) demo_request 10 demo_service)
      = Some 0"
    using demo_verify
    by (simp add: onConnect_def Let_def demo_token demo_claims_def register_conn_def case_prod_beta)
  then show ?thesis by (metis prod_cases3 fst_conv that)
qed

theorem onConnect_authenticates_witness:
  "\<exists>c. token_accepted demo_json demo_crypto demo_jwt 150 ''SA.UA.YWIB'' c \<and> jc_user_id c \<noteq> 0"
proof -
  obtain h1 s1 where C: "onConnect demo_http demo_json demo_crypto demo_conf 150 1000 0 (Some 1) demo_request 10
    demo_service = (Some 0, h1, s1)" by (rule demo_connects)
  from onConnect_authenticates [OF demo_memcmp C] show ?thesis
    by (simp add: demo_token demo_conf_limits)
qed

theorem onConnect_registers_witness:
  "\<exists>claims did c (s1 :: json service). Get (jc_user_id claims) did (sv_registry s1) = Some c \<and> oc_session (sv_heap s1 c) = Some 10 \<and>
     token_accepted demo_json demo_crypto demo_jwt 150 ''SA.UA.YWIB'' claims"
proof -
  obtain h1 s1 where C: "onConnect demo_http demo_json demo_crypto demo_conf 150 1000 0 (Some 1) demo_request 10
    demo_service = (Some 0, h1, s1)" by (rule demo_connects)
  have login: "\<forall>u d c. Get u d (sv_registry demo_service) = Some c \<longrightarrow> oc_login_at (sv_heap demo_service c) < 1000"
    by (simp add: demo_service_def service_start_def Get_def empty_registry_def)
  have mx: "1 \<le> max_devices demo_conf" by (simp add: demo_conf_limits)
  from onConnect_registers [OF demo_memcmp demo_http_laws demo_service_wf mx C login]
  obtain claims did c where
    "token_accepted demo_json demo_crypto (m_jwt demo_conf) 150 (ExtractToken demo_http demo_request) claims"
    "Get (jc_user_id claims) did (sv_registry s1) = Some c" "oc_session (sv_heap s1 c) = Some 10" by blast
  then show ?thesis unfolding demo_token demo_conf_limits by blast
qed

definition demo_both :: "json service" where
  "demo_both = demo_online\<lparr>sv_next := 3\<rparr>"



definition demo_again :: "json service" where
  "demo_again = demo_service\<lparr>sv_heap := (\<lambda>_. new_OnlineConn 7 ''d'' (Some 11) (Some 1) 0 20), sv_next := 2,
     sv_registry := \<lparr>m_conns = [(7, [(''d'', 1)])]\<rparr>\<rparr>"

theorem stale_close_unregisters_witness:
  "\<exists>h1. Get 7 ''d'' (sv_registry (snd (onClose demo_http demo_json demo_conf h1 10 demo_again))) = None \<and>
     \<not> IsUserOnline 7 (sv_registry (snd (onClose demo_http demo_json demo_conf h1 10 demo_again)))"
proof -
  obtain h1 s1 where C: "onConnect demo_http demo_json demo_crypto demo_conf 150 1000 0 (Some 1) demo_request 10
    demo_service = (Some 0, h1, s1)" by (rule demo_connects)
  obtain rc s' where D: "onClose demo_http demo_json demo_conf h1 10 demo_again = (rc, s')" by (rule prod.exhaust)
  have wf: "service_wf demo_conf demo_again"
    by (auto simp: service_wf_def demo_again_def demo_service_simps demo_conf_limits pending_wf_def Get_def
        registry_wf_def devices_wf_def new_OnlineConn_def split: if_splits)
  have "jc_user_id demo_claims = 7" "jc_device_id demo_claims = ''d''" by (simp_all add: demo_claims_def)
  with stale_close_unregisters [OF demo_http_laws wf C demo_verify _ _ _ _ _ _ D, of 1 11] D show ?thesis
    by (intro exI [of _ h1])
      (simp add: Get_def demo_again_def new_OnlineConn_def UserConnectionCount_def)
qed

definition demo_frames :: "json json_lib" where
  "demo_frames = ref_json [(''P'', JObj [(''type'', JStr ''ping'')]),
     (''S'', JObj [(''type'', JStr ''msg.send''), (''data'', JArr [])])]"

lemma demo_frames_laws: "json_laws demo_frames"
  by (simp add: demo_frames_def ref_json_laws)

lemma demo_parses:
  "ParseClientFrame demo_frames ''P'' = Some (Inr \<lparr>cf_type = ''ping'', cf_has_seq = False, cf_seq = 0, cf_data = JObj []\<rparr>)"
  "ParseClientFrame demo_frames ''S'' = Some (Inr \<lparr>cf_type = ''msg.send'', cf_has_seq = False, cf_seq = 0, cf_data = JArr []\<rparr>)"
  by (simp_all add: ParseClientFrame_def demo_frames_def ref_json_defs)

theorem handle_publishes_own_witness:
  "queues_own demo_frames demo_conf 7 demo_both
     (snd (handle demo_http demo_frames demo_conf 0 9 False (demo_header ''a'') True ''P'' 10 demo_both))"
proof -
  obtain rc s' where D: "handle demo_http demo_frames demo_conf 0 9 False (demo_header ''a'') True ''P'' 10 demo_both = (rc, s')"
    by (rule prod.exhaust)
  from handle_publishes_own [OF demo_frames_laws D] D show ?thesis by (simp add: demo_header_reads)
qed

theorem unregistered_not_limited_witness:
  "fst (handle demo_http demo_frames demo_conf 0 9 False (demo_header ''z'') True ''P'' 10 demo_both) = Some 0"
proof -
  have "Get (header_uid demo_http (demo_header ''z'')) (getHeader demo_http (demo_header ''z'') ''$did'')
      (sv_registry demo_both) = None"
    by (simp add: demo_header_reads Get_def demo_both_def demo_online_def)
  from unregistered_not_limited [OF this _ _ demo_parses(1)] show ?thesis
    by (simp add: demo_header_reads dispatch_frame_def Let_def demo_frames_def ref_json_defs)
qed

theorem frame_data_throws_witness:
  "fst (handle demo_http demo_frames demo_conf 0 9 False (demo_header ''z'') True ''S'' 10 demo_both) = None"
  by (rule frame_data_throws [OF demo_parses(2)])
    (simp_all add: demo_header_reads bucket_allows_def Get_def demo_both_def demo_online_def demo_frames_def ref_json_defs)

end
