(* ===== verification/My_Module.thy ===== *)
theory My_Module
  imports Chat_Servlet
begin

text \<open>
  \<open>chat/my_module.{h,cc}\<close>: loading, the registration of the servlets, starting and stopping the broker
  threads, the timer, and the metrics page. The state is that of the whole process: the service's
  shared state, the consumer with the local variables of both threads' loops, and the handler
  closures that outlived their delivery. The servers that the application has are a parameter.
\<close>

record 'j system =
  y_service :: "'j service"
  y_pub_backoff :: int
  y_con_backoff :: int
  y_consumer :: "('j, ChatMetrics \<times> int \<times> 'j service) MqConsumer"
  y_late :: "'j Envelope list"

text \<open>
  The publisher's and the consumer's view of the state. The consumer's handler works on the metrics,
  the clock that the handler reads and the service.
\<close>

definition publisher_view :: "'j system \<Rightarrow> 'j publisher_state" where
  "publisher_view y = (y_pub_backoff y, sv_publisher (y_service y), sv_metrics (y_service y))"

definition set_publisher :: "'j publisher_state \<Rightarrow> 'j system \<Rightarrow> 'j system" where
  "set_publisher p y =
     (case p of (b, pub, met) \<Rightarrow>
        y\<lparr>y_pub_backoff := b, y_service := (y_service y)\<lparr>sv_publisher := pub, sv_metrics := met\<rparr>\<rparr>)"

definition consumer_view :: "int \<Rightarrow> 'j system \<Rightarrow> ('j, int \<times> 'j service) consumer_state" where
  "consumer_view now y =
     (y_con_backoff y, y_consumer y, sv_metrics (y_service y), (now, y_service y), y_late y)"

definition set_consumer :: "('j, int \<times> 'j service) consumer_state \<Rightarrow> 'j system \<Rightarrow> 'j system" where
  "set_consumer c y =
     (case c of (b, con, met, (_, s), late) \<Rightarrow>
        y\<lparr>y_con_backoff := b, y_consumer := con, y_service := s\<lparr>sv_metrics := met\<rparr>, y_late := late\<rparr>)"

text \<open>The closure that \<open>startMq\<close> gives to the consumer.\<close>

definition mq_handler :: "'j json_lib \<Rightarrow> ('j, ChatMetrics \<times> int \<times> 'j service) handler" where
  "mq_handler J env = (\<lambda>(met, now_ms, s).
     case OnEnvelope J now_ms env (s\<lparr>sv_metrics := met\<rparr>) of (r, s) \<Rightarrow> (r, sv_metrics s, now_ms, s))"

definition startMq :: "'j json_lib \<Rightarrow> ChatConfig \<Rightarrow> nat option \<Rightarrow> 'j system \<Rightarrow> bool \<times> 'j system" where
  "startMq J cfg iom y =
     (let y = set_publisher (Publisher.Start (m_rabbitmq cfg) (publisher_view y)) y
      in (True, set_consumer (Consumer.Start (m_rabbitmq cfg) iom (Some (mq_handler J)) (consumer_view 0 y)) y))"

definition stopMq :: "amqp_lib \<Rightarrow> 'j system \<Rightarrow> 'j system" where
  "stopMq L y =
     (let y = set_consumer (Consumer.Stop L (consumer_view 0 y)) y
      in set_publisher (Publisher.Stop L (publisher_view y)) y)"

definition onLoad :: "(string \<Rightarrow> string option) \<Rightarrow> config_vars \<Rightarrow> bool \<times> ChatConfig" where
  "onLoad getenv v = (case Load getenv v of (err, cfg) \<Rightarrow> (err = None, cfg))"

definition onUnload :: "amqp_lib \<Rightarrow> 'j system \<Rightarrow> bool \<times> 'j system" where
  "onUnload L y = (True, stopMq L y)"

text \<open>The answer of the page \<open>/metrics\<close>: content type and body.\<close>

definition metrics_page :: "'j service \<Rightarrow> string \<times> string" where
  "metrics_page s =
     (''text/plain; version=0.0.4; charset=utf-8'', RenderPrometheus (sv_registry s) (sv_metrics s))"

text \<open>
  A server of the application and the two \<open>dynamic_pointer_cast\<close>s; a registration is a server with the
  path of the servlet that was added to it. \<open>getServer\<close> is \<open>None\<close> when it returns false.
\<close>

record 'srv app_lib =
  getServer :: "string \<Rightarrow> 'srv list option"
  is_http_server :: "'srv \<Rightarrow> bool"
  is_ws_server :: "'srv \<Rightarrow> bool"

definition registerHttpServlets :: "'srv app_lib \<Rightarrow> bool \<times> ('srv \<times> string) list" where
  "registerHttpServlets A =
     (case getServer A ''http'' of
        None \<Rightarrow> (False, [])
      | Some svrs \<Rightarrow> (True, map (\<lambda>srv. (srv, ''/metrics'')) (filter (is_http_server A) svrs)))"

definition registerWsServlets :: "'srv app_lib \<Rightarrow> ChatConfig \<Rightarrow> bool \<times> ('srv \<times> string) list" where
  "registerWsServlets A cfg =
     (case getServer A ''ws'' of
        None \<Rightarrow> (False, [])
      | Some svrs \<Rightarrow> (True, map (\<lambda>srv. (srv, chat_ws_path (m_chat cfg))) (filter (is_ws_server A) svrs)))"

text \<open>The timer's callback: close the connections that timed out, then sweep the pending sends.\<close>

definition close_timeouted :: "ptr \<Rightarrow> 'j service \<Rightarrow> 'j service" where
  "close_timeouted c s =
     (case oc_io_manager (sv_heap s c) of
        Some iom \<Rightarrow> schedule iom (CloseTask c) s
      | None \<Rightarrow>
          (case oc_session (sv_heap s c) of
             None \<Rightarrow> s
           | Some w \<Rightarrow> perform [CloseSession w] s))"

definition on_timer :: "ChatConfig \<Rightarrow> int \<Rightarrow> 'j service \<Rightarrow> 'j service" where
  "on_timer cfg now s =
     (let timeout_ms = i64 (chat_heartbeat_timeout_seconds (m_chat cfg) * 1000);
          deadline = i64 (now - timeout_ms);
          timeouted = CollectTimeouted (sv_heap s) deadline (sv_registry s);
          s = fold close_timeouted timeouted s
      in SweepPending cfg now s)"

text \<open>
  \<open>onServerReady\<close>: the result, the registrations, the timer's period in milliseconds when one was added,
  and the state.
\<close>

definition onServerReady ::
  "'srv app_lib \<Rightarrow> 'j json_lib \<Rightarrow> ChatConfig \<Rightarrow> nat option \<Rightarrow> 'j system
     \<Rightarrow> bool \<times> ('srv \<times> string) list \<times> int option \<times> 'j system" where
  "onServerReady A J cfg iom y =
     (case registerHttpServlets A of (ok, http) \<Rightarrow>
        if \<not> ok then (False, http, None, y)
        else case registerWsServlets A cfg of (ok, ws) \<Rightarrow>
          if \<not> ok then (False, http @ ws, None, y)
          else case startMq J cfg iom y of (ok, y) \<Rightarrow>
            if \<not> ok then (False, http @ ws, None, y)
            else (True, http @ ws, Some (10 * 1000), y))"

definition system_start :: "heap \<Rightarrow> 'j system" where
  "system_start h =
     \<lparr>y_service = service_start h, y_pub_backoff = 0, y_con_backoff = 0, y_consumer = new_MqConsumer,
      y_late = []\<rparr>"

section \<open>The timer\<close>

definition close_tasks :: "heap \<Rightarrow> ptr \<Rightarrow> (nat \<times> 'j task) list" where
  "close_tasks h c = (case oc_io_manager (h c) of Some iom \<Rightarrow> [(iom, CloseTask c)] | None \<Rightarrow> [])"

definition close_effects :: "heap \<Rightarrow> ptr \<Rightarrow> effect list" where
  "close_effects h c =
     (case (oc_io_manager (h c), oc_session (h c)) of (None, Some w) \<Rightarrow> [CloseSession w] | _ \<Rightarrow> [])"

lemma close_timeouted_state:
  "fold close_timeouted cs s = s\<lparr>sv_tasks := sv_tasks s @ concat (map (close_tasks (sv_heap s)) cs),
     sv_effects := sv_effects s @ concat (map (close_effects (sv_heap s)) cs)\<rparr>"
proof (induction cs arbitrary: s)
  case Nil
  show ?case by simp
next
  case (Cons c cs)
  have "close_timeouted c s = s\<lparr>sv_tasks := sv_tasks s @ close_tasks (sv_heap s) c,
      sv_effects := sv_effects s @ close_effects (sv_heap s) c\<rparr>"
    by (cases "oc_io_manager (sv_heap s c)"; cases "oc_session (sv_heap s c)")
      (simp_all add: close_timeouted_def close_tasks_def close_effects_def schedule_def perform_def)
  with Cons show ?case by simp
qed

definition idle_deadline :: "ChatConfig \<Rightarrow> int \<Rightarrow> int" where
  "idle_deadline cfg now = i64 (now - i64 (chat_heartbeat_timeout_seconds (m_chat cfg) * 1000))"

lemma on_timer_state:
  fixes s
  defines "idle \<equiv> \<lambda>cfg now. CollectTimeouted (sv_heap s) (idle_deadline cfg now) (sv_registry s)"
  shows "on_timer cfg now s = s\<lparr>sv_pending := sv_pending (SweepPending cfg now s),
    sv_tasks := sv_tasks s @ concat (map (close_tasks (sv_heap s)) (idle cfg now)),
    sv_effects := sv_effects s @ concat (map (close_effects (sv_heap s)) (idle cfg now))\<rparr>"
  by (simp add: on_timer_def Let_def idle_def idle_deadline_def SweepPending_def close_timeouted_state)

text \<open>
  C32. At each tick exactly the registered connections that no frame has touched for the heartbeat timeout
  are closed: with an IO manager by one closure scheduled there, without one at once. The registry
  keeps them until their sessions' own \<open>onClose\<close>, and nothing else changes but the sweep of the
  pending sends.
\<close>

theorem timer_closes_idle:
  assumes "registry_wf (sv_heap s) mx (sv_registry s)"
    and "0 \<le> chat_heartbeat_timeout_seconds (m_chat cfg)" "chat_heartbeat_timeout_seconds (m_chat cfg) < 2 ^ 31"
    and "0 \<le> now" "now < 2 ^ 62"
  shows "(\<exists>idle. set idle = {c. (\<exists>uid did. Get uid did (sv_registry s) = Some c) \<and>
        oc_last_active_ts (sv_heap s c) + 1000 * chat_heartbeat_timeout_seconds (m_chat cfg) \<le> now} \<and>
      sv_tasks (on_timer cfg now s) = sv_tasks s @ concat (map (close_tasks (sv_heap s)) idle) \<and>
      sv_effects (on_timer cfg now s) = sv_effects s @ concat (map (close_effects (sv_heap s)) idle)) \<and>
    sv_registry (on_timer cfg now s) = sv_registry s \<and> sv_heap (on_timer cfg now s) = sv_heap s \<and>
    sv_publisher (on_timer cfg now s) = sv_publisher s"
proof -
  let ?idle = "CollectTimeouted (sv_heap s) (idle_deadline cfg now) (sv_registry s)"
  have "idle_deadline cfg now = now - 1000 * chat_heartbeat_timeout_seconds (m_chat cfg)"
    using assms(2-5) by (simp add: idle_deadline_def)
  then have idle: "set ?idle = {c. (\<exists>uid did. Get uid did (sv_registry s) = Some c) \<and>
      oc_last_active_ts (sv_heap s c) + 1000 * chat_heartbeat_timeout_seconds (m_chat cfg) \<le> now}"
    using Timeouted_result [OF assms(1), THEN conjunct1]
    by (simp add: set_eq_iff le_diff_eq)
  show ?thesis by (intro conjI exI [of _ ?idle] idle) (simp_all add: on_timer_state)
qed

section \<open>Starting and stopping\<close>

text \<open>
  C33. The module is ready exactly when the application has HTTP and WebSocket servers; then the metrics
  page is on every HTTP server and the chat servlet on every WebSocket server at the configured path,
  both broker threads run with the service's own handler, and the timer ticks every ten seconds. If it
  is not ready no thread is started. Unloading stops both threads and closes their connections.
\<close>

theorem module_lifecycle:
  assumes "\<not> MqConsumer.m_running (y_consumer y)"
    and "onServerReady A J cfg iom y = (ok, regs, period, y')"
  shows "(ok \<longleftrightarrow> getServer A ''http'' \<noteq> None \<and> getServer A ''ws'' \<noteq> None) \<and>
    (\<not> ok \<longrightarrow> y' = y \<and> period = None) \<and>
    (ok \<longrightarrow> period = Some 10000 \<and>
       set regs = {(srv, ''/metrics'') | srv. srv \<in> set (the (getServer A ''http'')) \<and> is_http_server A srv} \<union>
         {(srv, chat_ws_path (m_chat cfg)) | srv. srv \<in> set (the (getServer A ''ws'')) \<and> is_ws_server A srv} \<and>
       Publisher.m_running (sv_publisher (y_service y')) \<and> MqConsumer.m_running (y_consumer y') \<and>
       MqConsumer.m_handler (y_consumer y') = Some (mq_handler J) \<and> m_scheduler (y_consumer y') = iom \<and>
       sv_registry (y_service y') = sv_registry (y_service y) \<and>
       (let z = snd (onUnload L y') in
          \<not> Publisher.m_running (sv_publisher (y_service z)) \<and> \<not> MqConsumer.m_running (y_consumer z) \<and>
          m_conn (Publisher.m_client (sv_publisher (y_service z))) = None \<and>
          m_conn (MqConsumer.m_client (y_consumer z)) = None))"
proof -
  have close: "m_conn (Close L cl) = None" for cl by (simp add: Close_def Let_def split: option.split)
  show ?thesis
  proof (cases "getServer A ''http''")
    case None
    with assms(2) show ?thesis by (auto simp: onServerReady_def registerHttpServlets_def)
  next
    case (Some hs)
    show ?thesis
    proof (cases "getServer A ''ws''")
      case None
      with Some assms(2) show ?thesis
        by (auto simp: onServerReady_def registerHttpServlets_def registerWsServlets_def)
    next
      case (Some ws)
      from \<open>getServer A ''http'' = Some hs\<close> Some assms show ?thesis
        by (auto simp: onServerReady_def registerHttpServlets_def registerWsServlets_def startMq_def Let_def
            onUnload_def stopMq_def publisher_view_def set_publisher_def consumer_view_def set_consumer_def
            Publisher.Start_def Consumer.Start_def Publisher.Stop_def Consumer.Stop_def close
            split: prod.splits if_splits)
    qed
  qed
qed

section \<open>Examples\<close>

theorem timer_closes_idle_witness:
  "(1, CloseTask 0) \<in> set (sv_tasks (on_timer demo_conf 100000 demo_both))"
proof -
  have to: "chat_heartbeat_timeout_seconds (m_chat demo_conf) = 75"
    by (simp add: demo_conf_def read_config_def default_vars_def)
  have wf: "registry_wf (sv_heap demo_both) 5 (sv_registry demo_both)"
    using demo_online_wf by (simp add: demo_both_def)
  obtain idle where idle: "set idle = {c. (\<exists>uid did. Get uid did (sv_registry demo_both) = Some c) \<and>
        oc_last_active_ts (sv_heap demo_both c) + 75000 \<le> 100000}"
    "sv_tasks (on_timer demo_conf 100000 demo_both) = sv_tasks demo_both @ concat (map (close_tasks (sv_heap demo_both)) idle)"
    using timer_closes_idle [OF wf, of demo_conf 100000] to by auto
  have "Get 7 ''a'' (sv_registry demo_both) = Some 0" by (simp add: Get_def demo_both_def demo_online_def)
  then have "0 \<in> set idle" by (auto simp: idle(1)) (simp_all add: demo_both_def demo_defs)
  then have "set (close_tasks (sv_heap demo_both) 0) \<subseteq> set (sv_tasks (on_timer demo_conf 100000 demo_both))"
    unfolding idle(2) by auto
  then show ?thesis by (simp add: close_tasks_def demo_both_def demo_defs)
qed

definition demo_app :: "string app_lib" where
  "demo_app = \<lparr>getServer = (\<lambda>name. Some [name]), is_http_server = (\<lambda>srv. srv = ''http''),
     is_ws_server = (\<lambda>srv. srv = ''ws'')\<rparr>"

theorem module_lifecycle_witness:
  "set (fst (snd (onServerReady demo_app (ref_json []) demo_conf (Some 1) (system_start demo_heap)))) =
     {(''http'', ''/metrics''), (''ws'', ''/flz/chat'')}"
proof -
  obtain ok regs period y' where R: "onServerReady demo_app (ref_json []) demo_conf (Some 1) (system_start demo_heap)
      = (ok, regs, period, y')" by (rule prod_cases4)
  have idle: "\<not> MqConsumer.m_running (y_consumer (system_start demo_heap :: json system))"
    by (simp add: system_start_def new_MqConsumer_def)
  have path: "chat_ws_path (m_chat demo_conf) = ''/flz/chat''"
    by (simp add: demo_conf_def read_config_def default_vars_def)
  note M = module_lifecycle [OF idle R, of "accepting no_message"]
  have ok: ok using M [THEN conjunct1] by (simp add: demo_app_def)
  from M [THEN conjunct2, THEN conjunct2, THEN mp, OF ok, THEN conjunct2, THEN conjunct1] path
  show ?thesis unfolding R by (auto simp: demo_app_def)
qed

end
