(* ===== verification/System.thy ===== *)
theory System
  imports My_Module
begin

text \<open>
  The whole process as a state machine: one event is one callback of the framework, one turn of a broker
  thread, one run of a scheduled closure, or one tick of the timer. Callbacks are atomic here;
  \<open>Sections\<close> cuts them into their critical sections, which the threads of \<open>Threads\<close> interleave. \<open>reaches\<close>
  collects the states that some history of events leads to.
\<close>

record ('h, 'j) world =
  w_http :: "'h http_lib"
  w_json :: "'j json_lib"
  w_crypto :: crypto_lib
  w_amqp :: amqp_lib
  w_cfg :: ChatConfig

datatype 'h event =
    Connected int int int "nat option" 'h sid \<comment> \<open>clock in seconds and milliseconds, time stamp, IO manager\<close>
  | Closed 'h sid
  | FrameIn int int bool 'h bool string sid
  | Timer int
  | RunTask nat \<comment> \<open>the closure at this position of those scheduled\<close>
  | PublisherTurn "(nat \<Rightarrow> 8 word) option" int
  | ConsumerTurn int int bool bool \<comment> \<open>clock of the filter and of the handler\<close>
  | LateHandler nat int
  | StartMq "nat option"
  | StopMq

definition without :: "nat \<Rightarrow> 'a list \<Rightarrow> 'a list" where
  "without k xs = take k xs @ drop (Suc k) xs"

inductive step :: "('h, 'j) world \<Rightarrow> 'h event \<Rightarrow> 'j system \<Rightarrow> 'j system \<Rightarrow> bool" for W where
  connect: "onConnect (w_http W) (w_json W) (w_crypto W) (w_cfg W) now_s now_ms iso_ms iom header w (y_service y)
      = (rc, header', s) \<Longrightarrow>
    step W (Connected now_s now_ms iso_ms iom header w) y (y\<lparr>y_service := s\<rparr>)"
| closed: "onClose (w_http W) (w_json W) (w_cfg W) header w (y_service y) = (rc, s) \<Longrightarrow>
    step W (Closed header w) y (y\<lparr>y_service := s\<rparr>)"
| frame_in: "handle (w_http W) (w_json W) (w_cfg W) iso_ms now_ms log_info header is_text msg w (y_service y)
      = (rc, s) \<Longrightarrow>
    step W (FrameIn iso_ms now_ms log_info header is_text msg w) y (y\<lparr>y_service := s\<rparr>)"
| timer: "step W (Timer now_ms) y (y\<lparr>y_service := on_timer (w_cfg W) now_ms (y_service y)\<rparr>)"
| run_scheduled: "k < length (sv_tasks (y_service y)) \<Longrightarrow> sv_tasks (y_service y) ! k = (iom, t) \<Longrightarrow>
    step W (RunTask k) y (y\<lparr>y_service := run_task (w_http W) (w_json W) t
      ((y_service y)\<lparr>sv_tasks := without k (sv_tasks (y_service y))\<rparr>)\<rparr>)"
| publisher_turn: "step W (PublisherTurn rand_bytes now_ms) y
    (set_publisher (Publisher.Run_iteration (w_amqp W) (w_json W) (m_rabbitmq (w_cfg W)) rand_bytes now_ms
       (publisher_view y)) y)"
| consumer_turn: "Consumer.Run_iteration (w_amqp W) (w_json W) (m_rabbitmq (w_cfg W)) now_ms still ready
      (consumer_view handler_ms y) = Some c \<Longrightarrow>
    step W (ConsumerTurn now_ms handler_ms still ready) y (set_consumer c y)"
| late_handler: "k < length (y_late y) \<Longrightarrow> MqConsumer.m_handler (y_consumer y) = Some h \<Longrightarrow>
    run_handler h (y_late y ! k) (sv_metrics (y_service y), now_ms, y_service y) = (r, met, now', s) \<Longrightarrow>
    step W (LateHandler k now_ms) y (y\<lparr>y_service := s\<lparr>sv_metrics := met\<rparr>, y_late := without k (y_late y)\<rparr>)"
| start_mq: "startMq (w_json W) (w_cfg W) iom y = (ok, y') \<Longrightarrow> step W (StartMq iom) y y'"
| stop_mq: "step W StopMq y (stopMq (w_amqp W) y)"

inductive_cases ConnectE: "step W (Connected now_s now_ms iso_ms iom header w) y y'"
inductive_cases ClosedE: "step W (Closed header w) y y'"
inductive_cases FrameE: "step W (FrameIn iso_ms now_ms log_info header is_text msg w) y y'"
inductive_cases RunTaskE: "step W (RunTask k) y y'"
inductive_cases ConsumerTurnE: "step W (ConsumerTurn now_ms handler_ms still ready) y y'"
inductive_cases LateHandlerE: "step W (LateHandler k now_ms) y y'"
inductive_cases StartMqE: "step W (StartMq iom) y y'"
inductive_simps TimerS: "step W (Timer now_ms) y y'"
inductive_simps PublisherTurnS: "step W (PublisherTurn rand_bytes now_ms) y y'"
inductive_simps StopMqS: "step W StopMq y y'"

lemmas step_elims = ConnectE ClosedE FrameE RunTaskE ConsumerTurnE LateHandlerE StartMqE

text \<open>
  All that the code leaves open - clocks, random bytes, the readiness of a handler, whose turn it is - is in
  the event: an event has one outcome.
\<close>

lemma step_deterministic: "step W e y y1 \<Longrightarrow> step W e y y2 \<Longrightarrow> y1 = y2"
  by (cases e) (auto simp: TimerS PublisherTurnS StopMqS elim!: step_elims)

text \<open>Callbacks, starts and the closures that are scheduled always have an outcome.\<close>

lemma step_exists:
  "\<exists>y'. step W (Connected now_s now_ms iso_ms iom header w) y y'" "\<exists>y'. step W (Closed header w) y y'"
  "\<exists>y'. step W (FrameIn iso_ms now_ms log_info header is_text msg w) y y'"
  "k < length (sv_tasks (y_service y)) \<Longrightarrow> \<exists>y'. step W (RunTask k) y y'" "\<exists>y'. step W (StartMq iom) y y'"
  by (meson step.intros prod_cases3 prod.exhaust)+

inductive reaches :: "('h, 'j) world \<Rightarrow> 'h event list \<Rightarrow> 'j system \<Rightarrow> bool" for W where
  start: "reaches W [] (system_start h)"
| step: "reaches W es y \<Longrightarrow> step W e y y' \<Longrightarrow> reaches W (e # es) y'"

section \<open>What the events leave alone\<close>

lemma send_push_state:
  "keeps_conns s (send_push J c type data hs sq s)" "sv_publisher (send_push J c type data hs sq s) = sv_publisher s"
  "sv_pending (send_push J c type data hs sq s) = sv_pending s"
  by (simp_all add: send_push_def keeps_conns_def count_metric_simps send_frame_perform perform_simps)

lemma run_task_state:
  "keeps_conns s (run_task H J t s) \<and> sv_publisher (run_task H J t s) = sv_publisher s \<and>
   sv_pending (run_task H J t s) = sv_pending s"
  by (cases t)
    (simp_all add: send_push_def send_frame_perform count_metric_simps close_session_def keeps_conns_def perform_simps
      split: option.split)

lemma close_tasks_conn: "(iom, t) \<in> set (close_tasks h c) \<Longrightarrow> t = CloseTask c"
  by (auto simp: close_tasks_def split: option.splits)

lemma without_subset: "set (without k xs) \<subseteq> set xs"
  by (auto simp: without_def dest: in_set_takeD in_set_dropD)

lemma Sweep_pending_wf: "pending_wf s \<Longrightarrow> pending_wf (SweepPending cfg now s)"
  by (simp add: pending_wf_def SweepPending_def Let_def distinct_map_filter)

text \<open>Starting and stopping the broker threads leaves the rest of the service alone.\<close>

lemma mq_switch_state:
  assumes "startMq J cfg iom y = (ok, y') \<or> y' = stopMq L y"
  shows "sv_registry (y_service y') = sv_registry (y_service y)" "sv_heap (y_service y') = sv_heap (y_service y)"
    "sv_next (y_service y') = sv_next (y_service y)" "sv_pending (y_service y') = sv_pending (y_service y)"
    "Publisher.m_queue (sv_publisher (y_service y')) = Publisher.m_queue (sv_publisher (y_service y))"
  using assms
  by (auto simp: startMq_def stopMq_def Let_def set_publisher_def set_consumer_def publisher_view_def
      consumer_view_def Publisher.Start_def Consumer.Start_def Publisher.Stop_def Consumer.Stop_def split: if_splits)

section \<open>The invariant of the service, event by event\<close>

lemma on_timer_wf:
  assumes "service_wf cfg s"
  shows "service_wf cfg (on_timer cfg now s)"
proof (rule service_wf_frame [OF assms])
  show "pending_wf (on_timer cfg now s)"
    using Sweep_pending_wf [OF service_wf_pending [OF assms], of cfg now] by (simp add: on_timer_state pending_wf_def)
  have wf: "registry_wf (sv_heap s) (max_devices cfg) (sv_registry s)" using assms by (simp add: service_wf_def)
  show "(iom, t) \<in> set (sv_tasks s) \<or> task_conn t < sv_next s" if "(iom, t) \<in> set (sv_tasks (on_timer cfg now s))" for iom t
  proof -
    from that consider "(iom, t) \<in> set (sv_tasks s)"
      | c where "c \<in> set (CollectTimeouted (sv_heap s) (idle_deadline cfg now) (sv_registry s))" "t = CloseTask c"
      by (auto simp: on_timer_state dest: close_tasks_conn)
    then show ?thesis
    proof cases
      case (2 c)
      then obtain u d where "Get u d (sv_registry s) = Some c" using Timeouted_result [OF wf] by blast
      with assms 2 show ?thesis by (auto simp: service_wf_def task_conn_def)
    qed simp
  qed
qed (simp_all add: on_timer_state same_place_def)

lemma run_task_wf:
  assumes "service_wf cfg s"
  shows "service_wf cfg (run_task H J t (s\<lparr>sv_tasks := without k (sv_tasks s)\<rparr>))"
proof -
  let ?s = "s\<lparr>sv_tasks := without k (sv_tasks s)\<rparr>"
  have "service_wf cfg ?s"
    using assms without_subset [of k "sv_tasks s"] by (auto simp: service_wf_def pending_wf_def)
  with run_task_state [of ?s H J t] show ?thesis
    by (auto simp: service_wf_def keeps_conns_def pending_wf_def)
qed

lemma taken_wf: "service_wf cfg s \<Longrightarrow> service_wf cfg (taken cid now s)"
  by (auto simp: service_wf_def taken_frame pending_wf_def keys_delete)

lemma push_task_conn: "(iom, t) \<in> set (push_task h p) \<Longrightarrow> task_conn t = fst p"
  by (cases p) (auto simp: task_conn_def split: option.splits)

lemma OnEnvelope_wf:
  assumes "service_wf cfg s"
  shows "service_wf cfg (snd (OnEnvelope J now env s))"
proof -
  obtain ps s1 where ps: "snd (OnEnvelope J now env s) = deliver J ps s1"
    "\<forall>push \<in> set ps. addressed J (payload env) (sv_registry s) push"
    "s1 = s \<or> (\<exists>cid. s1 = taken cid now s)" by (rule OnEnvelope_pushes)
  from ps(3) taken_wf [OF assms] assms have wf1: "service_wf cfg s1" by auto
  have reg: "sv_registry s1 = sv_registry s" "sv_next s1 = sv_next s" using ps(3) by (auto simp: taken_frame)
  have wf: "registry_wf (sv_heap s) (max_devices cfg) (sv_registry s)" using assms by (simp add: service_wf_def)
  have created: "fst push < sv_next s" if "push \<in> set ps" for push
  proof -
    from bspec [OF ps(2) that] obtain u d where "(d, fst push) \<in> set (devices (sv_registry s) u)"
      by (auto simp: addressed_def GetByUser_devices)
    with devices_Get [OF wf] have "Get u d (sv_registry s) = Some (fst push)" by blast
    with assms show ?thesis by (simp add: service_wf_def)
  qed
  show ?thesis
    unfolding ps(1)
  proof (rule service_wf_frame [OF wf1])
    show "(iom, t) \<in> set (sv_tasks s1) \<or> task_conn t < sv_next s1"
      if "(iom, t) \<in> set (sv_tasks (deliver J ps s1))" for iom t
      using that created by (auto simp: deliver_frame reg dest: push_task_conn)
    show "pending_wf (deliver J ps s1)"
      using service_wf_pending [OF wf1] by (simp add: pending_wf_def deliver_frame)
  qed (simp_all add: deliver_frame same_place_def)
qed

lemma OnEnvelope_keeps:
  "sv_heap (snd (OnEnvelope J now env s)) = sv_heap s" "sv_next (snd (OnEnvelope J now env s)) = sv_next s"
  "sv_publisher (snd (OnEnvelope J now env s)) = sv_publisher s"
proof -
  obtain ps s1 where "snd (OnEnvelope J now env s) = deliver J ps s1"
    "s1 = s \<or> (\<exists>cid. s1 = taken cid now s)" by (rule OnEnvelope_pushes)
  then show "sv_heap (snd (OnEnvelope J now env s)) = sv_heap s" "sv_next (snd (OnEnvelope J now env s)) = sv_next s"
    "sv_publisher (snd (OnEnvelope J now env s)) = sv_publisher s"
    by (auto simp: deliver_frame taken_frame)
qed

section \<open>The consumer's handler\<close>

lemma mq_handler_state: "snd (snd (snd (mq_handler J env (met, now, s)))) = snd (OnEnvelope J now env (s\<lparr>sv_metrics := met\<rparr>))"
  by (simp add: mq_handler_def case_prod_beta)

lemma service_wf_metrics: "service_wf cfg (s\<lparr>sv_metrics := m\<rparr>) = service_wf cfg s"
  by (simp add: service_wf_def pending_wf_def)

section \<open>The invariant of the process\<close>

text \<open>A connection object that an accepted login created: its user's valid token came with its session.\<close>

definition logged_in :: "('h, 'j) world \<Rightarrow> 'h event list \<Rightarrow> OnlineConn \<Rightarrow> bool" where
  "logged_in W es c \<longleftrightarrow>
     (\<exists>now_s now_ms iso_ms iom header w claims. Connected now_s now_ms iso_ms iom header w \<in> set es \<and>
        token_accepted (w_json W) (w_crypto W) (m_jwt (w_cfg W)) now_s (ExtractToken (w_http W) header) claims \<and>
        oc_user_id c = jc_user_id claims \<and> oc_session c = Some w)"

definition conns_logged_in :: "('h, 'j) world \<Rightarrow> 'h event list \<Rightarrow> 'j service \<Rightarrow> bool" where
  "conns_logged_in W es s \<longleftrightarrow> (\<forall>c < sv_next s. logged_in W es (sv_heap s c))"

definition system_inv :: "('h, 'j) world \<Rightarrow> 'h event list \<Rightarrow> 'j system \<Rightarrow> bool" where
  "system_inv W es y \<longleftrightarrow>
     service_wf (w_cfg W) (y_service y) \<and> conns_logged_in W es (y_service y) \<and>
     MqConsumer.m_handler (y_consumer y) \<in> {None, Some (mq_handler (w_json W))} \<and>
     amqp_inv (w_amqp W) (Publisher.m_client (sv_publisher (y_service y))) \<and>
     amqp_inv (w_amqp W) (MqConsumer.m_client (y_consumer y)) \<and> consumer_cache (consumer_view 0 y)"

lemma logged_in_mono: "logged_in W es c \<Longrightarrow> same_place c c' \<Longrightarrow> logged_in W (e # es) c'"
  unfolding logged_in_def same_place_def by (metis list.set_intros(2))

lemma conns_logged_in_mono:
  assumes "conns_logged_in W es s" "sv_next s' = sv_next s" "\<And>c. same_place (sv_heap s c) (sv_heap s' c)"
  shows "conns_logged_in W (e # es) s'"
  unfolding conns_logged_in_def assms(2)
proof (intro allI impI)
  fix c
  assume "c < sv_next s"
  with assms(1) have "logged_in W es (sv_heap s c)" by (simp add: conns_logged_in_def)
  then show "logged_in W (e # es) (sv_heap s' c)" by (rule logged_in_mono [OF _ assms(3)])
qed

lemma system_inv_service:
  assumes "system_inv W es y" "service_wf (w_cfg W) s" "conns_logged_in W (e # es) s"
    and "Publisher.m_client (sv_publisher s) = Publisher.m_client (sv_publisher (y_service y))"
  shows "system_inv W (e # es) (y\<lparr>y_service := s\<rparr>)"
  using assms by (simp add: system_inv_def consumer_cache_def consumer_view_def)

lemma same_place_refl: "same_place c c"
  by (simp add: same_place_def)

lemma connect_logged_in:
  assumes "memcmp_law (w_crypto W)" "conns_logged_in W es s"
    and "onConnect (w_http W) (w_json W) (w_crypto W) (w_cfg W) now_s now_ms iso_ms iom header w s = (rc, header', s')"
  shows "conns_logged_in W (Connected now_s now_ms iso_ms iom header w # es) s'"
  using assms(3)
proof (cases rule: onConnect_cases)
  case thrown
  then show ?thesis using conns_logged_in_mono [OF assms(2), of s] by (simp add: same_place_refl)
next
  case (refused err)
  then show ?thesis
    using conns_logged_in_mono [OF assms(2), of s'] by (simp add: auth_fail_state same_place_refl)
next
  case (accepted claims did s1)
  let ?e = "Connected now_s now_ms iso_ms iom header w"
  let ?new = "new_OnlineConn (jc_user_id claims) did (Some w) iom now_ms
    (chat_frame_rate_limit_per_second (m_chat (w_cfg W)))"
  have s1: "sv_heap s1 = sv_heap s" "sv_next s1 = sv_next s" using accepted(4) by auto
  obtain rep ev reg where A: "Add ((sv_heap s1)(sv_next s1 := ?new)) (Some (sv_next s1)) (max_devices (w_cfg W))
      (sv_registry s1) = (rep, ev, reg)" by (rule prod_cases3)
  note st = register_conn_state [OF accepted(3) refl refl refl A]
  have "token_accepted (w_json W) (w_crypto W) (m_jwt (w_cfg W)) now_s (ExtractToken (w_http W) header) claims"
    using Verify_iff [OF assms(1)] accepted(2) by blast
  moreover have "oc_user_id ?new = jc_user_id claims \<and> oc_session ?new = Some w"
    by (simp add: new_OnlineConn_def)
  ultimately have new: "logged_in W (?e # es) ?new"
    unfolding logged_in_def by (metis list.set_intros(1))
  have old: "logged_in W (?e # es) (sv_heap s c)" if "c < sv_next s" for c
  proof -
    from that assms(2) have "logged_in W es (sv_heap s c)" by (simp add: conns_logged_in_def)
    then show ?thesis by (rule logged_in_mono [OF _ same_place_refl])
  qed
  show ?thesis using new old by (simp add: conns_logged_in_def st(2,3) s1 less_Suc_eq)
qed

lemma handle_next:
  assumes "handle H J cfg iso_ms now log_info header is_text msg w s = (rc, s')"
  shows "sv_next s' = sv_next s"
  using assms unfolding handle_checks
  by (auto simp: send_error_frame send_frame_perform perform_simps admitted_place
      split: if_splits option.splits sum.splits dest!: dispatch_frame_frame(1) simp: keeps_conns_def)

lemma publisher_turn_keeps:
  assumes "Publisher.Run_iteration L J mq rand_bytes now (b, pub, met) = (b', pub', met')"
  shows "length (Publisher.m_queue pub) \<le> queue_capacity mq \<Longrightarrow> length (Publisher.m_queue pub') \<le> queue_capacity mq"
    "amqp_inv L (Publisher.m_client pub) \<Longrightarrow> amqp_inv L (Publisher.m_client pub')"
  using publisher.bound [of "(b, pub, met)" mq L J "EvRun rand_bytes now"] Run_iteration_inv [OF _ assms] assms
  by (simp_all add: state_parts)

lemma set_publisher_inv:
  assumes "system_inv W es y"
    and "length (Publisher.m_queue pub) \<le> queue_capacity (m_rabbitmq (w_cfg W))"
      "amqp_inv (w_amqp W) (Publisher.m_client pub)"
  shows "system_inv W es (set_publisher (b, pub, met) y)"
  using assms
  by (simp add: system_inv_def set_publisher_def service_wf_def pending_wf_def conns_logged_in_def
      consumer_cache_def consumer_view_def)

lemma set_consumer_inv:
  assumes "system_inv W es y" "service_wf (w_cfg W) s" "conns_logged_in W es s"
    and "sv_publisher s = sv_publisher (y_service y)"
    and "MqConsumer.m_handler con \<in> {None, Some (mq_handler (w_json W))}"
    and "amqp_inv (w_amqp W) (MqConsumer.m_client con)" "consumer_cache (b, con, met, (now, s), late)"
  shows "system_inv W es (set_consumer (b, con, met, (now, s), late) y)"
  using assms
  by (simp add: system_inv_def set_consumer_def service_wf_metrics conns_logged_in_def consumer_cache_def
      consumer_view_def)

lemma system_inv_mono: "system_inv W es y \<Longrightarrow> system_inv W (e # es) y"
  using conns_logged_in_mono [of W es "y_service y" "y_service y" e] by (simp add: system_inv_def same_place_refl)

text \<open>The handler that \<open>startMq\<close> installs meets the consumer's contract for the invariant of the service.\<close>

definition handler_inv :: "('h, 'j) world \<Rightarrow> 'h event list \<Rightarrow> 'j MqPublisher \<Rightarrow> int \<times> 'j service \<Rightarrow> bool" where
  "handler_inv W es pub r \<longleftrightarrow>
     service_wf (w_cfg W) (snd r) \<and> conns_logged_in W es (snd r) \<and> sv_publisher (snd r) = pub"

interpretation mq: consumer_handler "mq_handler (w_json W)" "handler_inv W es pub" for W es pub
proof
  fix r env met
  assume r: "handler_inv W es pub r"
  obtain now s where rs: "r = (now, s)" by (cases r)
  have "service_wf (w_cfg W) (s\<lparr>sv_metrics := met\<rparr>)" using r by (simp add: rs handler_inv_def service_wf_metrics)
  from OnEnvelope_wf [OF this] r show "handler_inv W es pub (snd (snd (mq_handler (w_json W) env (met, r))))"
    by (simp add: rs handler_inv_def mq_handler_state conns_logged_in_def OnEnvelope_keeps)
qed

lemma handler_inv_now: "system_inv W es y \<Longrightarrow> handler_inv W es (sv_publisher (y_service y)) (now, y_service y)"
  by (simp add: system_inv_def handler_inv_def)

text \<open>Starting and stopping: the publisher first, then the consumer, and the other way round.\<close>

lemma publisher_switch_inv:
  assumes "system_inv W es y"
  shows "system_inv W es (set_publisher (Publisher.Start mq (publisher_view y)) y)"
    "system_inv W es (set_publisher (Publisher.Stop (w_amqp W) (publisher_view y)) y)"
proof -
  have "length (Publisher.m_queue (sv_publisher (y_service y))) \<le> queue_capacity (m_rabbitmq (w_cfg W))"
    "amqp_inv (w_amqp W) (Publisher.m_client (sv_publisher (y_service y)))"
    using assms by (simp_all add: system_inv_def service_wf_def)
  then show "system_inv W es (set_publisher (Publisher.Start mq (publisher_view y)) y)"
    "system_inv W es (set_publisher (Publisher.Stop (w_amqp W) (publisher_view y)) y)"
    by (simp_all add: publisher_view_def Publisher.Start_def Publisher.Stop_def set_publisher_inv [OF assms] Close_inv)
qed

lemma consumer_switch_inv:
  assumes "system_inv W es y"
  shows "system_inv W es (set_consumer (Consumer.Start mq iom (Some (mq_handler (w_json W))) (consumer_view 0 y)) y)"
    "system_inv W es (set_consumer (Consumer.Stop (w_amqp W) (consumer_view 0 y)) y)"
proof -
  have "service_wf (w_cfg W) (y_service y)" "conns_logged_in W es (y_service y)"
    "MqConsumer.m_handler (y_consumer y) \<in> {None, Some (mq_handler (w_json W))}"
    "amqp_inv (w_amqp W) (MqConsumer.m_client (y_consumer y))" "consumer_cache (consumer_view 0 y)"
    using assms by (simp_all add: system_inv_def)
  then show "system_inv W es (set_consumer (Consumer.Start mq iom (Some (mq_handler (w_json W))) (consumer_view 0 y)) y)"
    "system_inv W es (set_consumer (Consumer.Stop (w_amqp W) (consumer_view 0 y)) y)"
    by (simp_all add: consumer_view_def Consumer.Start_def Consumer.Stop_def set_consumer_inv [OF assms] Close_inv
        consumer_cache_def)
qed

lemma startMq_inv: "system_inv W es y \<Longrightarrow> system_inv W es (snd (startMq (w_json W) (w_cfg W) iom y))"
  by (simp add: startMq_def Let_def consumer_switch_inv publisher_switch_inv)

lemma stopMq_inv: "system_inv W es y \<Longrightarrow> system_inv W es (stopMq (w_amqp W) y)"
  by (simp add: stopMq_def Let_def consumer_switch_inv publisher_switch_inv)

text \<open>Every event keeps the invariant. Most change the service alone and create no connection object.\<close>

lemma service_event_inv:
  assumes "system_inv W es y" "service_wf (w_cfg W) s" "sv_next s = sv_next (y_service y)"
    and "\<And>c. same_place (sv_heap (y_service y) c) (sv_heap s c)"
    and "Publisher.m_client (sv_publisher s) = Publisher.m_client (sv_publisher (y_service y))"
  shows "system_inv W (e # es) (y\<lparr>y_service := s\<rparr>)"
proof -
  have "conns_logged_in W es (y_service y)" using assms(1) by (simp add: system_inv_def)
  from conns_logged_in_mono [OF this assms(3,4)] show ?thesis
    by (rule system_inv_service [OF assms(1,2) _ assms(5)])
qed

lemma publisher_turn_inv:
  assumes "system_inv W es y"
  shows "system_inv W (e # es) (set_publisher (Publisher.Run_iteration (w_amqp W) (w_json W) (m_rabbitmq (w_cfg W))
    rand_bytes now_ms (publisher_view y)) y)"
proof -
  obtain b pub met where P: "Publisher.Run_iteration (w_amqp W) (w_json W) (m_rabbitmq (w_cfg W)) rand_bytes now_ms
      (publisher_view y) = (b, pub, met)" by (rule prod_cases3)
  from assms have "length (Publisher.m_queue (sv_publisher (y_service y))) \<le> queue_capacity (m_rabbitmq (w_cfg W))"
    "amqp_inv (w_amqp W) (Publisher.m_client (sv_publisher (y_service y)))"
    by (simp_all add: system_inv_def service_wf_def)
  with publisher_turn_keeps [OF P [unfolded publisher_view_def]] set_publisher_inv [OF system_inv_mono [OF assms]]
  show ?thesis by (simp add: P)
qed

lemma consumer_turn_inv:
  assumes "system_inv W es y"
    and "Consumer.Run_iteration (w_amqp W) (w_json W) (m_rabbitmq (w_cfg W)) now_ms still ready
      (consumer_view handler_ms y) = Some c"
  shows "system_inv W (e # es) (set_consumer c y)"
proof -
  obtain b con met clk s late where c: "c = (b, con, met, (clk, s), late)" by (metis prod.exhaust)
  have cache: "consumer_cache (consumer_view handler_ms y)"
    using assms(1) by (simp add: system_inv_def consumer_cache_def consumer_view_def)
  have step: "consumer_step (w_amqp W) (w_json W) (m_rabbitmq (w_cfg W)) (now_ms, still, ready)
      (consumer_view handler_ms y) = Some c" using assms(2) by (simp add: consumer_step_def)
  have inv: "amqp_inv (w_amqp W) (MqConsumer.m_client (con_of (consumer_view handler_ms y)))"
    using assms(1) by (simp add: system_inv_def consumer_view_def)
  have "MqConsumer.m_handler (con_of (consumer_view handler_ms y)) \<in> {None, Some (mq_handler (w_json W))}"
    "handler_inv W es (sv_publisher (y_service y)) (rest_of (consumer_view handler_ms y))"
    using assms(1) handler_inv_now [OF assms(1)] by (simp_all add: consumer_view_def system_inv_def)
  from mq.iteration_keeps [OF assms(2) this] have hdl: "MqConsumer.m_handler con \<in> {None, Some (mq_handler (w_json W))}"
    and keeps: "service_wf (w_cfg W) s" "conns_logged_in W es s" "sv_publisher s = sv_publisher (y_service y)"
    by (simp_all add: c handler_inv_def)
  have "amqp_inv (w_amqp W) (MqConsumer.m_client con)" "consumer_cache (b, con, met, (clk, s), late)"
    using consumer_step_inv [OF inv step] consumer_step_cache [OF cache step] by (simp_all add: c)
  with keeps hdl have "system_inv W es (set_consumer c y)"
    unfolding c by (intro set_consumer_inv [OF assms(1)]) simp_all
  then show ?thesis by (rule system_inv_mono)
qed

lemma late_handler_inv:
  assumes "system_inv W es y" "MqConsumer.m_handler (y_consumer y) = Some h"
    and "run_handler h env (sv_metrics (y_service y), now_ms, y_service y) = (r, met, now', s)"
  shows "system_inv W (e # es) (y\<lparr>y_service := s\<lparr>sv_metrics := met\<rparr>, y_late := late\<rparr>)"
proof -
  have "h = mq_handler (w_json W)" using assms(1,2) by (simp add: system_inv_def)
  from mq.late_keeps [OF handler_inv_now [OF assms(1)] assms(3) [unfolded this]]
  have keeps: "service_wf (w_cfg W) s" "conns_logged_in W es s" "sv_publisher s = sv_publisher (y_service y)"
    by (simp_all add: handler_inv_def)
  have "system_inv W (e # es) (y\<lparr>y_service := s\<lparr>sv_metrics := met\<rparr>\<rparr>)"
    using keeps by (intro system_inv_service [OF assms(1)] conns_logged_in_mono [OF keeps(2)])
      (simp_all add: service_wf_metrics same_place_refl)
  then show ?thesis by (simp add: system_inv_def consumer_cache_def consumer_view_def)
qed

lemma step_keeps:
  assumes "json_laws (w_json W)" "memcmp_law (w_crypto W)" "1 \<le> max_devices (w_cfg W)"
    and inv: "system_inv W es y" and "step W e y y'"
  shows "system_inv W (e # es) y'"
proof -
  have wf: "service_wf (w_cfg W) (y_service y)" and log: "conns_logged_in W es (y_service y)"
    using inv by (simp_all add: system_inv_def)
  from assms(5) show ?thesis
  proof (cases rule: step.cases)
    case (connect now_s now_ms iso_ms iom header w rc header' s)
    from system_inv_service [OF inv onConnect_wf [OF assms(2) wf assms(3) connect(3)]
        connect_logged_in [OF assms(2) log connect(3)] onConnect_client [OF connect(3)]]
    show ?thesis by (simp add: connect(1,2))
  next
    case (closed header w rc s)
    from service_event_inv [OF inv onClose_wf [OF wf closed(3)] _ _ onClose_client [OF closed(3)]]
    show ?thesis by (simp add: closed(1,2) onClose_state(2,3) [OF closed(3)] same_place_refl)
  next
    case (frame_in iso_ms now_ms log_info header is_text msg w rc s)
    from handle_effect [OF assms(1) frame_in(3)] have "same_place (sv_heap (y_service y) c) (sv_heap s c)" for c
      by blast
    from service_event_inv [OF inv handle_wf [OF assms(1) wf frame_in(3)] handle_next [OF frame_in(3)] this
        handle_client [OF frame_in(3)]]
    show ?thesis by (simp add: frame_in(1,2))
  next
    case (timer now_ms)
    from service_event_inv [OF inv on_timer_wf [OF wf]] show ?thesis
      by (simp add: timer on_timer_state same_place_refl)
  next
    case (run_scheduled k iom t)
    from service_event_inv [OF inv run_task_wf [OF wf, of "w_http W" "w_json W" t k]]
      run_task_state [of "(y_service y)\<lparr>sv_tasks := without k (sv_tasks (y_service y))\<rparr>" "w_http W" "w_json W" t]
    show ?thesis by (simp add: run_scheduled(1,2) keeps_conns_def same_place_refl)
  next
    case publisher_turn
    from publisher_turn_inv [OF inv] show ?thesis by (simp add: publisher_turn)
  next
    case consumer_turn
    from consumer_turn_inv [OF inv consumer_turn(3)] show ?thesis by (simp add: consumer_turn(2))
  next
    case late_handler
    from late_handler_inv [OF inv late_handler(4,5)] show ?thesis by (simp add: late_handler(2))
  next
    case (start_mq iom ok)
    with startMq_inv [OF inv, of iom] have "system_inv W es y'" by (metis snd_conv)
    then show ?thesis by (rule system_inv_mono)
  next
    case stop_mq
    from system_inv_mono [OF stopMq_inv [OF inv]] show ?thesis by (simp add: stop_mq)
  qed
qed

section \<open>Reachable states\<close>

lemma system_start_inv: "system_inv W [] (system_start h)"
proof -
  have "consumer_start (consumer_view 0 (system_start h))"
    by (simp add: consumer_start_def consumer_view_def system_start_def new_MqConsumer_def)
  then have cache: "consumer_cache (consumer_view 0 (system_start h))" by (rule consumer_start_cache)
  have parts: "y_service (system_start h) = service_start h" "y_consumer (system_start h) = new_MqConsumer"
    "MqConsumer.m_handler new_MqConsumer = None" "MqConsumer.m_client new_MqConsumer = new_AmqpClient"
    "Publisher.m_client (sv_publisher (service_start h)) = new_AmqpClient" "sv_next (service_start h) = 0"
    by (simp_all add: system_start_def service_start_def new_MqConsumer_def new_MqPublisher_def)
  show ?thesis
    unfolding system_inv_def parts conns_logged_in_def
    by (simp add: cache service_start_wf new_AmqpClient_inv)
qed

definition world_ok :: "('h, 'j) world \<Rightarrow> bool" where
  "world_ok W \<longleftrightarrow> json_laws (w_json W) \<and> memcmp_law (w_crypto W) \<and> config_valid (w_cfg W) \<and>
     chat_max_devices_per_user (m_chat (w_cfg W)) < 2 ^ 31"

lemma valid_max_devices:
  assumes "config_valid cfg" "chat_max_devices_per_user (m_chat cfg) < 2 ^ 31"
  shows "int (max_devices cfg) = chat_max_devices_per_user (m_chat cfg)" "1 \<le> max_devices cfg"
proof -
  let ?d = "chat_max_devices_per_user (m_chat cfg)"
  have d: "1 \<le> ?d" using assms(1) by (simp add: config_valid_def)
  have "uint (word_of_int ?d :: 64 word) = ?d"
    using d assms(2) by (simp add: uint_word_of_int)
  then show "int (max_devices cfg) = ?d" by (simp add: max_devices_def)
  with d show "1 \<le> max_devices cfg" by linarith
qed

lemma reaches_inv:
  assumes "reaches W es y" "world_ok W"
  shows "system_inv W es y"
  using assms(1)
proof (induction rule: reaches.induct)
  case (start h)
  show ?case by (rule system_start_inv)
next
  case (step es y e y')
  from assms(2) valid_max_devices [of "w_cfg W"] show ?case
    by (intro step_keeps [OF _ _ _ step.IH step.hyps(2)]) (simp_all add: world_ok_def)
qed

text \<open>What the invariant says about the limits, for any way of reaching the state.\<close>

lemma system_inv_limits:
  assumes "world_ok W" "system_inv W es y"
  shows "int (UserConnectionCount uid (sv_registry (y_service y))) \<le> chat_max_devices_per_user (m_chat (w_cfg W)) \<and>
    (Get uid did (sv_registry (y_service y)) = Some c \<longrightarrow>
       oc_user_id (sv_heap (y_service y) c) = uid \<and> oc_device_id (sv_heap (y_service y) c) = did \<and> uid \<noteq> 0) \<and>
    distinct (keys (sv_pending (y_service y))) \<and>
    length (Publisher.m_queue (sv_publisher (y_service y))) \<le> queue_capacity (m_rabbitmq (w_cfg W)) \<and>
    amqp_inv (w_amqp W) (Publisher.m_client (sv_publisher (y_service y))) \<and>
    amqp_inv (w_amqp W) (MqConsumer.m_client (y_consumer y))"
proof -
  from assms(2) have inv: "service_wf (w_cfg W) (y_service y)"
    "amqp_inv (w_amqp W) (Publisher.m_client (sv_publisher (y_service y)))"
    "amqp_inv (w_amqp W) (MqConsumer.m_client (y_consumer y))" by (simp_all add: system_inv_def)
  have wf: "registry_wf (sv_heap (y_service y)) (max_devices (w_cfg W)) (sv_registry (y_service y))"
    using inv(1) by (simp add: service_wf_def)
  have "int (max_devices (w_cfg W)) = chat_max_devices_per_user (m_chat (w_cfg W))"
    using assms(1) by (intro valid_max_devices(1)) (simp_all add: world_ok_def)
  moreover have "UserConnectionCount uid (sv_registry (y_service y)) \<le> max_devices (w_cfg W)"
    using devices_facts(2) [OF wf] by (simp add: UserConnectionCount_devices)
  moreover have "oc_user_id (sv_heap (y_service y) c) = uid \<and> oc_device_id (sv_heap (y_service y) c) = did \<and> uid \<noteq> 0"
    if "Get uid did (sv_registry (y_service y)) = Some c"
    using that devices_facts(3) [OF wf, of did c uid] devices_Get [OF wf, of did c uid] inv(1)
    by (simp add: service_wf_def)
  ultimately show ?thesis using inv by (simp add: service_wf_def pending_wf_def)
qed

text \<open>
  Whatever happens, in any order - connections, frames, closures, ticks, turns of the broker threads,
  starts and stops - and whatever the broker and the clients send: no user has more connections than
  the configured limit, every connection is filed under its own user and device, a client's message id
  is pending at most once, the publisher's queue is within its capacity, and both threads use their
  connection to the broker by the rules of the C library.
\<close>

theorem reachable_invariant:
  assumes "world_ok W" "reaches W es y"
  shows "int (UserConnectionCount uid (sv_registry (y_service y))) \<le> chat_max_devices_per_user (m_chat (w_cfg W)) \<and>
    (Get uid did (sv_registry (y_service y)) = Some c \<longrightarrow>
       oc_user_id (sv_heap (y_service y) c) = uid \<and> oc_device_id (sv_heap (y_service y) c) = did \<and> uid \<noteq> 0) \<and>
    distinct (keys (sv_pending (y_service y))) \<and>
    length (Publisher.m_queue (sv_publisher (y_service y))) \<le> queue_capacity (m_rabbitmq (w_cfg W)) \<and>
    amqp_inv (w_amqp W) (Publisher.m_client (sv_publisher (y_service y))) \<and>
    amqp_inv (w_amqp W) (MqConsumer.m_client (y_consumer y))"
  by (rule system_inv_limits [OF assms(1) reaches_inv [OF assms(2,1)]])

lemma system_inv_authenticated:
  assumes "system_inv W es y"
    and "Get uid did (sv_registry (y_service y)) = Some c \<and> u = uid \<or>
      (iom, PushTask c type data hs sq) \<in> set (sv_tasks (y_service y)) \<and> u = oc_user_id (sv_heap (y_service y) c)"
  shows "\<exists>now_s now_ms iso_ms iom header w claims. Connected now_s now_ms iso_ms iom header w \<in> set es \<and>
    oc_session (sv_heap (y_service y) c) = Some w \<and> jc_user_id claims = u \<and>
    token_accepted (w_json W) (w_crypto W) (m_jwt (w_cfg W)) now_s (ExtractToken (w_http W) header) claims"
proof -
  from assms(1) have wf: "service_wf (w_cfg W) (y_service y)"
    and log: "conns_logged_in W es (y_service y)" by (simp_all add: system_inv_def)
  have reg: "registry_wf (sv_heap (y_service y)) (max_devices (w_cfg W)) (sv_registry (y_service y))"
    using wf by (simp add: service_wf_def)
  from assms(2) have "c < sv_next (y_service y) \<and> oc_user_id (sv_heap (y_service y) c) = u"
  proof (elim disjE conjE)
    assume "Get uid did (sv_registry (y_service y)) = Some c" "u = uid"
    with wf devices_facts(3) [OF reg, of did c uid] devices_Get [OF reg, of did c uid] show ?thesis
      by (simp add: service_wf_def)
  next
    assume "(iom, PushTask c type data hs sq) \<in> set (sv_tasks (y_service y))" "u = oc_user_id (sv_heap (y_service y) c)"
    with wf show ?thesis by (fastforce simp: service_wf_def task_conn_def)
  qed
  with log have "logged_in W es (sv_heap (y_service y) c)" "oc_user_id (sv_heap (y_service y) c) = u"
    by (simp_all add: conns_logged_in_def)
  then show ?thesis unfolding logged_in_def by metis
qed

text \<open>
  In every reachable state, every registered connection and every connection that a scheduled closure
  will push to stems from an accepted login: some earlier request on exactly its session carried a
  token, signed with the service's key and valid at that time, for exactly its user.
\<close>

theorem only_authenticated_served:
  assumes "world_ok W" "reaches W es y"
    and "Get uid did (sv_registry (y_service y)) = Some c \<and> u = uid \<or>
      (iom, PushTask c type data hs sq) \<in> set (sv_tasks (y_service y)) \<and> u = oc_user_id (sv_heap (y_service y) c)"
  shows "\<exists>now_s now_ms iso_ms iom header w claims. Connected now_s now_ms iso_ms iom header w \<in> set es \<and>
    oc_session (sv_heap (y_service y) c) = Some w \<and> jc_user_id claims = u \<and>
    token_accepted (w_json W) (w_crypto W) (m_jwt (w_cfg W)) now_s (ExtractToken (w_http W) header) claims"
  by (rule system_inv_authenticated [OF reaches_inv [OF assms(2,1)] assms(3)])

section \<open>Delivery\<close>

text \<open>What running a closure does to the sessions.\<close>

fun task_effects :: "'h http_lib \<Rightarrow> 'j json_lib \<Rightarrow> heap \<Rightarrow> 'j task \<Rightarrow> effect list" where
  "task_effects H J h (PushTask c type data hs sq) =
     (case oc_session (h c) of None \<Rightarrow> [] | Some w \<Rightarrow> [SendMessage w (frame_text J type data hs sq)])"
| "task_effects H J h (KickTask c data) =
     (case oc_session (h c) of None \<Rightarrow> [] | Some w \<Rightarrow> [SendMessage w (frame_text J ''kicked'' data False 0)])"
| "task_effects H J h (CloseTask c) =
     (case oc_session (h c) of None \<Rightarrow> [] | Some w \<Rightarrow> (if has_socket H w then [CancelAll w] else []) @ [CloseSession w])"

lemma run_task_effects: "sv_effects (run_task H J t s) = sv_effects s @ task_effects H J (sv_heap s) t"
  by (cases t)
    (simp_all add: send_push_def send_frame_perform count_metric_simps close_session_def perform_simps
      split: option.split)

text \<open>Running the closures in the order in which they were scheduled.\<close>

definition drain :: "'h http_lib \<Rightarrow> 'j json_lib \<Rightarrow> 'j service \<Rightarrow> 'j service" where
  "drain H J s = fold (\<lambda>(iom, t). run_task H J t) (sv_tasks s) (s\<lparr>sv_tasks := []\<rparr>)"

lemma run_tasks_effects:
  "sv_effects (fold (\<lambda>(iom, t). run_task H J t) ts s) =
     sv_effects s @ concat (map (\<lambda>(iom, t). task_effects H J (sv_heap s) t) ts)"
proof (induction ts arbitrary: s)
  case Nil
  show ?case by simp
next
  case (Cons p ts)
  obtain iom t where p: "p = (iom, t)" by (cases p)
  have "sv_heap (run_task H J t s) = sv_heap s" using run_task_state [of s H J t] by (simp add: keeps_conns_def)
  with Cons show ?case by (simp add: p run_task_effects)
qed

lemma run_task_tasks: "run_task H J t (s\<lparr>sv_tasks := ts\<rparr>) = (run_task H J t s)\<lparr>sv_tasks := ts\<rparr>"
  by (cases t)
    (simp_all add: send_push_def send_frame_perform count_metric_def close_session_def perform_def split: option.split)

text \<open>
  \<open>drain\<close> is a history of the process: as many runs of a closure as there are closures, none of which schedules
  another.
\<close>

lemma drain_reached:
  assumes "reaches W es y"
  shows "reaches W (replicate (length (sv_tasks (y_service y))) (RunTask 0) @ es)
    (y\<lparr>y_service := drain (w_http W) (w_json W) (y_service y)\<rparr>)"
  using assms
proof (induction "sv_tasks (y_service y)" arbitrary: es y)
  case Nil
  from Nil(1) [symmetric] have "drain (w_http W) (w_json W) (y_service y) = y_service y" by (simp add: drain_def)
  with Nil show ?case by simp
next
  case (Cons p ts)
  obtain iom t where p: "p = (iom, t)" by (cases p)
  note ts = Cons.hyps(2) [symmetric, unfolded p]
  let ?s = "run_task (w_http W) (w_json W) t ((y_service y)\<lparr>sv_tasks := ts\<rparr>)"
  have "step W (RunTask 0) y (y\<lparr>y_service := ?s\<rparr>)"
    using step.run_scheduled [of 0 y iom t W] by (simp add: ts without_def)
  note reach = reaches.step [OF Cons.prems this]
  have "sv_tasks ?s = ts" by (simp add: run_task_tasks)
  moreover have "drain (w_http W) (w_json W) ?s = drain (w_http W) (w_json W) (y_service y)"
    by (simp add: drain_def ts run_task_tasks)
  ultimately show ?case using Cons.hyps(1) [OF _ reach] by (simp add: ts replicate_app_Cons_same)
qed

lemma drain_effects:
  "sv_effects (drain H J s) = sv_effects s @ concat (map (\<lambda>(iom, t). task_effects H J (sv_heap s) t) (sv_tasks s))"
  by (simp add: drain_def run_tasks_effects)

text \<open>A delivered push reaches its session, at once or when its closure runs.\<close>

lemma deliver_reaches:
  assumes "(c, type, data, hs, sq) \<in> set ps" "oc_session (sv_heap s c) = Some w"
  shows "SendMessage w (frame_text J type data hs sq) \<in> set (sv_effects (drain H J (deliver J ps s)))"
proof (cases "oc_io_manager (sv_heap s c)")
  case None
  with assms have "SendMessage w (frame_text J type data hs sq) \<in> set (push_effect J (sv_heap s) (c, type, data, hs, sq))"
    by simp
  with assms(1) show ?thesis by (auto simp: drain_effects deliver_frame intro!: bexI [of _ "(c, type, data, hs, sq)"])
next
  case (Some iom)
  with assms have "(iom, PushTask c type data hs sq) \<in> set (push_task (sv_heap s) (c, type, data, hs, sq))" by simp
  with assms(1) have "(iom, PushTask c type data hs sq) \<in> set (sv_tasks (deliver J ps s))"
    by (auto simp: deliver_frame intro!: bexI [of _ "(c, type, data, hs, sq)"])
  moreover have "SendMessage w (frame_text J type data hs sq) \<in>
      set (task_effects H J (sv_heap s) (PushTask c type data hs sq))" using assms(2) by simp
  ultimately show ?thesis by (auto simp: drain_effects deliver_frame intro!: bexI [of _ "(iom, PushTask c type data hs sq)"])
qed

text \<open>
  A stored message whose send is pending reaches the sender's connections: the device that sent gets the answer
  200 with the client's own sequence number and the stored message's id, the others get the message.
\<close>

lemma sender_reached:
  assumes "read_ids J (payload env) = Some (cid, mid, sender)" "env_type env = ''chat.msg.send''"
    and "OnEnvelope J now env s = (r, s1)" "map_of (sv_pending s) cid = Some pend"
    and "Get sender did (sv_registry s) = Some c" "oc_session (sv_heap s c) = Some w"
    and "registry_wf (sv_heap s) mx (sv_registry s)" "json_laws J" "- (2 ^ 63) \<le> mid" "mid < 2 ^ 63"
  shows "if did = ps_sender_device_id pend
    then \<exists>resp. get_string J resp ''clientMsgId'' = Some cid \<and> get_int J resp ''code'' = Some 200 \<and>
           get_int64 J resp ''messageId'' = Some mid \<and>
           SendMessage w (frame_text J ''msg.send.resp'' resp (ps_has_seq pend) (ps_seq pend)) \<in>
             set (sv_effects (drain H J s1))
    else SendMessage w (frame_text J ''msg.new'' (payload env) False 0) \<in> set (sv_effects (drain H J s1))"
proof -
  let ?ps = "answer_pushes J s cid mid sender (payload env)"
  have "\<exists>qs. s1 = deliver J (?ps @ qs) (taken cid now s)"
    using assms(1-3)
    by (auto simp: OnEnvelope_def OnChatMsgSend_pushes Let_def split: option.splits intro: exI [of _ "[]"])
  then obtain qs where s1: "s1 = deliver J (?ps @ qs) (taken cid now s)" ..
  have conn: "c \<in> set (GetByUser sender (sv_registry s))" "oc_device_id (sv_heap s c) = did"
    using devices_Get [OF assms(7), of did c sender] devices_facts(3) [OF assms(7), of did c sender] assms(5)
    by (force simp: GetByUser_devices)+
  have push: "sender_push J (sv_heap s) cid mid pend (payload env) c \<in> set (?ps @ qs)"
    using assms(4) conn(1) by (simp add: answer_pushes_def)
  have reach: "SendMessage w (frame_text J type data hs sq) \<in> set (sv_effects (drain H J s1))"
    if "(c, type, data, hs, sq) \<in> set (?ps @ qs)" for type data hs sq
    unfolding s1 using that assms(6) by (intro deliver_reaches) (simp_all add: taken_frame)
  show ?thesis
  proof (cases "did = ps_sender_device_id pend")
    case True
    let ?resp = "j_set J (j_set J (j_set J (j_null J) ''clientMsgId'' (j_string J cid)) ''code'' (j_int J 200))
      ''messageId'' (j_int J mid)"
    have "get_string J ?resp ''clientMsgId'' = Some cid" "get_int J ?resp ''code'' = Some 200"
      "get_int64 J ?resp ''messageId'' = Some mid"
      using assms(9,10) by (simp_all add: get_string_def get_int_def get_int64_def json_set [OF assms(8)]
          json_null [OF assms(8)] json_conv [OF assms(8)])
    moreover have "SendMessage w (frame_text J ''msg.send.resp'' ?resp (ps_has_seq pend) (ps_seq pend)) \<in>
        set (sv_effects (drain H J s1))"
      using push True by (intro reach) (simp only: sender_push_def conn(2) if_True simp_thms)
    ultimately show ?thesis using True by auto
  next
    case False
    with push show ?thesis by (simp only: if_False) (intro reach, simp only: sender_push_def conn(2) if_False simp_thms)
  qed
qed

text \<open>
  C1. A message that the backend has stored reaches everyone: once the scheduled closures have run, every
  registered connection of every receiver has been sent the message, and if the send was pending, the
  sender's device has been sent the answer 200 with the client's own sequence number and the stored
  message's id, and the sender's other connections the message.
\<close>

theorem message_delivered:
  assumes "read_ids J (payload env) = Some (cid, mid, sender)" "env_type env = ''chat.msg.send''"
    and "array_member J (payload env) ''receivers'' = Some (Some a)"
    and "read_all (j_as_uint64 J) (j_elems J a) = Some ids"
    and "OnEnvelope J now env s = (r, s1)" "s2 = drain H J s1"
    and "Get uid did (sv_registry s) = Some c" "oc_session (sv_heap s c) = Some w"
    and "registry_wf (sv_heap s) mx (sv_registry s)" "json_laws J" "- (2 ^ 63) \<le> mid" "mid < 2 ^ 63"
  shows "(uid \<in> set ids \<longrightarrow> uid \<noteq> 0 \<longrightarrow> uid \<noteq> sender \<longrightarrow>
      SendMessage w (frame_text J ''msg.new'' (payload env) False 0) \<in> set (sv_effects s2)) \<and>
    (\<forall>pend. map_of (sv_pending s) cid = Some pend \<longrightarrow> uid = sender \<longrightarrow>
      (if did = ps_sender_device_id pend
       then \<exists>resp. get_string J resp ''clientMsgId'' = Some cid \<and> get_int J resp ''code'' = Some 200 \<and>
              get_int64 J resp ''messageId'' = Some mid \<and>
              SendMessage w (frame_text J ''msg.send.resp'' resp (ps_has_seq pend) (ps_seq pend)) \<in> set (sv_effects s2)
       else SendMessage w (frame_text J ''msg.new'' (payload env) False 0) \<in> set (sv_effects s2)))"
proof -
  let ?p = "payload env" and ?users = "firsts {0, sender} ids"
  let ?ps = "answer_pushes J s cid mid sender ?p @ push_each (sv_registry s) ''msg.new'' ?p ?users"
  have "readable (j_as_uint64 J) (j_elems J a) = ids" by (rule readable_all [OF assms(4)])
  with assms(1-5) have s1: "s1 = deliver J ?ps (taken cid now s)"
    by (simp add: OnEnvelope_def OnChatMsgSend_pushes)
  have conn: "c \<in> set (GetByUser uid (sv_registry s))"
    using devices_Get [OF assms(9), of did c uid] assms(7) by (force simp: GetByUser_devices)
  have "SendMessage w (frame_text J ''msg.new'' ?p False 0) \<in> set (sv_effects s2)"
    if "uid \<in> set ids" "uid \<noteq> 0" "uid \<noteq> sender"
  proof -
    have "uid \<in> set ?users" using that by (simp add: firsts_set)
    then have "(c, ''msg.new'', ?p, False, 0) \<in> set ?ps" using conn by (auto simp: user_pushes_def)
    then show ?thesis
      unfolding assms(6) s1 using assms(8) by (intro deliver_reaches) (simp_all add: taken_frame)
  qed
  moreover note sender_reached [OF assms(1,2,5) _ _ assms(8-12), of _ did H, folded assms(6)]
  ultimately show ?thesis using assms(7) by blast
qed

section \<open>Examples\<close>

definition demo_world :: "((string \<times> string) list, json) world" where
  "demo_world = \<lparr>w_http = demo_http, w_json = demo_json, w_crypto = demo_crypto, w_amqp = accepting no_message,
     w_cfg = demo_conf\<rparr>"

lemma demo_world_ok: "world_ok demo_world"
  by (simp add: world_ok_def demo_world_def demo_memcmp demo_json_def ref_json_laws)
    (simp add: config_valid_def demo_conf_def read_config_def default_vars_def demo_jwt_def)

text \<open>A history in which user 7 logs in on session 10.\<close>

lemma demo_history:
  obtains y1 c uid did where
    "reaches demo_world [Connected 150 1000 0 (Some 1) demo_request 10] y1"
    "Get uid did (sv_registry (y_service y1)) = Some c"
proof -
  let ?y0 = "system_start (\<lambda>_. new_OnlineConn 0 '''' None None 0 0) :: json system"
  have y0: "y_service ?y0 = demo_service" by (simp add: system_start_def demo_service_def)
  obtain h1 s1 where C: "onConnect demo_http demo_json demo_crypto demo_conf 150 1000 0 (Some 1) demo_request 10
    demo_service = (Some 0, h1, s1)" by (rule demo_connects)
  then have "step demo_world (Connected 150 1000 0 (Some 1) demo_request 10) ?y0 (?y0\<lparr>y_service := s1\<rparr>)"
    by (intro step.connect) (simp add: demo_world_def y0)
  from reaches.step [OF reaches.start this]
  have r: "reaches demo_world [Connected 150 1000 0 (Some 1) demo_request 10] (?y0\<lparr>y_service := s1\<rparr>)" .
  have login: "\<forall>u d c. Get u d (sv_registry demo_service) = Some c \<longrightarrow> oc_login_at (sv_heap demo_service c) < 1000"
    by (simp add: demo_service_def service_start_def Get_def empty_registry_def)
  have mx: "1 \<le> max_devices demo_conf" by (simp add: demo_conf_limits)
  from onConnect_result [OF demo_memcmp demo_http_laws demo_service_wf mx C login]
  obtain uid did c where "Get uid did (sv_registry s1) = Some c" by blast
  with that [OF r] show ?thesis by simp
qed

theorem reachable_invariant_witness:
  "\<exists>y1. reaches demo_world [Connected 150 1000 0 (Some 1) demo_request 10] y1 \<and>
     (\<forall>uid. UserConnectionCount uid (sv_registry (y_service y1)) \<le> 5)"
proof -
  obtain y1 c uid did where r: "reaches demo_world [Connected 150 1000 0 (Some 1) demo_request 10] y1"
    "Get uid did (sv_registry (y_service y1)) = Some c" by (rule demo_history)
  have "chat_max_devices_per_user (m_chat (w_cfg demo_world)) = 5"
    by (simp add: demo_world_def demo_conf_def read_config_def default_vars_def)
  with reachable_invariant [OF demo_world_ok r(1)] have "int (UserConnectionCount uid (sv_registry (y_service y1))) \<le> 5" for uid
    by metis
  with r(1) show ?thesis by force
qed

theorem only_authenticated_served_witness:
  "\<exists>claims. token_accepted demo_json demo_crypto demo_jwt 150 ''SA.UA.YWIB'' claims"
proof -
  obtain y1 c uid did where r: "reaches demo_world [Connected 150 1000 0 (Some 1) demo_request 10] y1"
    "Get uid did (sv_registry (y_service y1)) = Some c" by (rule demo_history)
  from only_authenticated_served [OF demo_world_ok r(1), of uid did c uid] r(2)
  show ?thesis by (auto simp: demo_world_def demo_token demo_conf_limits)
qed

theorem message_delivered_witness:
  "SendMessage 12 (frame_text (ref_json []) ''msg.new'' (payload (demo_stored (JArr [JInt 9, JInt 7, JInt 9]))) False 0)
     \<in> set (sv_effects (drain demo_http (ref_json [])
         (snd (OnEnvelope (ref_json []) 5 (demo_stored (JArr [JInt 9, JInt 7, JInt 9])) demo_online))))"
proof -
  let ?e = "demo_stored (JArr [JInt 9, JInt 7, JInt 9])"
  obtain r s' where O: "OnEnvelope (ref_json []) 5 ?e demo_online = (r, s')" by (rule prod.exhaust)
  have am: "array_member (ref_json []) (payload ?e) ''receivers'' = Some (Some (JArr [JInt 9, JInt 7, JInt 9]))"
    by (simp add: demo_reads)
  have ty: "env_type ?e = ''chat.msg.send''" by (simp add: demo_stored_def)
  have g: "Get 9 ''c'' (sv_registry demo_online) = Some 2" by (simp add: Get_def demo_online_def)
  have w: "oc_session (sv_heap demo_online 2) = Some 12" by (simp add: demo_defs)
  show ?thesis
    using message_delivered [OF demo_reads(1) ty am demo_reads(3) O refl g w demo_online_wf ref_json_laws] O by simp
qed

end
