(* ===== verification/Sections.thy ===== *)
theory Sections
  imports System
begin

text \<open>
  The callbacks of \<open>chat_servlet.cc\<close> as the IO threads run them: \<open>onConnect\<close>, \<open>onClose\<close> and \<open>handle\<close> (with
  \<open>HandleMsgSend\<close>) are cut at their accesses to the shared singletons, each of which holds a mutex for one
  call only. A \<open>cont\<close> is what a thread has left to do; \<open>enter\<close> is the first section of a callback and
  \<open>section_step\<close> the next one. A callback that nothing interrupts is the handler of \<open>Chat_Servlet\<close>. The headers
  that \<open>onConnect\<close> sets belong to the request alone and are left out here. \<open>ConsumeToken\<close> is one section;
  \<open>Token_Race\<close> cuts it further.
\<close>

section \<open>The sections\<close>

datatype ('h, 'j) cont =
    Idle
  | ConnectAdd "'j JwtClaims" string bool int int "nat option" sid
      \<comment> \<open>claims, device, \<open>first_device\<close>, clock, time stamp, IO manager, session\<close>
  | ConnectTell "ptr option" "ptr list" "'j JwtClaims" string bool int sid
      \<comment> \<open>the replaced and the evicted connections, then as before\<close>
  | ConnectAnnounce u64
  | CloseCheck u64
  | CloseAnnounce u64
  | FrameToken ptr u64 string int int bool string sid
      \<comment> \<open>the connection, user, device, time stamp, clock, logger, text, session\<close>
  | FrameTouch u64 string int int bool string sid
  | SendPut int int u64 string "sid option" bool int 'j
  | SendPublish string 'j "sid option" bool int
  | SendForget string "sid option" bool int
  | AckPublish int u64 "sid option" bool int 'j

datatype 'h callback =
    Connecting int int int "nat option" 'h sid
  | Closing 'h sid
  | Receiving int int bool 'h bool string sid

text \<open>\<open>onConnect\<close> up to \<open>IsUserOnline\<close>, then \<open>Add\<close>, then the frames, then the announcement.\<close>

definition connect_read ::
  "('h, 'j) world \<Rightarrow> int \<Rightarrow> int \<Rightarrow> int \<Rightarrow> nat option \<Rightarrow> 'h \<Rightarrow> sid \<Rightarrow> 'j service \<Rightarrow> ('h, 'j) cont \<times> 'j service"
where
  "connect_read W now_s now_ms iso_ms iom header session s =
     (let token = ExtractToken (w_http W) header in
      case (if token = [] then Some (Inl '''')
            else Verify (w_json W) (w_crypto W) (m_jwt (w_cfg W)) now_s token) of
        None \<Rightarrow> (Idle, s)
      | Some (Inl err) \<Rightarrow> (Idle, auth_fail (w_json W) err session s)
      | Some (Inr claims) \<Rightarrow>
          (case (if jc_device_id claims = [] then AllocFallbackDeviceId (jc_user_id claims) s
                 else (jc_device_id claims, s)) of
             (device_id, s) \<Rightarrow>
               (ConnectAdd claims device_id (\<not> IsUserOnline (jc_user_id claims) (sv_registry s))
                  now_ms iso_ms iom session, s)))"

definition connect_add ::
  "('h, 'j) world \<Rightarrow> 'j JwtClaims \<Rightarrow> string \<Rightarrow> bool \<Rightarrow> int \<Rightarrow> int \<Rightarrow> nat option \<Rightarrow> sid \<Rightarrow> 'j service
     \<Rightarrow> ('h, 'j) cont \<times> 'j service" where
  "connect_add W claims device_id first now_ms iso_ms iom session s =
     (let conn = sv_next s;
          s = s\<lparr>sv_heap := (sv_heap s)(conn := new_OnlineConn (jc_user_id claims) device_id (Some session) iom
                  now_ms (chat_frame_rate_limit_per_second (m_chat (w_cfg W)))),
                sv_next := conn + 1\<rparr>
      in case Add (sv_heap s) (Some conn) (max_devices (w_cfg W)) (sv_registry s) of (replaced, evicted, reg) \<Rightarrow>
           (ConnectTell replaced evicted claims device_id first iso_ms session, s\<lparr>sv_registry := reg\<rparr>))"

definition connect_tell ::
  "('h, 'j) world \<Rightarrow> ptr option \<Rightarrow> ptr list \<Rightarrow> 'j JwtClaims \<Rightarrow> string \<Rightarrow> bool \<Rightarrow> int \<Rightarrow> sid \<Rightarrow> 'j service
     \<Rightarrow> ('h, 'j) cont \<times> 'j service" where
  "connect_tell W replaced evicted claims device_id first iso_ms session s =
     (let J = w_json W;
          s = (case replaced of
                 None \<Rightarrow> s
               | Some old \<Rightarrow> CloseSessionOnOwner old (SendKickedOnOwner J ''login_elsewhere'' old s));
          s = fold (\<lambda>e s. CloseSessionOnOwner e (SendKickedOnOwner J ''too_many_devices'' e s)) evicted s;
          auth_ok = j_set J (j_null J) ''userId'' (j_uint J (jc_user_id claims));
          auth_ok = j_set J auth_ok ''deviceId'' (j_string J device_id);
          auth_ok = j_set J auth_ok ''serverTime'' (j_string J (Iso8601Now iso_ms));
          s = send_frame J (Some session) ''auth_ok'' auth_ok False 0 s;
          s = count_metric (IncWsOut ''auth_ok'') s
      in (if first then ConnectAnnounce (jc_user_id claims) else Idle, s))"

definition announce_online :: "('h, 'j) world \<Rightarrow> u64 \<Rightarrow> 'j service \<Rightarrow> 'j service" where
  "announce_online W uid s = snd (on_publisher (PublishUserOnline (w_json W) (m_rabbitmq (w_cfg W)) uid) s)"

text \<open>\<open>onClose\<close>: \<open>Remove\<close>, \<open>IsUserOnline\<close>, the announcement.\<close>

definition close_remove :: "('h, 'j) world \<Rightarrow> 'h \<Rightarrow> 'j service \<Rightarrow> ('h, 'j) cont \<times> 'j service" where
  "close_remove W header s =
     (let uid = header_uid (w_http W) header;
          did = getHeader (w_http W) header ''$did''
      in if uid = 0 \<or> did = [] then (Idle, s)
         else (CloseCheck uid, s\<lparr>sv_registry := snd (Remove uid did (sv_registry s))\<rparr>))"

definition announce_offline :: "('h, 'j) world \<Rightarrow> u64 \<Rightarrow> 'j service \<Rightarrow> 'j service" where
  "announce_offline W uid s = snd (on_publisher (PublishUserOffline (w_json W) (m_rabbitmq (w_cfg W)) uid) s)"

text \<open>\<open>HandleMsgSend\<close>: the checks and the pending entry, the queue, and the withdrawal of the entry.\<close>

definition send_put ::
  "('h, 'j) world \<Rightarrow> int \<Rightarrow> int \<Rightarrow> u64 \<Rightarrow> string \<Rightarrow> sid option \<Rightarrow> bool \<Rightarrow> int \<Rightarrow> 'j \<Rightarrow> 'j service
     \<Rightarrow> ('h, 'j) cont \<times> 'j service" where
  "send_put W iso_ms now_ms uid did session has_seq seq data s =
     (case read_send (w_json W) data of
        None \<Rightarrow> (Idle, s)
      | Some (client_msg_id, conversation_id, content, sent_at, media_meta) \<Rightarrow>
          let sent_at = (if sent_at = [] then Iso8601Now iso_ms else sent_at)
          in if client_msg_id = [] \<or> conversation_id \<le> 0 \<or> content = []
             then (Idle, send_error (w_json W) session 400 ''bad msg.send'' has_seq seq s)
             else if i32 (int (length content)) > chat_max_text_content_bytes (m_chat (w_cfg W))
             then (Idle, send_error (w_json W) session 413 ''content too long'' has_seq seq s)
             else
               let pending = \<lparr>ps_sender_user_id = uid, ps_sender_device_id = did, ps_created_ms = now_ms,
                              ps_has_seq = has_seq, ps_seq = seq\<rparr>;
                   s = s\<lparr>sv_pending := AList.update client_msg_id pending (sv_pending s)\<rparr>
               in case add_media (w_json W) media_meta
                         (message_payload (w_json W) client_msg_id conversation_id uid content sent_at) of
                    None \<Rightarrow> (Idle, s)
                  | Some pl \<Rightarrow> (SendPublish client_msg_id pl session has_seq seq, s))"

definition send_queue ::
  "('h, 'j) world \<Rightarrow> string \<Rightarrow> 'j \<Rightarrow> sid option \<Rightarrow> bool \<Rightarrow> int \<Rightarrow> 'j service \<Rightarrow> ('h, 'j) cont \<times> 'j service" where
  "send_queue W client_msg_id pl session has_seq seq s =
     (case on_publisher (Publisher.Publish (m_rabbitmq (w_cfg W)) ''business.msg.persist'' pl 0) s of
        (ok, s) \<Rightarrow> (if ok then Idle else SendForget client_msg_id session has_seq seq, s))"

definition send_forget ::
  "('h, 'j) world \<Rightarrow> string \<Rightarrow> sid option \<Rightarrow> bool \<Rightarrow> int \<Rightarrow> 'j service \<Rightarrow> 'j service" where
  "send_forget W client_msg_id session has_seq seq s =
     send_error (w_json W) session 503 ''mq unavailable'' has_seq seq
       (s\<lparr>sv_pending := AList.delete client_msg_id (sv_pending s)\<rparr>)"

text \<open>
  \<open>handle\<close>: the checks and \<open>Get\<close>, the token, \<open>Touch\<close> with the parsing and what needs no further access to the
  registry, the pending map or the queue.
\<close>

definition frame_lookup ::
  "('h, 'j) world \<Rightarrow> int \<Rightarrow> int \<Rightarrow> bool \<Rightarrow> 'h \<Rightarrow> bool \<Rightarrow> string \<Rightarrow> sid \<Rightarrow> 'j service \<Rightarrow> ('h, 'j) cont \<times> 'j service" where
  "frame_lookup W iso_ms now_ms log_info header is_text msg session s =
     (if \<not> is_text then (Idle, send_error (w_json W) (Some session) 400 ''text frame required'' False 0 s)
      else
        let uid = header_uid (w_http W) header;
            did = getHeader (w_http W) header ''$did''
        in if uid = 0 \<or> did = [] then (Idle, send_error (w_json W) (Some session) 401 ''unauthorized'' False 0 s)
        else case Get uid did (sv_registry s) of
               None \<Rightarrow> (FrameTouch uid did iso_ms now_ms log_info msg session, s)
             | Some c \<Rightarrow> (FrameToken c uid did iso_ms now_ms log_info msg session, s))"

definition frame_token ::
  "('h, 'j) world \<Rightarrow> ptr \<Rightarrow> u64 \<Rightarrow> string \<Rightarrow> int \<Rightarrow> int \<Rightarrow> bool \<Rightarrow> string \<Rightarrow> sid \<Rightarrow> 'j service \<Rightarrow> ('h, 'j) cont \<times> 'j service"
where
  "frame_token W c uid did iso_ms now_ms log_info msg session s =
     (case ConsumeToken now_ms (chat_frame_rate_limit_per_second (m_chat (w_cfg W))) (sv_heap s c) of (ok, conn) \<Rightarrow>
        let s = s\<lparr>sv_heap := (sv_heap s)(c := conn)\<rparr>
        in if \<not> ok then (Idle, send_error (w_json W) (Some session) 429 ''too many frames'' False 0 s)
           else (FrameTouch uid did iso_ms now_ms log_info msg session, s))"

definition frame_touch ::
  "('h, 'j) world \<Rightarrow> u64 \<Rightarrow> string \<Rightarrow> int \<Rightarrow> int \<Rightarrow> bool \<Rightarrow> string \<Rightarrow> sid \<Rightarrow> 'j service \<Rightarrow> ('h, 'j) cont \<times> 'j service" where
  "frame_touch W uid did iso_ms now_ms log_info msg session s =
     (let s = s\<lparr>sv_heap := Touch uid did now_ms (sv_registry s) (sv_heap s)\<rparr>
      in case ParseClientFrame (w_json W) msg of
           None \<Rightarrow> (Idle, s)
         | Some (Inl err) \<Rightarrow> (Idle, send_error (w_json W) (Some session) 400 err False 0 s)
         | Some (Inr frame) \<Rightarrow>
             if cf_type frame = ''msg.send'' then
               (SendPut iso_ms now_ms uid did (Some session) (cf_has_seq frame) (cf_seq frame) (cf_data frame),
                count_metric (IncWsIn (cf_type frame)) s)
             else if cf_type frame = ''msg.ack'' then
               (AckPublish iso_ms uid (Some session) (cf_has_seq frame) (cf_seq frame) (cf_data frame),
                count_metric (IncWsIn (cf_type frame)) s)
             else (Idle, snd (dispatch_frame (w_json W) (w_cfg W) iso_ms now_ms log_info uid did session frame s)))"

fun enter :: "('h, 'j) world \<Rightarrow> 'h callback \<Rightarrow> 'j service \<Rightarrow> ('h, 'j) cont \<times> 'j service" where
  "enter W (Connecting now_s now_ms iso_ms iom header w) s = connect_read W now_s now_ms iso_ms iom header w s"
| "enter W (Closing header w) s = close_remove W header s"
| "enter W (Receiving iso_ms now_ms log_info header is_text msg w) s =
     frame_lookup W iso_ms now_ms log_info header is_text msg w s"

fun section_step :: "('h, 'j) world \<Rightarrow> ('h, 'j) cont \<Rightarrow> 'j service \<Rightarrow> ('h, 'j) cont \<times> 'j service" where
  "section_step W Idle s = (Idle, s)"
| "section_step W (ConnectAdd claims did first now_ms iso_ms iom w) s =
     connect_add W claims did first now_ms iso_ms iom w s"
| "section_step W (ConnectTell replaced evicted claims did first iso_ms w) s =
     connect_tell W replaced evicted claims did first iso_ms w s"
| "section_step W (ConnectAnnounce uid) s = (Idle, announce_online W uid s)"
| "section_step W (CloseCheck uid) s = (if IsUserOnline uid (sv_registry s) then Idle else CloseAnnounce uid, s)"
| "section_step W (CloseAnnounce uid) s = (Idle, announce_offline W uid s)"
| "section_step W (FrameToken c uid did iso_ms now_ms log_info msg w) s =
     frame_token W c uid did iso_ms now_ms log_info msg w s"
| "section_step W (FrameTouch uid did iso_ms now_ms log_info msg w) s =
     frame_touch W uid did iso_ms now_ms log_info msg w s"
| "section_step W (SendPut iso_ms now_ms uid did session hs sq data) s =
     send_put W iso_ms now_ms uid did session hs sq data s"
| "section_step W (SendPublish cid pl session hs sq) s = send_queue W cid pl session hs sq s"
| "section_step W (SendForget cid session hs sq) s = (Idle, send_forget W cid session hs sq s)"
| "section_step W (AckPublish iso_ms uid session hs sq data) s =
     (Idle, snd (HandleMsgAck (w_json W) (w_cfg W) iso_ms uid session hs sq data s))"

text \<open>What an announcement puts into the queue.\<close>

definition presence_task :: "'j json_lib \<Rightarrow> bool \<Rightarrow> u64 \<Rightarrow> 'j Task" where
  "presence_task J online uid =
     \<lparr>t_routing_key = (if online then ''business.user.online'' else ''business.user.offline''),
      t_payload = j_set J (j_null J) ''userId'' (j_uint J uid), t_priority = 5\<rparr>"

lemma announce_offline_state:
  "Publisher.m_queue (sv_publisher (announce_offline W uid s)) = Publisher.m_queue (sv_publisher s) @
     (if length (Publisher.m_queue (sv_publisher s)) < queue_capacity (m_rabbitmq (w_cfg W))
      then [presence_task (w_json W) False uid] else [])"
  "sv_registry (announce_offline W uid s) = sv_registry s"
  by (simp_all add: announce_offline_def on_publisher_def PublishUserOffline_def Publisher.Publish_def presence_task_def)

section \<open>A callback without interruption\<close>

text \<open>At most five sections follow the first one.\<close>

fun run_sections :: "('h, 'j) world \<Rightarrow> nat \<Rightarrow> ('h, 'j) cont \<times> 'j service \<Rightarrow> ('h, 'j) cont \<times> 'j service" where
  "run_sections W 0 p = p"
| "run_sections W (Suc n) (k, s) = run_sections W n (section_step W k s)"

fun whole :: "('h, 'j) world \<Rightarrow> 'h callback \<Rightarrow> 'j service \<Rightarrow> 'j service" where
  "whole W (Connecting now_s now_ms iso_ms iom header w) s =
     (case onConnect (w_http W) (w_json W) (w_crypto W) (w_cfg W) now_s now_ms iso_ms iom header w s of
        (rc, header, s) \<Rightarrow> s)"
| "whole W (Closing header w) s = snd (onClose (w_http W) (w_json W) (w_cfg W) header w s)"
| "whole W (Receiving iso_ms now_ms log_info header is_text msg w) s =
     snd (handle (w_http W) (w_json W) (w_cfg W) iso_ms now_ms log_info header is_text msg w s)"

lemma run_sections_idle [simp]: "run_sections W n (Idle, s) = (Idle, s)"
  by (induction n) simp_all

lemma run_sections_add: "run_sections W (m + n) p = run_sections W n (run_sections W m p)"
  by (induction W m p rule: run_sections.induct) simp_all

lemma run_sections_done: "run_sections W m p = (Idle, s) \<Longrightarrow> m \<le> n \<Longrightarrow> run_sections W n p = (Idle, s)"
  using run_sections_add [of W m "n - m" p] by simp

lemmas three_sections = numeral_3_eq_3 run_sections.simps section_step.simps

lemma close_sections: "run_sections W 3 (close_remove W header s) = (Idle, whole W (Closing header w) s)"
  by (simp add: three_sections close_remove_def onClose_def announce_offline_def Let_def)

lemma send_sections:
  "run_sections W 3 (SendPut iso_ms now_ms uid did session hs sq data, s) =
     (Idle, snd (HandleMsgSend (w_json W) (w_cfg W) iso_ms now_ms uid did session hs sq data s))"
  by (auto simp: three_sections send_put_def HandleMsgSend_def send_queue_def send_forget_def Let_def
      split: option.split prod.split)

lemma register_sections:
  "run_sections W 3 (ConnectAdd claims did (\<not> IsUserOnline (jc_user_id claims) (sv_registry s)) now_ms iso_ms iom w, s) =
     (Idle, snd (snd (register_conn (w_http W) (w_json W) (w_cfg W) now_ms iso_ms iom claims did header w s)))"
proof -
  obtain rep ev reg where A: "Add ((sv_heap s)(sv_next s := new_OnlineConn (jc_user_id claims) did (Some w) iom
        now_ms (chat_frame_rate_limit_per_second (m_chat (w_cfg W))))) (Some (sv_next s)) (max_devices (w_cfg W))
        (sv_registry s) = (rep, ev, reg)" by (rule prod_cases3)
  show ?thesis
    by (cases "IsUserOnline (jc_user_id claims) (sv_registry s)")
      (simp_all add: three_sections connect_add_def connect_tell_def register_conn_def announce_online_def Let_def A)
qed

lemma connect_sections:
  "run_sections W 3 (connect_read W now_s now_ms iso_ms iom header w s) =
     (Idle, whole W (Connecting now_s now_ms iso_ms iom header w) s)"
proof -
  have "IsUserOnline uid (sv_registry (snd (AllocFallbackDeviceId uid s))) = IsUserOnline uid (sv_registry s)" for uid
    by (simp add: AllocFallbackDeviceId_def Let_def)
  then show ?thesis
    using register_sections [of W _ _ _ now_ms iso_ms iom w header]
    by (simp add: connect_read_def onConnect_def Let_def case_prod_beta split: option.split sum.split)
qed

text \<open>After \<open>Touch\<close> a frame is dispatched as \<open>dispatch_frame\<close> does, in at most four sections.\<close>

lemma touch_sections:
  "run_sections W 4 (FrameTouch uid did iso_ms now_ms log_info msg w, s) =
     (Idle, let s = s\<lparr>sv_heap := Touch uid did now_ms (sv_registry s) (sv_heap s)\<rparr>
            in case ParseClientFrame (w_json W) msg of
                 None \<Rightarrow> s
               | Some (Inl err) \<Rightarrow> send_error (w_json W) (Some w) 400 err False 0 s
               | Some (Inr frame) \<Rightarrow>
                   snd (dispatch_frame (w_json W) (w_cfg W) iso_ms now_ms log_info uid did w frame s))"
proof -
  have ack: "run_sections W 3 (AckPublish iso_ms uid session hs sq data, t) =
      (Idle, snd (HandleMsgAck (w_json W) (w_cfg W) iso_ms uid session hs sq data t))" for session hs sq data t
    by (simp add: three_sections)
  have "run_sections W 4 (FrameTouch uid did iso_ms now_ms log_info msg w, s) =
      run_sections W 3 (frame_touch W uid did iso_ms now_ms log_info msg w s)"
    by (simp add: eval_nat_numeral)
  then show ?thesis
    by (auto simp: frame_touch_def Let_def send_sections ack dispatch_frame_def split: option.split sum.split)
qed

lemma frame_sections:
  "run_sections W 5 (frame_lookup W iso_ms now_ms log_info header is_text msg w s) =
     (Idle, whole W (Receiving iso_ms now_ms log_info header is_text msg w) s)"
proof -
  let ?uid = "header_uid (w_http W) header" and ?did = "getHeader (w_http W) header ''$did''"
  have five: "run_sections W 5 (k, t) = run_sections W 4 (section_step W k t)" for k t
    by (simp add: eval_nat_numeral)
  show ?thesis
  proof (cases "is_text \<and> ?uid \<noteq> 0 \<and> ?did \<noteq> []")
    case False
    then show ?thesis by (auto simp: frame_lookup_def handle_def Let_def)
  next
    case True
    show ?thesis
    proof (cases "Get ?uid ?did (sv_registry s)")
      case None
      have "run_sections W 5 (FrameTouch ?uid ?did iso_ms now_ms log_info msg w, s) =
          run_sections W 4 (FrameTouch ?uid ?did iso_ms now_ms log_info msg w, s)"
        by (rule trans [OF run_sections_done [OF touch_sections] touch_sections [symmetric]]) simp
      with True None show ?thesis
        by (auto simp: frame_lookup_def handle_def Let_def touch_sections split: option.split sum.split)
    next
      case (Some c)
      with True show ?thesis
        by (auto simp: frame_lookup_def handle_def Let_def five frame_token_def touch_sections
            split: prod.split option.split sum.split)
    qed
  qed
qed

text \<open>
  A callback whose sections run one after the other, with nothing in between, is the handler: the section that it
  is entered with and at most five more leave the state that \<open>onConnect\<close>, \<open>onClose\<close> or \<open>handle\<close> leaves, and nothing to do.
\<close>

theorem uninterrupted_is_whole: "run_sections W 5 (enter W cb s) = (Idle, whole W cb s)"
proof (cases cb)
  case (Connecting now_s now_ms iso_ms iom header w)
  with run_sections_done [OF connect_sections, of 5] show ?thesis by simp
next
  case (Closing header w)
  with run_sections_done [OF close_sections, of 5] show ?thesis by simp
next
  case Receiving
  then show ?thesis by (simp only: enter.simps frame_sections)
qed

end
