(* ===== verification/Threads.thy ===== *)
theory Threads
  imports Sections
begin

text \<open>
  Any number of IO threads that run the sections of their callbacks in any order, among whole events of
  \<open>System\<close>: closures, ticks, turns of the broker threads. \<open>thread_step\<close> is one action of the process,
  \<open>interleaves\<close> collects the states that some history of actions leads to, with the callbacks that were
  entered as events. A thread between two sections relies on \<open>cont_ok\<close>, which no action of the others breaks.
\<close>

section \<open>Interleavings\<close>

type_synonym ('h, 'j) threads = "nat \<Rightarrow> ('h, 'j) cont"

datatype 'h action =
    Event "'h event"
  | Enter nat "'h callback"
  | Resume nat

text \<open>What a callback is in the history of events.\<close>

fun callback_event :: "'h callback \<Rightarrow> 'h event" where
  "callback_event (Connecting now_s now_ms iso_ms iom header w) = Connected now_s now_ms iso_ms iom header w"
| "callback_event (Closing header w) = Closed header w"
| "callback_event (Receiving iso_ms now_ms log_info header is_text msg w) =
     FrameIn iso_ms now_ms log_info header is_text msg w"

fun happened :: "'h action \<Rightarrow> 'h event list" where
  "happened (Event e) = [e]"
| "happened (Enter i cb) = [callback_event cb]"
| "happened (Resume i) = []"

inductive thread_step ::
  "('h, 'j) world \<Rightarrow> 'h action \<Rightarrow> ('h, 'j) threads \<times> 'j system \<Rightarrow> ('h, 'j) threads \<times> 'j system \<Rightarrow> bool" for W where
  event: "step W e y y' \<Longrightarrow> thread_step W (Event e) (th, y) (th, y')"
| entered: "th i = Idle \<Longrightarrow> enter W cb (y_service y) = (k, s) \<Longrightarrow>
    thread_step W (Enter i cb) (th, y) (th(i := k), y\<lparr>y_service := s\<rparr>)"
| resumed: "section_step W (th i) (y_service y) = (k, s) \<Longrightarrow>
    thread_step W (Resume i) (th, y) (th(i := k), y\<lparr>y_service := s\<rparr>)"

inductive_cases EventE: "thread_step W (Event e) (th, y) (th', y')"
inductive_cases EnterE: "thread_step W (Enter i cb) (th, y) (th', y')"
inductive_cases ResumeE: "thread_step W (Resume i) (th, y) (th', y')"

inductive interleaves :: "('h, 'j) world \<Rightarrow> 'h event list \<Rightarrow> ('h, 'j) threads \<Rightarrow> 'j system \<Rightarrow> bool" for W where
  start: "interleaves W [] (\<lambda>i. Idle) (system_start h)"
| act: "interleaves W es th y \<Longrightarrow> thread_step W a (th, y) (th', y') \<Longrightarrow> interleaves W (happened a @ es) th' y'"

lemma reaches_interleaves: "reaches W es y \<Longrightarrow> interleaves W es (\<lambda>i. Idle) y"
proof (induction rule: reaches.induct)
  case (step es y e y')
  from interleaves.act [OF step.IH thread_step.event [OF step.hyps(2)]] show ?case by simp
qed (rule interleaves.start)

text \<open>What a thread in the middle of a callback relies on.\<close>

fun cont_ok :: "('h, 'j) world \<Rightarrow> 'h event list \<Rightarrow> 'j service \<Rightarrow> ('h, 'j) cont \<Rightarrow> bool" where
  "cont_ok W es s (ConnectAdd claims did first now_ms iso_ms iom w) \<longleftrightarrow>
     jc_user_id claims \<noteq> 0 \<and>
     logged_in W es (new_OnlineConn (jc_user_id claims) did (Some w) iom now_ms
       (chat_frame_rate_limit_per_second (m_chat (w_cfg W))))"
| "cont_ok W es s (ConnectTell replaced evicted claims did first iso_ms w) \<longleftrightarrow>
     (\<forall>c \<in> set_option replaced \<union> set evicted. c < sv_next s)"
| "cont_ok W es s (FrameToken c uid did iso_ms now_ms log_info msg w) \<longleftrightarrow> c < sv_next s"
| "cont_ok W es s _ \<longleftrightarrow> True"

lemma cont_ok_mono:
  assumes "cont_ok W es s k" "sv_next s \<le> sv_next s'" "set es \<subseteq> set es'"
  shows "cont_ok W es' s' k"
  using assms by (cases k) (auto simp: logged_in_def, (blast dest: less_le_trans)+)

subsection \<open>The sections keep the invariant of the service\<close>

text \<open>
  What a section that creates no connection object guarantees the others: the invariant of the service, and that
  every connection stays who and where it is.
\<close>

definition guarantees :: "ChatConfig \<Rightarrow> 'j service \<Rightarrow> 'j service \<Rightarrow> bool" where
  "guarantees cfg s s' \<longleftrightarrow> service_wf cfg s' \<and> (\<forall>c. same_place (sv_heap s c) (sv_heap s' c)) \<and> sv_next s' = sv_next s \<and>
     Publisher.m_client (sv_publisher s') = Publisher.m_client (sv_publisher s)"

lemma guarantees_trans: "guarantees cfg s s1 \<Longrightarrow> guarantees cfg s1 s' \<Longrightarrow> guarantees cfg s s'"
  by (simp add: guarantees_def same_place_def)

lemma guarantees_refl: "service_wf cfg s \<Longrightarrow> guarantees cfg s s"
  by (simp add: guarantees_def same_place_refl)

text \<open>Most sections leave the heap as it is.\<close>

lemma guaranteesI:
  "service_wf cfg s' \<Longrightarrow> sv_heap s' = sv_heap s \<Longrightarrow> sv_next s' = sv_next s \<Longrightarrow>
     Publisher.m_client (sv_publisher s') = Publisher.m_client (sv_publisher s) \<Longrightarrow> guarantees cfg s s'"
  by (simp add: guarantees_def same_place_refl)

lemma publish_keeps:
  assumes "on_publisher (Publisher.Publish (m_rabbitmq cfg) rk pl pr) s = (ok, s')" "service_wf cfg s"
  shows "guarantees cfg s s'"
proof (rule guaranteesI)
  show "service_wf cfg s'"
    using assms(2) Publish_on_service(1,2) [OF assms(1)] on_publisher_frame [OF assms(1)]
    by (auto simp: service_wf_def pending_wf_def)
qed (use assms(1) on_publisher_frame [OF assms(1)] in \<open>auto dest: publish_client\<close>)

lemma announce_keeps:
  "service_wf (w_cfg W) s \<Longrightarrow> guarantees (w_cfg W) s (announce_online W uid s)"
  "service_wf (w_cfg W) s \<Longrightarrow> guarantees (w_cfg W) s (announce_offline W uid s)"
  by (simp_all add: announce_online_def announce_offline_def PublishUserOnline_def PublishUserOffline_def
      publish_keeps [OF surjective_pairing])

lemma send_error_keeps: "service_wf cfg s \<Longrightarrow> guarantees cfg s (send_error J w code msg hs sq s)"
  by (rule guaranteesI)
    (simp_all add: send_error_frame send_frame_perform perform_def service_wf_def pending_wf_def)

lemma count_keeps: "service_wf cfg s \<Longrightarrow> guarantees cfg s (count_metric f s)"
  by (rule guaranteesI) (simp_all add: count_metric_def service_wf_def pending_wf_def)

lemma pendings_keep:
  "service_wf cfg s \<Longrightarrow> guarantees cfg s (s\<lparr>sv_pending := AList.update cid p (sv_pending s)\<rparr>)"
  "service_wf cfg s \<Longrightarrow> guarantees cfg s (s\<lparr>sv_pending := AList.delete cid (sv_pending s)\<rparr>)"
  by (simp_all add: guarantees_def same_place_refl service_wf_def pending_wf_def distinct_update distinct_delete)

lemma guarantees_wf: "guarantees cfg s s' \<Longrightarrow> service_wf cfg s'"
  by (simp add: guarantees_def)

lemma put_keeps:
  assumes "send_put W iso_ms now_ms uid did session hs sq data s = (k, s')" "service_wf (w_cfg W) s"
  shows "guarantees (w_cfg W) s s'"
  using assms
  by (auto simp: send_put_def Let_def send_error_keeps pendings_keep guarantees_refl split: option.splits if_splits)

lemma queue_keeps:
  assumes "send_queue W cid pl session hs sq s = (k, s')" "service_wf (w_cfg W) s"
  shows "guarantees (w_cfg W) s s'"
  using assms by (auto simp: send_queue_def publish_keeps split: prod.splits)

lemma forget_keeps:
  assumes "service_wf (w_cfg W) s"
  shows "guarantees (w_cfg W) s (send_forget W cid session hs sq s)"
proof -
  have g: "guarantees (w_cfg W) s (s\<lparr>sv_pending := AList.delete cid (sv_pending s)\<rparr>)"
    by (rule pendings_keep(2) [OF assms])
  from guarantees_trans [OF g send_error_keeps [OF guarantees_wf [OF g]]] show ?thesis by (simp add: send_forget_def)
qed

lemma ack_keeps:
  assumes "json_laws (w_json W)" "service_wf (w_cfg W) s"
  shows "guarantees (w_cfg W) s (snd (HandleMsgAck (w_json W) (w_cfg W) iso_ms uid session hs sq data s))"
proof -
  obtain rc s' where A: "HandleMsgAck (w_json W) (w_cfg W) iso_ms uid session hs sq data s = (rc, s')"
    by (rule prod.exhaust)
  note F = HandleMsgAck_frame [OF A]
  have "length (Publisher.m_queue (sv_publisher s')) \<le> queue_capacity (m_rabbitmq (w_cfg W))"
    using queues_own_bounded [OF F(3) [OF assms(1)]] assms(2) by (simp add: service_wf_def)
  with F service_wf_pending [OF assms(2)] have "service_wf (w_cfg W) s'"
    by (intro service_wf_queue [OF assms(2)]) (simp_all add: pending_wf_def)
  with F(1) handlers_client(2) [OF A] show ?thesis by (simp add: A) (intro guaranteesI; simp add: keeps_conns_def)
qed

lemma touched_keeps:
  assumes "service_wf cfg s"
  shows "guarantees cfg s (s\<lparr>sv_heap := Touch uid did now r (sv_heap s)\<rparr>)"
    "guarantees cfg s (s\<lparr>sv_heap := (sv_heap s)(c := snd (ConsumeToken now rate (sv_heap s c)))\<rparr>)"
proof -
  show "guarantees cfg s (s\<lparr>sv_heap := Touch uid did now r (sv_heap s)\<rparr>)"
    using service_wf_place [OF assms, of "s\<lparr>sv_heap := Touch uid did now r (sv_heap s)\<rparr>"]
    by (simp add: guarantees_def Touch_place)
  show "guarantees cfg s (s\<lparr>sv_heap := (sv_heap s)(c := snd (ConsumeToken now rate (sv_heap s c)))\<rparr>)"
    using service_wf_place [OF assms, of "s\<lparr>sv_heap := (sv_heap s)(c := snd (ConsumeToken now rate (sv_heap s c)))\<rparr>"]
    by (simp add: guarantees_def ConsumeToken_place same_place_refl)
qed

lemma lookup_keeps:
  assumes "frame_lookup W iso_ms now_ms log_info header is_text msg w s = (k, s')" "service_wf (w_cfg W) s"
  shows "guarantees (w_cfg W) s s' \<and> cont_ok W es s' k"
  using assms
  by (auto simp: frame_lookup_def Let_def send_error_keeps guarantees_refl service_wf_def
      split: if_splits option.splits)

lemma token_keeps:
  assumes "frame_token W c uid did iso_ms now_ms log_info msg w s = (k, s')" "service_wf (w_cfg W) s"
  shows "guarantees (w_cfg W) s s' \<and> cont_ok W es s' k"
proof -
  let ?rate = "chat_frame_rate_limit_per_second (m_chat (w_cfg W))"
  let ?s = "s\<lparr>sv_heap := (sv_heap s)(c := snd (ConsumeToken now_ms ?rate (sv_heap s c)))\<rparr>"
  have g: "guarantees (w_cfg W) s ?s" by (rule touched_keeps(2) [OF assms(2)])
  from assms(1) show ?thesis
    using g guarantees_trans [OF g send_error_keeps [OF guarantees_wf [OF g]]]
    by (auto simp: frame_token_def Let_def case_prod_beta split: if_splits)
qed

lemma touch_keeps:
  assumes "json_laws (w_json W)" "service_wf (w_cfg W) s"
    and "frame_touch W uid did iso_ms now_ms log_info msg w s = (k, s')"
  shows "guarantees (w_cfg W) s s' \<and> cont_ok W es s' k"
proof -
  let ?s = "s\<lparr>sv_heap := Touch uid did now_ms (sv_registry s) (sv_heap s)\<rparr>"
  have g: "guarantees (w_cfg W) s ?s" by (rule touched_keeps(1) [OF assms(2)])
  note wf = guarantees_wf [OF g]
  have "guarantees (w_cfg W) ?s (snd (dispatch_frame (w_json W) (w_cfg W) iso_ms now_ms log_info uid did w frame ?s))" for frame
  proof -
    obtain rc t where D: "dispatch_frame (w_json W) (w_cfg W) iso_ms now_ms log_info uid did w frame ?s = (rc, t)"
      by (rule prod.exhaust)
    from dispatch_frame_wf [OF assms(1) wf D] dispatch_frame_frame(1) [OF D] dispatch_frame_client [OF D]
    show ?thesis by (simp only: D snd_conv) (intro guaranteesI; simp add: keeps_conns_def)
  qed
  with assms(3) g wf show ?thesis
    by (auto simp: frame_touch_def Let_def send_error_keeps count_keeps intro: guarantees_trans [OF g]
        split: option.splits sum.splits if_splits)
qed

lemma connect_tell_state:
  assumes "connect_tell W rep ev claims did first iso_ms w s = (k, s')"
  shows "sv_heap s' = sv_heap s" "sv_next s' = sv_next s" "sv_publisher s' = sv_publisher s"
    "sv_registry s' = sv_registry s" "sv_pending s' = sv_pending s"
    "sv_tasks s' = sv_tasks s @
       (case rep of None \<Rightarrow> [] | Some old \<Rightarrow> kick_tasks (w_json W) ''login_elsewhere'' (sv_heap s) old) @
       concat (map (kick_tasks (w_json W) ''too_many_devices'' (sv_heap s)) ev)"
    "k = (if first then ConnectAnnounce (jc_user_id claims) else Idle)"
proof -
  have k: "(\<lambda>e s. CloseSessionOnOwner e (SendKickedOnOwner J reason e s)) = kick J reason" for J :: "'b json_lib" and reason
    by (simp add: kick_def fun_eq_iff)
  have k1: "CloseSessionOnOwner e (SendKickedOnOwner J reason e s) = kick J reason e s"
    for J :: "'b json_lib" and reason e and s :: "'b service"
    by (simp add: kick_def)
  note eq = assms [unfolded connect_tell_def Let_def k k1, THEN arg_cong, of snd, unfolded snd_conv, symmetric]
  show "sv_heap s' = sv_heap s" "sv_next s' = sv_next s" "sv_publisher s' = sv_publisher s"
    "sv_registry s' = sv_registry s" "sv_pending s' = sv_pending s"
    "sv_tasks s' = sv_tasks s @
       (case rep of None \<Rightarrow> [] | Some old \<Rightarrow> kick_tasks (w_json W) ''login_elsewhere'' (sv_heap s) old) @
       concat (map (kick_tasks (w_json W) ''too_many_devices'' (sv_heap s)) ev)"
    by (simp_all add: eq kicks_state kick_state state_simps send_frame_perform split: option.split)
  show "k = (if first then ConnectAnnounce (jc_user_id claims) else Idle)"
    using assms by (simp add: connect_tell_def Let_def)
qed

lemma tell_keeps:
  assumes "connect_tell W rep ev claims did first iso_ms w s = (k, s')"
    and "service_wf (w_cfg W) s" "\<forall>c \<in> set_option rep \<union> set ev. c < sv_next s"
  shows "guarantees (w_cfg W) s s'"
proof -
  note st = connect_tell_state [OF assms(1)]
  have "task_conn t < sv_next s" if "(iom, t) \<in> set (sv_tasks s')" "(iom, t) \<notin> set (sv_tasks s)" for iom t
  proof -
    from that obtain reason c where "c \<in> set_option rep \<union> set ev"
      "(iom, t) \<in> set (kick_tasks (w_json W) reason (sv_heap s) c)"
      by (auto simp: st(6) split: option.splits)
    with assms(3) kick_tasks_conn show ?thesis by metis
  qed
  then have tasks: "(iom, t) \<in> set (sv_tasks s') \<Longrightarrow> (iom, t) \<in> set (sv_tasks s) \<or> task_conn t < sv_next s" for iom t
    by blast
  have "pending_wf s'" using service_wf_pending [OF assms(2)] by (simp add: pending_wf_def st(5))
  then have "service_wf (w_cfg W) s'"
    by (rule service_wf_frame [OF assms(2) st(4,2,3) _ _ tasks]) (simp_all add: st(1) same_place_def)
  with st show ?thesis by (intro guaranteesI) simp_all
qed

lemma remove_keeps:
  assumes "close_remove W header s = (k, s')" "service_wf (w_cfg W) s"
  shows "guarantees (w_cfg W) s s'"
  using assms Remove_wf
  by (intro guaranteesI) (fastforce simp: close_remove_def Let_def service_wf_def pending_wf_def Remove_keeps_Get split: if_splits)+

lemma add_keeps:
  assumes "connect_add W claims did first now_ms iso_ms iom w s = (k, s')"
    and "service_wf (w_cfg W) s" "1 \<le> max_devices (w_cfg W)" "jc_user_id claims \<noteq> 0"
  shows "service_wf (w_cfg W) s' \<and> sv_next s' = sv_next s + 1 \<and> sv_publisher s' = sv_publisher s \<and>
    sv_heap s' = (sv_heap s)(sv_next s := new_OnlineConn (jc_user_id claims) did (Some w) iom now_ms
                              (chat_frame_rate_limit_per_second (m_chat (w_cfg W)))) \<and>
    cont_ok W es s' k"
proof -
  let ?c = "sv_next s" and ?mx = "max_devices (w_cfg W)" and ?u = "jc_user_id claims"
  define h where "h = (sv_heap s)(?c := new_OnlineConn ?u did (Some w) iom now_ms
                              (chat_frame_rate_limit_per_second (m_chat (w_cfg W))))"
  obtain rep ev reg where A: "Add h (Some ?c) ?mx (sv_registry s) = (rep, ev, reg)" by (rule prod_cases3)
  note created = Add_created [OF assms(2-4) h_def A]
  have k: "k = ConnectTell rep ev claims did first iso_ms w"
    and s': "s' = s\<lparr>sv_heap := h, sv_next := ?c + 1, sv_registry := reg\<rparr>"
    using assms(1) A by (simp_all add: connect_add_def Let_def h_def)
  have "service_wf (w_cfg W) s'"
    using created(2,3) assms(2) by (fastforce simp: s' service_wf_def pending_wf_def)
  with created(4) show ?thesis by (simp add: k s' h_def)
qed

subsection \<open>No event takes a connection object away\<close>

interpretation next_conn: consumer_handler "mq_handler J" "\<lambda>r. sv_next (snd r) = n" for J n
  by unfold_locales (clarsimp simp: mq_handler_state OnEnvelope_keeps)

lemma onConnect_next:
  assumes "onConnect H J K cfg now_s now_ms iso_ms iom header w s = (rc, header', s')"
  shows "sv_next s \<le> sv_next s'"
  using assms
proof (cases rule: onConnect_cases)
  case (accepted claims did s1)
  obtain rep ev reg where A: "Add ((sv_heap s1)(sv_next s1 := new_OnlineConn (jc_user_id claims) did (Some w)
        iom now_ms (chat_frame_rate_limit_per_second (m_chat cfg)))) (Some (sv_next s1)) (max_devices cfg)
        (sv_registry s1) = (rep, ev, reg)" by (rule prod_cases3)
  from register_conn_state(3) [OF accepted(3) refl refl refl A] accepted(4) show ?thesis by auto
qed (simp_all add: auth_fail_state)

lemma set_views_next:
  "sv_next (y_service (set_publisher p y)) = sv_next (y_service y)"
  "sv_next (y_service (set_consumer c y)) = sv_next (snd (rest_of c))"
  by (simp_all add: set_publisher_def set_consumer_def split: prod.split)

lemma step_next:
  assumes "step W e y y'" "system_inv W es y"
  shows "sv_next (y_service y) \<le> sv_next (y_service y')"
  using assms
proof (induction rule: step.induct)
  case connect
  from onConnect_next [OF connect(1)] show ?case by simp
next
  case closed
  from onClose_state(3) [OF closed(1)] show ?case by simp
next
  case frame_in
  from handle_next [OF frame_in(1)] show ?case by simp
next
  case (run_scheduled k y iom t)
  from run_task_state [of "(y_service y)\<lparr>sv_tasks := without k (sv_tasks (y_service y))\<rparr>" "w_http W" "w_json W" t]
  show ?case by (simp add: keeps_conns_def)
next
  case (consumer_turn now_ms still ready handler_ms y c)
  have "MqConsumer.m_handler (con_of (consumer_view handler_ms y)) \<in> {None, Some (mq_handler (w_json W))}"
    using consumer_turn(2) by (simp add: system_inv_def consumer_view_def)
  from next_conn.iteration_keeps [OF consumer_turn(1) this, of "sv_next (y_service y)"] show ?case
    by (simp add: set_views_next consumer_view_def)
next
  case (late_handler k y h now_ms r met now' s)
  have "h = mq_handler (w_json W)" using late_handler(2,4) by (simp add: system_inv_def)
  from next_conn.late_keeps [OF _ late_handler(3) [unfolded this], of "sv_next (y_service y)"] show ?case by simp
next
  case start_mq
  then show ?case by (auto simp: startMq_def Let_def set_views_next Consumer.Start_def consumer_view_def)
next
  case stop_mq
  then show ?case by (simp add: stopMq_def Let_def set_views_next Consumer.Stop_def consumer_view_def)
qed (simp_all add: on_timer_state set_views_next)

subsection \<open>The invariant under every interleaving\<close>

definition threads_inv :: "('h, 'j) world \<Rightarrow> 'h event list \<Rightarrow> ('h, 'j) threads \<Rightarrow> 'j system \<Rightarrow> bool" where
  "threads_inv W es th y \<longleftrightarrow> system_inv W es y \<and> (\<forall>i. cont_ok W es (y_service y) (th i))"

text \<open>A section that creates no connection object.\<close>

lemma quiet_keeps:
  assumes "json_laws (w_json W)" "service_wf (w_cfg W) s" "cont_ok W es s k"
    and "\<forall>c d f n t m w. k \<noteq> ConnectAdd c d f n t m w" "section_step W k s = (k', s')"
  shows "guarantees (w_cfg W) s s' \<and> cont_ok W es s' k'"
proof (cases k)
  case (ConnectTell rep ev claims did first iso_ms w)
  with assms(5) have T: "connect_tell W rep ev claims did first iso_ms w s = (k', s')" by simp
  from tell_keeps [OF T assms(2)] assms(3) ConnectTell connect_tell_state(7) [OF T] show ?thesis by auto
next
  case (FrameToken c uid did iso_ms now_ms log_info msg w)
  with assms(5) token_keeps [OF _ assms(2)] show ?thesis by simp
next
  case (FrameTouch uid did iso_ms now_ms log_info msg w)
  with assms(5) touch_keeps [OF assms(1,2)] show ?thesis by simp
next
  case (SendPut iso_ms now_ms uid did session hs sq data)
  with assms(5) have S: "send_put W iso_ms now_ms uid did session hs sq data s = (k', s')" by simp
  then have "cont_ok W es s' k'" by (auto simp: send_put_def Let_def split: option.splits if_splits)
  with put_keeps [OF S assms(2)] show ?thesis by simp
next
  case (SendPublish cid pl session hs sq)
  with assms(5) have Q: "send_queue W cid pl session hs sq s = (k', s')" by simp
  then have "k' = Idle \<or> k' = SendForget cid session hs sq"
    by (auto simp: send_queue_def split: prod.splits if_splits)
  with queue_keeps [OF Q assms(2)] show ?thesis by auto
next
  case (SendForget cid session hs sq)
  with assms(5) forget_keeps [OF assms(2)] show ?thesis by auto
next
  case (AckPublish iso_ms uid session hs sq data)
  with assms(5) ack_keeps [OF assms(1,2)] show ?thesis by auto
qed (use assms in \<open>auto simp: announce_keeps guarantees_refl\<close>)

lemma threads_inv_service:
  assumes "threads_inv W es th y" "set es \<subseteq> set es'"
    and "service_wf (w_cfg W) s" "conns_logged_in W es' s"
    and "Publisher.m_client (sv_publisher s) = Publisher.m_client (sv_publisher (y_service y))"
    and "sv_next (y_service y) \<le> sv_next s" "cont_ok W es' s k"
  shows "threads_inv W es' (th(i := k)) (y\<lparr>y_service := s\<rparr>)"
proof -
  have "cont_ok W es' s (th j)" for j
    using assms(1) cont_ok_mono [OF _ assms(6,2)] by (simp add: threads_inv_def)
  with assms show ?thesis
    by (simp add: threads_inv_def system_inv_def consumer_cache_def consumer_view_def)
qed

lemma logged_in_subset: "logged_in W es c \<Longrightarrow> set es \<subseteq> set es' \<Longrightarrow> same_place c c' \<Longrightarrow> logged_in W es' c'"
  by (fastforce simp: logged_in_def same_place_def)

text \<open>The common case: a section that guarantees the others everything.\<close>

lemma guaranteed_inv:
  assumes "threads_inv W es th y" "set es \<subseteq> set es'" "guarantees (w_cfg W) (y_service y) s" "cont_ok W es' s k"
  shows "threads_inv W es' (th(i := k)) (y\<lparr>y_service := s\<rparr>)"
proof -
  have "conns_logged_in W es' s"
    using assms(1-3) logged_in_subset by (fastforce simp: threads_inv_def system_inv_def conns_logged_in_def guarantees_def)
  with assms show ?thesis by (intro threads_inv_service [OF assms(1,2)]) (simp_all add: guarantees_def)
qed

lemma section_keeps:
  assumes "threads_inv W es th y" "json_laws (w_json W)" "1 \<le> max_devices (w_cfg W)"
    and "section_step W (th i) (y_service y) = (k, s)"
  shows "threads_inv W es (th(i := k)) (y\<lparr>y_service := s\<rparr>)"
proof -
  let ?s = "y_service y"
  have wf: "service_wf (w_cfg W) ?s" and log: "conns_logged_in W es ?s" and ok: "cont_ok W es ?s (th i)"
    using assms(1) by (simp_all add: threads_inv_def system_inv_def)
  show ?thesis
  proof (cases "\<forall>c d f n t m w. th i \<noteq> ConnectAdd c d f n t m w")
    case True
    from quiet_keeps [OF assms(2) wf ok True assms(4)] show ?thesis by (intro guaranteed_inv [OF assms(1)]) simp_all
  next
    case False
    then obtain claims did first now_ms iso_ms iom w where k: "th i = ConnectAdd claims did first now_ms iso_ms iom w"
      by blast
    let ?new = "new_OnlineConn (jc_user_id claims) did (Some w) iom now_ms
      (chat_frame_rate_limit_per_second (m_chat (w_cfg W)))"
    have A: "connect_add W claims did first now_ms iso_ms iom w ?s = (k, s)" using assms(4) k by simp
    have new: "jc_user_id claims \<noteq> 0" "logged_in W es ?new" using ok k by simp_all
    from add_keeps [OF A wf assms(3) new(1)] have Q: "service_wf (w_cfg W) s" "sv_next s = sv_next ?s + 1"
      "sv_publisher s = sv_publisher ?s" "sv_heap s = (sv_heap ?s)(sv_next ?s := ?new)" "cont_ok W es s k" by simp_all
    have "conns_logged_in W es s" using log new(2) by (simp add: conns_logged_in_def Q(2,4) less_Suc_eq)
    then show ?thesis by (intro threads_inv_service [OF assms(1)]) (simp_all add: Q)
  qed
qed

lemma read_keeps:
  assumes "memcmp_law (w_crypto W)" "service_wf (w_cfg W) s"
    and "connect_read W now_s now_ms iso_ms iom header w s = (k, s')"
  shows "guarantees (w_cfg W) s s' \<and> cont_ok W (Connected now_s now_ms iso_ms iom header w # es) s' k"
proof -
  let ?e = "Connected now_s now_ms iso_ms iom header w" and ?tok = "ExtractToken (w_http W) header"
  have ok: "cont_ok W (?e # es) s' (ConnectAdd claims did first now_ms iso_ms iom w)"
    if "Verify (w_json W) (w_crypto W) (m_jwt (w_cfg W)) now_s ?tok = Some (Inr claims)" for claims did first s'
  proof -
    from that Verify_iff [OF assms(1)]
    have "token_accepted (w_json W) (w_crypto W) (m_jwt (w_cfg W)) now_s ?tok claims" by blast
    moreover from token_uid_nonzero [OF this] have "jc_user_id claims \<noteq> 0" .
    ultimately show ?thesis by (fastforce simp: logged_in_def new_OnlineConn_def)
  qed
  have alloc: "guarantees (w_cfg W) s (snd (AllocFallbackDeviceId uid s))" for uid
    using assms(2) by (intro guaranteesI) (simp_all add: AllocFallbackDeviceId_def Let_def service_wf_seq)
  have fail: "guarantees (w_cfg W) s (auth_fail (w_json W) err w s)" for err
    using service_wf_auth_fail [OF assms(2)] by (intro guaranteesI) (simp_all add: auth_fail_state)
  show ?thesis
    using assms(3) guarantees_refl [OF assms(2)] alloc fail
    by (auto simp: connect_read_def Let_def case_prod_beta simp del: cont_ok.simps(1)
        intro: ok split: option.splits sum.splits if_splits)
qed

lemma enter_keeps:
  assumes "threads_inv W es th y" "memcmp_law (w_crypto W)" "enter W cb (y_service y) = (k, s)"
  shows "threads_inv W (callback_event cb # es) (th(i := k)) (y\<lparr>y_service := s\<rparr>)"
proof -
  let ?s = "y_service y" and ?es = "callback_event cb # es"
  have wf: "service_wf (w_cfg W) ?s" using assms(1) by (simp add: threads_inv_def system_inv_def)
  have "guarantees (w_cfg W) ?s s \<and> cont_ok W ?es s k"
  proof (cases cb)
    case (Connecting now_s now_ms iso_ms iom header w)
    with read_keeps [OF assms(2) wf] assms(3) show ?thesis by simp
  next
    case (Closing header w)
    with assms(3) have C: "close_remove W header ?s = (k, s)" by simp
    then have "k = Idle \<or> k = CloseCheck (header_uid (w_http W) header)"
      by (auto simp: close_remove_def Let_def split: if_splits)
    with remove_keeps [OF C wf] show ?thesis by auto
  next
    case (Receiving iso_ms now_ms log_info header is_text msg w)
    with assms(3) lookup_keeps [OF _ wf] show ?thesis by simp
  qed
  then show ?thesis by (intro guaranteed_inv [OF assms(1)]) auto
qed

lemma thread_step_keeps:
  assumes "threads_inv W es th y" "world_ok W" "thread_step W a (th, y) (th', y')"
  shows "threads_inv W (happened a @ es) th' y'"
proof -
  have W: "json_laws (w_json W)" "memcmp_law (w_crypto W)" "1 \<le> max_devices (w_cfg W)"
    using assms(2) valid_max_devices [of "w_cfg W"] by (simp_all add: world_ok_def)
  have inv: "system_inv W es y" using assms(1) by (simp add: threads_inv_def)
  show ?thesis
  proof (cases a)
    case (Event e)
    with assms(3) have s: "th' = th" "step W e y y'" by (auto elim: EventE)
    from step_keeps [OF W inv s(2)] have "system_inv W (e # es) y'" .
    moreover have "cont_ok W (e # es) (y_service y') (th i)" for i
      using assms(1) by (intro cont_ok_mono [OF _ step_next [OF s(2) inv]]) (auto simp: threads_inv_def)
    ultimately show ?thesis by (simp add: threads_inv_def Event s(1))
  next
    case (Enter i cb)
    with assms(3) enter_keeps [OF assms(1) W(2)] show ?thesis by (auto elim!: EnterE)
  next
    case (Resume i)
    with assms(3) section_keeps [OF assms(1) W(1,3)] show ?thesis by (auto elim!: ResumeE)
  qed
qed

lemma interleaves_inv:
  assumes "interleaves W es th y" "world_ok W"
  shows "threads_inv W es th y"
  using assms(1)
proof (induction rule: interleaves.induct)
  case (start h)
  show ?case by (simp add: threads_inv_def system_start_inv)
next
  case act
  then show ?case by (intro thread_step_keeps [OF _ assms(2)])
qed

text \<open>
  C4. Cutting the callbacks into their critical sections and running those of any number of threads in any
  order, among closures, ticks and turns of the broker threads, breaks none of the limits: no
  user has more connections than configured, every connection is filed under its own user and device, a
  client's message id is pending at most once, the publisher's queue is within its capacity, and both
  broker threads keep to the rules of the C library.
\<close>

theorem interleaved_invariant:
  assumes "world_ok W" "interleaves W es th y"
  shows "int (UserConnectionCount uid (sv_registry (y_service y))) \<le> chat_max_devices_per_user (m_chat (w_cfg W)) \<and>
    (Get uid did (sv_registry (y_service y)) = Some c \<longrightarrow>
       oc_user_id (sv_heap (y_service y) c) = uid \<and> oc_device_id (sv_heap (y_service y) c) = did \<and> uid \<noteq> 0) \<and>
    distinct (keys (sv_pending (y_service y))) \<and>
    length (Publisher.m_queue (sv_publisher (y_service y))) \<le> queue_capacity (m_rabbitmq (w_cfg W)) \<and>
    amqp_inv (w_amqp W) (Publisher.m_client (sv_publisher (y_service y))) \<and>
    amqp_inv (w_amqp W) (MqConsumer.m_client (y_consumer y))"
proof -
  from interleaves_inv [OF assms(2,1)] have "system_inv W es y" by (simp add: threads_inv_def)
  then show ?thesis by (rule system_inv_limits [OF assms(1)])
qed

text \<open>
  C3. However the threads interleave, every registered connection and every connection that a scheduled
  closure will push to stems from an accepted login: some earlier request on exactly its session carried
  a token, signed with the service's key and valid at that time, for exactly its user.
\<close>

theorem interleaved_authenticated:
  assumes "world_ok W" "interleaves W es th y"
    and "Get uid did (sv_registry (y_service y)) = Some c \<and> u = uid \<or>
      (iom, PushTask c type data hs sq) \<in> set (sv_tasks (y_service y)) \<and> u = oc_user_id (sv_heap (y_service y) c)"
  shows "\<exists>now_s now_ms iso_ms iom header w claims. Connected now_s now_ms iso_ms iom header w \<in> set es \<and>
    oc_session (sv_heap (y_service y) c) = Some w \<and> jc_user_id claims = u \<and>
    token_accepted (w_json W) (w_crypto W) (m_jwt (w_cfg W)) now_s (ExtractToken (w_http W) header) claims"
proof -
  from interleaves_inv [OF assms(2,1)] have "system_inv W es y" by (simp add: threads_inv_def)
  then show ?thesis by (rule system_inv_authenticated [OF _ assms(3)])
qed

section \<open>Frames in a history\<close>

text \<open>
  A text frame of an admitted session that is read as a frame: the user and the device that the session's headers
  name, the frame and the clock reading.
\<close>

definition admitted_frame :: "('h, 'j) world \<Rightarrow> 'h event \<Rightarrow> u64 \<Rightarrow> string \<Rightarrow> 'j ClientFrame \<Rightarrow> int \<Rightarrow> bool" where
  "admitted_frame W e uid did frame now \<longleftrightarrow>
     (\<exists>iso_ms log_info header msg w. e = FrameIn iso_ms now log_info header True msg w \<and>
        uid = header_uid (w_http W) header \<and> did = getHeader (w_http W) header ''$did'' \<and> uid \<noteq> 0 \<and> did \<noteq> [] \<and>
        ParseClientFrame (w_json W) msg = Some (Inr frame))"

section \<open>Examples\<close>

lemma demo_interleaving:
  obtains y k uid did c where
    "interleaves demo_world [Closed (demo_header ''d'') 10, Connected 150 1000 0 (Some 1) demo_request 10] ((\<lambda>i. Idle)(3 := k)) y"
    "k = CloseCheck 7"
proof -
  obtain y c uid did where r: "reaches demo_world [Connected 150 1000 0 (Some 1) demo_request 10] y"
    "Get uid did (sv_registry (y_service y)) = Some c" by (rule demo_history)
  obtain k s where E: "enter demo_world (Closing (demo_header ''d'') 10) (y_service y) = (k, s)" by (rule prod.exhaust)
  then have "k = CloseCheck 7"
    by (auto simp: close_remove_def Let_def demo_world_def demo_header_reads)
  with interleaves.act [OF reaches_interleaves [OF r(1)] thread_step.entered [OF _ E, of _ 3]] that show ?thesis by simp
qed

theorem interleaved_invariant_witness:
  "\<exists>th y. th 3 = CloseCheck 7 \<and> (\<exists>es. interleaves demo_world es th y) \<and>
     (\<forall>uid. UserConnectionCount uid (sv_registry (y_service y)) \<le> 5)"
proof -
  obtain y k where r: "interleaves demo_world [Closed (demo_header ''d'') 10, Connected 150 1000 0 (Some 1) demo_request 10]
      ((\<lambda>i. Idle)(3 := k)) y" "k = CloseCheck 7" by (rule demo_interleaving)
  have "chat_max_devices_per_user (m_chat (w_cfg demo_world)) = 5"
    by (simp add: demo_world_def demo_conf_def read_config_def default_vars_def)
  with interleaved_invariant [OF demo_world_ok r(1)]
  have "int (UserConnectionCount uid (sv_registry (y_service y))) \<le> 5" for uid by metis
  with r show ?thesis by (intro exI [of _ "(\<lambda>i. Idle)(3 := k)"] exI [of _ y]) force
qed

theorem interleaved_authenticated_witness:
  "\<exists>claims. token_accepted demo_json demo_crypto demo_jwt 150 ''SA.UA.YWIB'' claims"
proof -
  obtain y c uid did where r: "reaches demo_world [Connected 150 1000 0 (Some 1) demo_request 10] y"
    "Get uid did (sv_registry (y_service y)) = Some c" by (rule demo_history)
  from interleaved_authenticated [OF demo_world_ok reaches_interleaves [OF r(1)], of uid did c uid] r(2)
  show ?thesis by (auto simp: demo_world_def demo_token demo_conf_limits)
qed

text \<open>A history in which user 7 sends a message from device d.\<close>

definition sending_json :: "json json_lib" where
  "sending_json = ref_json [(''M'', JObj [(''type'', JStr ''msg.send''), (''data'', demo_send)]),
     (''H'', JObj [(''alg'', JStr ''HS256'')]), (''P'', jc_raw_payload demo_claims)]"

definition sending_world :: "((string \<times> string) list, json) world" where
  "sending_world = demo_world\<lparr>w_json := sending_json\<rparr>"

abbreviation sending_event :: "(string \<times> string) list event" where
  "sending_event \<equiv> FrameIn 0 9 False (demo_header ''d'') True ''M'' 10"

lemma sending_world_ok: "world_ok sending_world"
  using demo_world_ok by (simp add: world_ok_def sending_world_def sending_json_def ref_json_laws)

lemma sending_parses: "ParseClientFrame sending_json ''M'' =
    Some (Inr \<lparr>cf_type = ''msg.send'', cf_has_seq = False, cf_seq = 0, cf_data = demo_send\<rparr>)"
  by (simp add: ParseClientFrame_def sending_json_def ref_json_defs)

lemma sending_reads: "read_send sending_json demo_send = Some (''c'', 5, ''hi'', ''t'', JNull)"
  by (simp add: read_send_def sending_json_def demo_send_def ref_json_defs)

lemma sending_state:
  obtains y p t where "reaches sending_world [sending_event] y" "map_of (sv_pending (y_service y)) ''c'' = Some p"
    "Publisher.m_queue (sv_publisher (y_service y)) = [t]" "sv_registry (y_service y) = empty_registry"
    "p = \<lparr>ps_sender_user_id = 7, ps_sender_device_id = ''d'', ps_created_ms = 9, ps_has_seq = False, ps_seq = 0\<rparr>"
proof -
  let ?y0 = "system_start (\<lambda>_. new_OnlineConn 0 '''' None None 0 0) :: json system"
  have y0: "y_service ?y0 = demo_service" by (simp add: system_start_def demo_service_def)
  have W: "w_http sending_world = demo_http" "w_json sending_world = sending_json" "w_cfg sending_world = demo_conf"
    by (simp_all add: sending_world_def demo_world_def)
  have none: "Get 7 ''d'' (sv_registry demo_service) = None"
    by (simp add: demo_service_simps Get_def empty_registry_def)
  have len: "\<not> chat_max_text_content_bytes (m_chat demo_conf) < 2"
    by (simp add: demo_conf_def read_config_def default_vars_def)
  have media: "add_media sending_json JNull pl = Some pl" for pl
    by (simp add: add_media_def sending_json_def ref_json_def)
  obtain rc s where F: "handle demo_http sending_json demo_conf 0 9 False (demo_header ''d'') True ''M'' 10 demo_service = (rc, s)"
    by (rule prod.exhaust)
  have "admitted demo_conf 9 7 ''d'' demo_service = demo_service" "bucket_allows demo_conf 9 7 ''d'' demo_service"
    by (simp_all add: admitted_def bucket_allows_def none)
  with F have "(rc, s) = HandleMsgSend sending_json demo_conf 0 9 7 ''d'' (Some 10) False 0 demo_send
      (count_metric (IncWsIn ''msg.send'') demo_service)"
    by (simp add: handle_checks demo_header_reads sending_parses dispatch_frame_def)
  then have "map_of (sv_pending s) ''c'' = Some \<lparr>ps_sender_user_id = 7, ps_sender_device_id = ''d'', ps_created_ms = 9,
      ps_has_seq = False, ps_seq = 0\<rparr> \<and> (\<exists>t. Publisher.m_queue (sv_publisher s) = [t]) \<and> sv_registry s = empty_registry"
    using len
    by (auto simp: HandleMsgSend_def sending_reads Let_def media on_publisher_def Publisher.Publish_def demo_conf_limits
        demo_service_simps count_metric_def split: if_splits)
  moreover have "step sending_world sending_event ?y0 (?y0\<lparr>y_service := s\<rparr>)"
    by (rule step.frame_in) (simp add: W y0 F)
  ultimately show ?thesis using that reaches.step [OF reaches.start] by fastforce
qed

lemma sending_history:
  obtains y p t where "reaches sending_world [sending_event] y" "map_of (sv_pending (y_service y)) ''c'' = Some p"
    "Publisher.m_queue (sv_publisher (y_service y)) = [t]"
  by (rule sending_state)

end
