(* ===== verification/Pending.thy ===== *)
theory Pending
  imports Threads
begin

text \<open>
  The life of a pending send, from \<open>HandleMsgSend\<close> to the answer, however the threads interleave: which actions of
  the process can take the entry away or replace it. \<open>Races.failed_send_forgets_other\<close> and
  \<open>Ws_To_Mq.pending_overwritten\<close> are instances of the unwelcome ones; here it is shown that there are no more.
\<close>

section \<open>The actions that may end a pending send\<close>

text \<open>The message that an event hands to \<open>OnEnvelope\<close>, in the consumer's turn or late.\<close>

definition handles :: "('h, 'j) world \<Rightarrow> 'h event \<Rightarrow> 'j system \<Rightarrow> 'j Envelope \<Rightarrow> bool" where
  "handles W e y env \<longleftrightarrow>
     (case e of
        ConsumerTurn now_ms handler_ms still ready \<Rightarrow>
          received (w_amqp W) (w_json W) (m_rabbitmq (w_cfg W)) (consumer_view handler_ms y) env
      | LateHandler k now_ms \<Rightarrow> k < length (y_late y) \<and> env = y_late y ! k
      | _ \<Rightarrow> False)"

inductive may_end ::
  "('h, 'j) world \<Rightarrow> ('h, 'j) threads \<Rightarrow> 'j system \<Rightarrow> string \<Rightarrow> PendingSend \<Rightarrow> 'h action \<Rightarrow> bool" for W th y k p where
  too_old: "ps_created_ms p \<le> i64 (now_ms - i64 (chat_pending_send_ttl_seconds (m_chat (w_cfg W)) * 1000)) \<Longrightarrow>
    may_end W th y k p (Event (Timer now_ms))"
| answered: "handles W e y env \<Longrightarrow> env_type env = ''chat.msg.send'' \<Longrightarrow>
    read_ids (w_json W) (payload env) = Some (k, mid, sender) \<Longrightarrow> may_end W th y k p (Event e)"
| sent_again: "admitted_frame W e uid did frame now_ms \<Longrightarrow> cf_type frame = ''msg.send'' \<Longrightarrow>
    get_string (w_json W) (cf_data frame) ''clientMsgId'' = Some k \<Longrightarrow> may_end W th y k p (Event e)"
| put_again: "th i = SendPut iso_ms now_ms uid did session hs sq data \<Longrightarrow>
    get_string (w_json W) data ''clientMsgId'' = Some k \<Longrightarrow> may_end W th y k p (Resume i)"
| refused: "th i = SendForget k session hs sq \<Longrightarrow> may_end W th y k p (Resume i)"

section \<open>Events\<close>

lemma HandleMsgSend_lookup:
  assumes "HandleMsgSend J cfg iso_ms now uid did session has_seq seq data s = (rc, s')"
    and "get_string J data ''clientMsgId'' \<noteq> Some k"
  shows "map_of (sv_pending s') k = map_of (sv_pending s) k"
proof (cases "read_send J data")
  case None
  with assms show ?thesis by (simp add: HandleMsgSend_def)
next
  case (Some r)
  obtain cid conv content sent media where r: "r = (cid, conv, content, sent, media)" by (metis prod.exhaust)
  from Some r have "get_string J data ''clientMsgId'' = Some cid" by (auto simp: read_send_def split: bind_splits)
  with assms(2) have "k \<noteq> cid" by simp
  with assms(1) Some r show ?thesis
    by (auto simp: HandleMsgSend_def Let_def send_frame_state on_publisher_frame update_conv'
        split: if_splits option.splits prod.splits)
qed

lemma OnEnvelope_lookup:
  assumes "map_of (sv_pending (snd (OnEnvelope J now env s))) k \<noteq> map_of (sv_pending s) k"
  shows "env_type env = ''chat.msg.send'' \<and> (\<exists>mid sender. read_ids J (payload env) = Some (k, mid, sender))"
proof (cases "env_type env = ''chat.msg.send''")
  case False
  with assms show ?thesis by (simp add: OnEnvelope_is_audience deliver_frame)
next
  case True
  with assms show ?thesis
    by (auto simp: OnEnvelope_def OnChatMsgSend_pushes Let_def deliver_frame taken_frame split: option.splits if_splits)
qed

lemma Sweep_lookup:
  assumes "pending_wf s" "map_of (sv_pending s) k = Some p" "map_of (sv_pending (SweepPending cfg now s)) k \<noteq> Some p"
  shows "ps_created_ms p \<le> i64 (now - i64 (chat_pending_send_ttl_seconds (m_chat cfg) * 1000))"
proof (rule ccontr)
  assume "\<not> ?thesis"
  with assms(2) have "(k, p) \<in> set (sv_pending (SweepPending cfg now s))"
    by (auto simp: SweepPending_def Let_def dest: map_of_SomeD)
  moreover have "distinct (keys (sv_pending (SweepPending cfg now s)))"
    using Sweep_pending_wf [OF assms(1)] by (simp add: pending_wf_def)
  ultimately show False using assms(3) by simp
qed

lemma consumer_turn_lookup:
  assumes "system_inv W es y"
    and "Consumer.Run_iteration (w_amqp W) (w_json W) (m_rabbitmq (w_cfg W)) now_ms still ready
      (consumer_view handler_ms y) = Some c"
    and "map_of (sv_pending (y_service (set_consumer c y))) k \<noteq> map_of (sv_pending (y_service y)) k"
  shows "may_end W th y k p (Event (ConsumerTurn now_ms handler_ms still ready))"
proof -
  have pend: "sv_pending (y_service (set_consumer c y)) = sv_pending (snd (rest_of c))"
    by (simp add: set_consumer_def split: prod.split)
  have view: "rest_of (consumer_view handler_ms y) = (handler_ms, y_service y)"
    "m_handler (con_of (consumer_view handler_ms y)) \<in> {None, Some (mq_handler (w_json W))}"
    using assms(1) by (simp_all add: consumer_view_def system_inv_def)
  from iteration_rest(2) [OF assms(2)] assms(3) view obtain env met where
    "received (w_amqp W) (w_json W) (m_rabbitmq (w_cfg W)) (consumer_view handler_ms y) env"
    "rest_of c = snd (snd (mq_handler (w_json W) env (met, handler_ms, y_service y)))" by (auto simp: pend)
  with assms(3) OnEnvelope_lookup [of "w_json W" handler_ms env "(y_service y)\<lparr>sv_metrics := met\<rparr>" k] show ?thesis
    by (auto simp: pend mq_handler_state handles_def intro: may_end.answered)
qed

lemma late_handler_lookup:
  assumes "system_inv W es y" "j < length (y_late y)" "m_handler (y_consumer y) = Some h"
    and "run_handler h (y_late y ! j) (sv_metrics (y_service y), now_ms, y_service y) = (r, met, now', s)"
    and "map_of (sv_pending s) k \<noteq> map_of (sv_pending (y_service y)) k"
  shows "may_end W th y k p (Event (LateHandler j now_ms))"
proof -
  have "h = mq_handler (w_json W)" using assms(1,3) by (simp add: system_inv_def)
  with assms(4) have "sv_pending s = sv_pending (snd (OnEnvelope (w_json W) now_ms (y_late y ! j) (y_service y)))"
    by (auto simp: run_handler_def mq_handler_def case_prod_beta split: option.splits prod.splits)
  with assms(5) OnEnvelope_lookup [of "w_json W" now_ms "y_late y ! j" "y_service y" k] assms(2) show ?thesis
    by (auto simp: handles_def intro: may_end.answered)
qed

lemma onConnect_pending:
  assumes "onConnect H J K cfg now_s now_ms iso_ms iom header w s = (rc, header', s')"
  shows "sv_pending s' = sv_pending s"
  using assms
proof (cases rule: onConnect_cases)
  case (accepted claims did s1)
  obtain rep ev reg where A: "Add ((sv_heap s1)(sv_next s1 := new_OnlineConn (jc_user_id claims) did (Some w)
        iom now_ms (chat_frame_rate_limit_per_second (m_chat cfg)))) (Some (sv_next s1)) (max_devices cfg)
        (sv_registry s1) = (rep, ev, reg)" by (rule prod_cases3)
  from register_conn_state(5) [OF accepted(3) refl refl refl A] accepted(4) show ?thesis by auto
qed (simp_all add: auth_fail_state)

lemma step_lookup:
  assumes "step W e y y'" "system_inv W es y" "map_of (sv_pending (y_service y)) k = Some p"
    and "map_of (sv_pending (y_service y')) k \<noteq> Some p"
  shows "may_end W th y k p (Event e)"
  using assms(1)
proof (cases rule: step.cases)
  case (connect now_s now_ms iso_ms iom header w rc header' s)
  with onConnect_pending [OF connect(3)] assms(3,4) show ?thesis by simp
next
  case (closed header w rc s)
  with onClose_state(4) [OF closed(3)] assms(3,4) show ?thesis by simp
next
  case (frame_in iso_ms now_ms log_info header is_text msg w rc s)
  with assms(3,4) have "sv_pending s \<noteq> sv_pending (y_service y)" by auto
  from frame_in(3) this obtain frame s1 where f: "is_text" "header_uid (w_http W) header \<noteq> 0"
    "getHeader (w_http W) header ''$did'' \<noteq> []" "ParseClientFrame (w_json W) msg = Some (Inr frame)"
    "cf_type frame = ''msg.send''" "sv_pending s1 = sv_pending (y_service y)"
    "HandleMsgSend (w_json W) (w_cfg W) iso_ms now_ms (header_uid (w_http W) header)
       (getHeader (w_http W) header ''$did'') (Some w) (cf_has_seq frame) (cf_seq frame) (cf_data frame) s1 = (rc, s)"
    by (rule handle_pending)
  from HandleMsgSend_lookup [OF f(7), of k] f(6) assms(3,4) frame_in(2)
  have "get_string (w_json W) (cf_data frame) ''clientMsgId'' = Some k" by auto
  with f(1-5) show ?thesis unfolding frame_in(1) by (intro may_end.sent_again) (auto simp: admitted_frame_def)
next
  case (timer now_ms)
  have "pending_wf (y_service y)" using assms(2) service_wf_pending by (auto simp: system_inv_def)
  from Sweep_lookup [OF this assms(3), of "w_cfg W" now_ms] assms(4) show ?thesis
    unfolding timer(1) by (intro may_end.too_old) (simp add: timer(2) on_timer_state)
next
  case (run_scheduled j iom t)
  with run_task_state [of "(y_service y)\<lparr>sv_tasks := without j (sv_tasks (y_service y))\<rparr>" "w_http W" "w_json W" t] assms(3,4)
  show ?thesis by simp
next
  case publisher_turn
  with assms(3,4) show ?thesis by (simp add: set_publisher_def split: prod.splits)
next
  case (consumer_turn now_ms still ready handler_ms c)
  with consumer_turn_lookup [OF assms(2) consumer_turn(3)] assms(3,4) show ?thesis by simp
next
  case (late_handler j h now_ms r met now' s)
  with late_handler_lookup [OF assms(2) late_handler(3-5)] assms(3,4) show ?thesis by simp
next
  case (start_mq iom ok)
  with mq_switch_state(4) [OF disjI1 [OF start_mq(2)]] assms(3,4) show ?thesis by simp
next
  case stop_mq
  with mq_switch_state(4) [OF disjI2 [OF stop_mq(2)]] assms(3,4) show ?thesis by simp
qed

section \<open>Sections\<close>

lemma enter_pending:
  assumes "enter W cb s = (k', s')"
  shows "sv_pending s' = sv_pending s"
  using assms
  by (cases cb)
    (auto simp: connect_read_def close_remove_def frame_lookup_def AllocFallbackDeviceId_def Let_def auth_fail_state
      send_frame_state split: option.splits sum.splits if_splits)

lemma section_lookup:
  assumes "section_step W (th i) (y_service y) = (k', s')" "map_of (sv_pending (y_service y)) k = Some p"
    and "map_of (sv_pending s') k \<noteq> Some p"
  shows "may_end W th y k p (Resume i)"
proof (cases "th i")
  case (ConnectTell rep ev claims did first iso_ms w)
  with assms connect_tell_state(5) [of W rep ev claims did first iso_ms w] have False by simp
  then show ?thesis ..
next
  case (FrameTouch uid did iso_ms now_ms log_info msg w)
  have quiet: "sv_pending (snd (dispatch_frame J cfg iso_ms now_ms log_info uid did w frame s)) = sv_pending s"
    if "cf_type frame \<noteq> ''msg.send''" "cf_type frame \<noteq> ''msg.ack''" for J cfg frame and s :: "'b service"
    using that by (auto simp: dispatch_frame_def Let_def HandleMsgRead_def count_metric_simps send_frame_state
        split: if_splits option.splits)
  from FrameTouch assms have False
    by (auto simp: frame_touch_def Let_def send_frame_state count_metric_simps quiet
        split: option.splits sum.splits if_splits)
  then show ?thesis ..
next
  case (SendPut iso_ms now_ms uid did session hs sq data)
  then show ?thesis
  proof (rule may_end.put_again)
    from SendPut assms show "get_string (w_json W) data ''clientMsgId'' = Some k"
      by (auto simp: send_put_def read_send_def Let_def send_frame_state update_conv'
          split: option.splits if_splits bind_splits)
  qed
next
  case (SendForget cid session hs sq)
  with assms have "cid = k" by (auto simp: send_forget_def send_frame_state split: if_splits)
  with SendForget show ?thesis by (auto intro: may_end.refused)
next
  case (AckPublish iso_ms uid session hs sq data)
  with assms have False by (auto simp: HandleMsgAck_frame(2) [OF surjective_pairing])
  then show ?thesis ..
qed (use assms in \<open>auto simp: connect_add_def frame_token_def announce_online_def announce_offline_def send_queue_def
      Let_def send_frame_state on_publisher_simps on_publisher_frame split: prod.splits if_splits\<close>)

lemma pending_step:
  assumes "world_ok W" "interleaves W es th y" "thread_step W a (th, y) (th', y')"
    and "map_of (sv_pending (y_service y)) k = Some p" "\<not> may_end W th y k p a"
  shows "map_of (sv_pending (y_service y')) k = Some p"
proof (rule ccontr)
  assume lost: "map_of (sv_pending (y_service y')) k \<noteq> Some p"
  have inv: "system_inv W es y" using interleaves_inv [OF assms(2,1)] by (simp add: threads_inv_def)
  have "may_end W th y k p a"
  proof (cases a)
    case (Event e)
    with assms(3) step_lookup [OF _ inv assms(4) lost] show ?thesis by (auto elim!: EventE)
  next
    case (Enter i cb)
    with assms(3,4) enter_pending lost show ?thesis by (fastforce elim!: EnterE)
  next
    case (Resume i)
    with assms(3,4) section_lookup [OF _ assms(4)] lost show ?thesis by (auto elim!: ResumeE)
  qed
  with assms(5) show False ..
qed

section \<open>The theorem\<close>

text \<open>
  C6. A send that is pending stays pending, unchanged, until one of five things happens, however the threads
  interleave: the sweep finds it older than its time to live; a stored message with its client id arrives
  from the broker; a frame with the same client id is handled; a thread that handles such a frame stores its
  own entry; or a thread whose send under that id was refused by the queue withdraws it. No other
  callback, closure, tick or turn of a broker thread touches it.
\<close>

theorem pending_stays:
  assumes "world_ok W" "interleaves W es th y" "thread_step W a (th, y) (th', y')"
    and "map_of (sv_pending (y_service y)) k = Some p" "\<not> may_end W th y k p a"
  shows "map_of (sv_pending (y_service y')) k = Some p"
  by (rule pending_step [OF assms])

section \<open>Example\<close>

inductive_cases publisher_ends: "may_end W th y k p (Event (PublisherTurn rand_bytes now_ms))"

theorem pending_stays_witness:
  "\<exists>th y th' y' p. thread_step sending_world (Event (PublisherTurn None 12)) (th, y) (th', y') \<and>
     map_of (sv_pending (y_service y)) ''c'' = Some p \<and> map_of (sv_pending (y_service y')) ''c'' = Some p"
proof -
  obtain y p t where y: "reaches sending_world [sending_event] y" "map_of (sv_pending (y_service y)) ''c'' = Some p"
    "Publisher.m_queue (sv_publisher (y_service y)) = [t]" by (rule sending_history)
  let ?a = "Event (PublisherTurn None 12) :: (string \<times> string) list action"
  obtain y' where s: "thread_step sending_world ?a ((\<lambda>i. Idle), y) ((\<lambda>i. Idle), y')"
    using thread_step.event [OF step.publisher_turn] by blast
  have "\<not> may_end sending_world (\<lambda>i. Idle) y ''c'' p ?a"
    by (auto simp: handles_def admitted_frame_def elim: publisher_ends)
  from pending_stays [OF sending_world_ok reaches_interleaves [OF y(1)] s y(2) this] s y(2) show ?thesis by blast
qed

end
