(* ===== verification/Answers.thy ===== *)
theory Answers
  imports Pending
begin

text \<open>
  From a pending send to its answer: a stretch of the process in which nothing ends the send, any number of
  actions long, and the stored message that then arrives from the broker.
\<close>

section \<open>Undisturbed stretches\<close>

inductive undisturbed ::
  "('h, 'j) world \<Rightarrow> string \<Rightarrow> PendingSend \<Rightarrow> ('h, 'j) threads \<times> 'j system \<Rightarrow> ('h, 'j) threads \<times> 'j system \<Rightarrow> bool"
  for W k p x where
  now: "undisturbed W k p x x"
| later: "undisturbed W k p x (th, y) \<Longrightarrow> thread_step W a (th, y) x' \<Longrightarrow> \<not> may_end W th y k p a \<Longrightarrow>
    undisturbed W k p x x'"

text \<open>At the end of such a stretch the send is still pending, in a state that the process can reach.\<close>

lemma undisturbed_stays:
  assumes "undisturbed W k p (th, y) (th', y')" "world_ok W" "interleaves W es th y"
    and "map_of (sv_pending (y_service y)) k = Some p"
  shows "(\<exists>es'. interleaves W es' th' y') \<and> map_of (sv_pending (y_service y')) k = Some p"
  using assms(1)
proof (induction "(th', y')" arbitrary: th' y' rule: undisturbed.induct)
  case now
  with assms(3,4) show ?case by blast
next
  case (later th1 y1 a)
  then obtain es1 where es1: "interleaves W es1 th1 y1" and p: "map_of (sv_pending (y_service y1)) k = Some p" by blast
  from interleaves.act [OF es1] pending_step [OF assms(2) es1 _ p] later(3,4) show ?case by blast
qed

section \<open>The answer\<close>

text \<open>
  C2. A client's send is answered. Let a send be pending in a state that some interleaving of the threads
  reaches, and let any number of actions follow of which none ends it. When the backend's stored message with
  its client id and its sender is handled then, the device that sent is sent, once the scheduled closures have
  run, the answer 200 with the stored message's id and the very sequence number of the client's frame, and the
  send is no longer pending. The device need not have been connected all the time; whatever connection it has by
  then gets the answer.
\<close>

theorem send_answered:
  assumes "world_ok W" "interleaves W es th y" "map_of (sv_pending (y_service y)) k = Some p"
    and "undisturbed W k p (th, y) (th', y')"
    and "env_type env = ''chat.msg.send''" "read_ids (w_json W) (payload env) = Some (k, mid, ps_sender_user_id p)"
    and "OnEnvelope (w_json W) now env (y_service y') = (r, s)"
    and "Get (ps_sender_user_id p) (ps_sender_device_id p) (sv_registry (y_service y')) = Some c"
    and "oc_session (sv_heap (y_service y') c) = Some w" "- (2 ^ 63) \<le> mid" "mid < 2 ^ 63"
  shows "map_of (sv_pending s) k = None \<and>
    (\<exists>resp. get_string (w_json W) resp ''clientMsgId'' = Some k \<and> get_int (w_json W) resp ''code'' = Some 200 \<and>
       get_int64 (w_json W) resp ''messageId'' = Some mid \<and>
       SendMessage w (frame_text (w_json W) ''msg.send.resp'' resp (ps_has_seq p) (ps_seq p)) \<in>
         set (sv_effects (drain (w_http W) (w_json W) s)))"
proof -
  obtain es' where es': "interleaves W es' th' y'" and p: "map_of (sv_pending (y_service y')) k = Some p"
    using undisturbed_stays [OF assms(4,1-3)] by blast
  have wf: "service_wf (w_cfg W) (y_service y')"
    using interleaves_inv [OF es' assms(1)] by (simp add: threads_inv_def system_inv_def)
  have "map_of (sv_pending s) k = None"
    using assms(5-7) by (auto simp: OnEnvelope_def OnChatMsgSend_pushes Let_def deliver_frame taken_frame split: option.splits)
  moreover have "registry_wf (sv_heap (y_service y')) (max_devices (w_cfg W)) (sv_registry (y_service y'))"
    using wf by (simp add: service_wf_def)
  moreover have "json_laws (w_json W)" using assms(1) by (simp add: world_ok_def)
  ultimately show ?thesis
    using sender_reached [OF assms(6,5,7) p assms(8,9) _ _ assms(10,11), of _ "w_http W"] by auto
qed

section \<open>Example\<close>

text \<open>User 7 sends, logs in again on session 20, and is answered there.\<close>

lemma sending_verify:
  "Verify sending_json demo_crypto (m_jwt demo_conf) 150 (ExtractToken demo_http demo_request) = Some (Inr demo_claims)"
  unfolding Verify_iff [OF demo_memcmp] demo_token demo_conf_limits sending_json_def by (rule table_accepted) simp_all

inductive_cases login_ends: "may_end W th y k p (Event (Connected now_s now_ms iso_ms iom header w))"

lemma sent_and_back:
  obtains es y y' p c where "interleaves sending_world es (\<lambda>i. Idle) y" "map_of (sv_pending (y_service y)) ''c'' = Some p"
    "undisturbed sending_world ''c'' p ((\<lambda>i. Idle), y) ((\<lambda>i. Idle), y')"
    "p = \<lparr>ps_sender_user_id = 7, ps_sender_device_id = ''d'', ps_created_ms = 9, ps_has_seq = False, ps_seq = 0\<rparr>"
    "Get 7 ''d'' (sv_registry (y_service y')) = Some c"
    "oc_session (sv_heap (y_service y') c) = Some 20"
proof -
  let ?W = sending_world
  have W: "w_http ?W = demo_http" "w_json ?W = sending_json" "w_crypto ?W = demo_crypto" "w_cfg ?W = demo_conf"
    by (simp_all add: sending_world_def demo_world_def)
  obtain y p t where y: "reaches ?W [sending_event] y" "map_of (sv_pending (y_service y)) ''c'' = Some p"
    "sv_registry (y_service y) = empty_registry"
    "p = \<lparr>ps_sender_user_id = 7, ps_sender_device_id = ''d'', ps_created_ms = 9, ps_has_seq = False, ps_seq = 0\<rparr>"
    by (rule sending_state)
  note i = reaches_interleaves [OF y(1)]
  have wf: "service_wf demo_conf (y_service y)"
    using interleaves_inv [OF i sending_world_ok] by (simp add: threads_inv_def system_inv_def W)
  obtain rc h s where "onConnect demo_http sending_json demo_crypto demo_conf 150 1000 0 (Some 1) demo_request 20
      (y_service y) = (rc, h, s)" by (rule prod_cases3)
  then have C: "onConnect demo_http sending_json demo_crypto demo_conf 150 1000 0 (Some 1) demo_request 20
      (y_service y) = (Some 0, h, s)"
    using sending_verify
    by (auto simp: onConnect_def Let_def demo_token demo_claims_def register_conn_def case_prod_beta)
  have "1 \<le> max_devices demo_conf" by (simp add: demo_conf_limits)
  from onConnect_result [OF demo_memcmp demo_http_laws wf this C] y(3) obtain claims did c where
    claims: "token_accepted sending_json demo_crypto (m_jwt demo_conf) 150 (ExtractToken demo_http demo_request) claims"
      "jc_device_id claims \<noteq> [] \<longrightarrow> did = jc_device_id claims"
    and c: "Get (jc_user_id claims) did (sv_registry s) = Some c" "oc_session (sv_heap s c) = Some 20"
    by (auto simp: Get_def empty_registry_def)
  from claims sending_verify have "jc_user_id claims = 7" "did = ''d''"
    by (auto simp: Verify_iff [OF demo_memcmp, symmetric] demo_claims_def)
  moreover have "undisturbed ?W ''c'' p ((\<lambda>i. Idle), y) ((\<lambda>i. Idle), y\<lparr>y_service := s\<rparr>)"
    using C by (intro undisturbed.later [OF undisturbed.now thread_step.event [OF step.connect]])
      (auto simp: W handles_def admitted_frame_def elim: login_ends)
  ultimately show ?thesis using that [OF i y(2)] y(4) c by simp
qed

definition answer_envelope :: "json Envelope" where
  "answer_envelope = (demo_stored JNull)\<lparr>payload :=
     JObj [(''clientMsgId'', JStr ''c''), (''messageId'', JInt 33), (''senderId'', JInt 7)]\<rparr>"

theorem send_answered_witness:
  "\<exists>(s :: json service) resp. map_of (sv_pending s) ''c'' = None \<and>
     get_int64 sending_json resp ''messageId'' = Some 33 \<and>
     SendMessage 20 (frame_text sending_json ''msg.send.resp'' resp False 0) \<in>
       set (sv_effects (drain demo_http sending_json s))"
proof -
  obtain es y y' p c where h: "interleaves sending_world es (\<lambda>i. Idle) y"
    "map_of (sv_pending (y_service y)) ''c'' = Some p"
    "undisturbed sending_world ''c'' p ((\<lambda>i. Idle), y) ((\<lambda>i. Idle), y')"
    and p: "p = \<lparr>ps_sender_user_id = 7, ps_sender_device_id = ''d'', ps_created_ms = 9, ps_has_seq = False, ps_seq = 0\<rparr>"
    and c: "Get 7 ''d'' (sv_registry (y_service y')) = Some c" "oc_session (sv_heap (y_service y') c) = Some 20"
    by (rule sent_and_back)
  have W: "w_json sending_world = sending_json" "w_http sending_world = demo_http"
    by (simp_all add: sending_world_def demo_world_def)
  have env: "env_type answer_envelope = ''chat.msg.send''"
    "read_ids (w_json sending_world) (payload answer_envelope) = Some (''c'', 33, ps_sender_user_id p)"
    by (simp_all add: answer_envelope_def demo_stored_def read_ids_def W sending_json_def ref_json_defs p)
  obtain r s where O: "OnEnvelope (w_json sending_world) 20 answer_envelope (y_service y') = (r, s)" by (rule prod.exhaust)
  from send_answered [OF sending_world_ok h env O, of c 20] c show ?thesis by (auto simp: W p)
qed

end
