(* ===== verification/Races.thy ===== *)
theory Races
  imports Threads
begin

text \<open>
  Interleavings of the sections of \<open>Sections\<close> after which the service has not done what each of its callbacks
  does alone: an offline announcement that comes late, and a refused send that withdraws another one.
\<close>

section \<open>Announcements out of order\<close>

text \<open>A user with no connection who logs in has one afterwards, and is announced.\<close>

lemma first_login:
  assumes "memcmp_law K" "service_wf cfg s" "1 \<le> max_devices cfg" "\<not> IsUserOnline uid (sv_registry s)"
    and "onConnect H J K cfg now_s now_ms iso_ms iom header w s = (Some 0, header', s')"
    and "Verify J K (m_jwt cfg) now_s (ExtractToken H header) = Some (Inr claims)" "jc_user_id claims = uid"
    and "length (Publisher.m_queue (sv_publisher s)) < queue_capacity (m_rabbitmq cfg)"
  shows "IsUserOnline uid (sv_registry s') \<and>
    Publisher.m_queue (sv_publisher s') = Publisher.m_queue (sv_publisher s) @ [presence_task J True uid]"
  using assms(5)
proof (cases rule: onConnect_cases)
  case (accepted claims' did s1)
  from accepted(2) assms(6,7) have u: "jc_user_id claims' = uid" by simp
  have uid0: "uid \<noteq> 0" using token_uid_nonzero Verify_iff [OF assms(1)] assms(6,7) by blast
  have s1: "sv_registry s1 = sv_registry s" "sv_publisher s1 = sv_publisher s" and wf1: "service_wf cfg s1"
    using accepted(4) assms(2) by (auto simp: service_wf_seq)
  obtain h rep ev reg where
    h: "h = (sv_heap s1)(sv_next s1 := new_OnlineConn uid did (Some w) iom now_ms
                              (chat_frame_rate_limit_per_second (m_chat cfg)))"
    and A: "Add h (Some (sv_next s1)) (max_devices cfg) (sv_registry s1) = (rep, ev, reg)"
    and wf: "registry_wf h (max_devices cfg) (sv_registry s1)" and wf': "service_wf cfg s'"
    by (rule register_conn_registers [OF accepted(3) wf1 assms(3), unfolded u, OF uid0])
  note st = register_conn_state [OF accepted(3) u [symmetric] refl h A]
  have hc: "oc_user_id (h (sv_next s1)) = uid" "oc_device_id (h (sv_next s1)) = did"
    by (simp_all add: h new_OnlineConn_def)
  have "GetByUser uid (sv_registry s1) = []" using assms(4) by (simp add: s1 IsUserOnline_def GetByUser_def split: option.splits)
  then have "Get uid did reg = Some (sv_next s1)" using Add_newest [OF wf assms(3) A] by (simp add: hc)
  then have "IsUserOnline uid (sv_registry s')" by (simp add: st(4) Get_def IsUserOnline_def split: option.splits)
  with st(8) assms(4,8) show ?thesis by (simp add: s1 presence_task_def)
qed simp_all

text \<open>
  C12. The offline announcement can be late. One thread closes the last session of a user and finds the user
  offline; before it announces that, another thread serves a new login of the same user from beginning
  to end. Then the online announcement is queued before the offline one: the user is connected, and
  the last that the broker hears is that the user is offline.
\<close>

theorem late_offline_announcement:
  assumes "world_ok W" "service_wf (w_cfg W) s" "uid \<noteq> 0" "did \<noteq> []"
    and "header_uid (w_http W) gone = uid" "getHeader (w_http W) gone ''$did'' = did"
    and "\<forall>d. d \<noteq> did \<longrightarrow> Get uid d (sv_registry s) = None"
    and "length (Publisher.m_queue (sv_publisher s)) + 2 \<le> queue_capacity (m_rabbitmq (w_cfg W))"
    and "enter W (Closing gone w1) s = (k1, s1)" "section_step W k1 s1 = (k2, s2)"
    and "onConnect (w_http W) (w_json W) (w_crypto W) (w_cfg W) now_s now_ms iso_ms iom header w2 s2
      = (Some 0, header', s3)"
    and "Verify (w_json W) (w_crypto W) (m_jwt (w_cfg W)) now_s (ExtractToken (w_http W) header) = Some (Inr claims)"
      "jc_user_id claims = uid"
    and "section_step W k2 s3 = (k3, s4)"
  shows "k3 = Idle \<and> IsUserOnline uid (sv_registry s4) \<and>
    Publisher.m_queue (sv_publisher s4) = Publisher.m_queue (sv_publisher s) @
      [presence_task (w_json W) True uid, presence_task (w_json W) False uid]"
proof -
  let ?q = "\<lambda>s. Publisher.m_queue (sv_publisher s)"
  have wf: "registry_wf (sv_heap s) (max_devices (w_cfg W)) (sv_registry s)" using assms(2) by (simp add: service_wf_def)
  have C: "close_remove W gone s = (k1, s1)" using assms(9) by simp
  with assms(3-6) have k1: "k1 = CloseCheck uid" "s1 = s\<lparr>sv_registry := snd (Remove uid did (sv_registry s))\<rparr>"
    by (simp_all add: close_remove_def Let_def)
  have off: "\<not> IsUserOnline uid (sv_registry s1)"
    using Remove_result [OF wf surjective_pairing, of uid did] assms(7) by (auto simp: k1(2))
  then have k2: "k2 = CloseAnnounce uid" "s2 = s1" using assms(10) by (simp_all add: k1(1))
  have wf1: "service_wf (w_cfg W) s1" by (rule guarantees_wf [OF remove_keeps [OF C assms(2)]])
  have mx: "1 \<le> max_devices (w_cfg W)"
    using assms(1) by (intro valid_max_devices(2)) (simp_all add: world_ok_def)
  have mem: "memcmp_law (w_crypto W)" using assms(1) by (simp add: world_ok_def)
  have "?q s1 = ?q s" by (simp add: k1(2))
  moreover from first_login [OF mem wf1 mx off assms(11) [unfolded k2(2)] assms(12,13)] assms(8)
  have "IsUserOnline uid (sv_registry s3)" "?q s3 = ?q s1 @ [presence_task (w_json W) True uid]"
    by (simp_all add: k1(2))
  moreover have "s4 = announce_offline W uid s3" "k3 = Idle" using assms(14) k2(1) by simp_all
  ultimately show ?thesis using announce_offline_state [of W uid s3] assms(8) by simp
qed

section \<open>A failed send withdraws another one\<close>

text \<open>
  Two connections send under the same client message id while the queue has one place left. The second
  one takes the place, and the first one, refused, erases the pending entry by that id, which is the
  second one's by now: the second message is on its way, and its answer will find no pending send.
\<close>

theorem failed_send_forgets_other:
  assumes "section_step W (SendPut iso1 now1 u1 d1 (Some w1) hs1 sq1 data1) s = (SendPublish cid pl1 (Some w1) hs1 sq1, s1)"
    and "section_step W (SendPut iso2 now2 u2 d2 (Some w2) hs2 sq2 data2) s1 = (SendPublish cid pl2 (Some w2) hs2 sq2, s2)"
    and "length (Publisher.m_queue (sv_publisher s)) + 1 = queue_capacity (m_rabbitmq (w_cfg W))"
    and "section_step W (SendPublish cid pl2 (Some w2) hs2 sq2) s2 = (k3, s3)"
    and "section_step W (SendPublish cid pl1 (Some w1) hs1 sq1) s3 = (k4, s4)"
    and "section_step W k4 s4 = (k5, s5)"
  shows "k3 = Idle \<and> map_of (sv_pending s3) cid =
      Some \<lparr>ps_sender_user_id = u2, ps_sender_device_id = d2, ps_created_ms = now2, ps_has_seq = hs2, ps_seq = sq2\<rparr> \<and>
    Publisher.m_queue (sv_publisher s5) = Publisher.m_queue (sv_publisher s) @
      [\<lparr>t_routing_key = ''business.msg.persist'', t_payload = pl2, t_priority = 0\<rparr>] \<and>
    TakePending cid s5 = (None, s5)"
proof -
  have put: "sv_publisher s' = sv_publisher s \<and> map_of (sv_pending s') cid = Some \<lparr>ps_sender_user_id = u,
      ps_sender_device_id = d, ps_created_ms = now, ps_has_seq = hs, ps_seq = sq\<rparr>"
    if "section_step W (SendPut iso now u d w hs sq data) s = (SendPublish cid pl w hs sq, s')" for iso now u d w hs sq data pl s s'
    using that by (auto simp: send_put_def Let_def split: option.splits if_splits)
  let ?q = "\<lambda>s. Publisher.m_queue (sv_publisher s)"
  have q2: "sv_publisher s2 = sv_publisher s" using put [OF assms(1)] put [OF assms(2)] by simp
  obtain ok3 where 3: "on_publisher (Publisher.Publish (m_rabbitmq (w_cfg W)) ''business.msg.persist'' pl2 0) s2 = (ok3, s3)"
    "k3 = (if ok3 then Idle else SendForget cid (Some w2) hs2 sq2)"
    using assms(4) by (auto simp: send_queue_def split: prod.splits)
  note p3 = Publish_on_service [OF 3(1)]
  have ok3: "ok3" using p3(1) assms(3) by (simp add: q2)
  obtain ok4 where 4: "on_publisher (Publisher.Publish (m_rabbitmq (w_cfg W)) ''business.msg.persist'' pl1 0) s3 = (ok4, s4)"
    "k4 = (if ok4 then Idle else SendForget cid (Some w1) hs1 sq1)"
    using assms(5) by (auto simp: send_queue_def split: prod.splits)
  note p4 = Publish_on_service [OF 4(1)]
  have ok4: "\<not> ok4" using p4(1) p3(2) ok3 assms(3) by (simp add: q2)
  with assms(6) 4(2) have s5: "s5 = send_forget W cid (Some w1) hs1 sq1 s4" by simp
  then have "map_of (sv_pending s5) cid = None" "sv_publisher s5 = sv_publisher s4"
    by (simp_all add: send_forget_def send_error_frame send_frame_perform perform_simps)
  moreover have "?q s4 = ?q s @ [\<lparr>t_routing_key = ''business.msg.persist'', t_payload = pl2, t_priority = 0\<rparr>]"
    using p4(2) p3(2) ok3 ok4 by (simp add: q2)
  moreover have "map_of (sv_pending s3) cid = Some \<lparr>ps_sender_user_id = u2, ps_sender_device_id = d2,
      ps_created_ms = now2, ps_has_seq = hs2, ps_seq = sq2\<rparr>" using put [OF assms(2)] p3(4) by simp
  ultimately show ?thesis using 3(2) ok3 by (simp add: TakePending_def)
qed

section \<open>Examples\<close>

lemma demo_again_wf: "service_wf demo_conf demo_again"
  by (auto simp: service_wf_def demo_again_def demo_service_simps demo_conf_limits pending_wf_def Get_def
      registry_wf_def devices_wf_def new_OnlineConn_def split: if_splits)

lemma demo_connects_anywhere:
  obtains h1 s1 where "onConnect demo_http demo_json demo_crypto demo_conf 150 1000 0 (Some 1) demo_request 10 s
    = (Some 0, h1, s1)"
proof -
  have "fst (onConnect demo_http demo_json demo_crypto demo_conf 150 1000 0 (Some 1) demo_request 10 s) = Some 0"
    using demo_verify
    by (simp add: onConnect_def Let_def demo_token demo_claims_def register_conn_def case_prod_beta)
  then show ?thesis by (metis prod_cases3 fst_conv that)
qed

theorem late_offline_announcement_witness:
  "\<exists>s :: json service. IsUserOnline 7 (sv_registry s) \<and>
     Publisher.m_queue (sv_publisher s) = [presence_task demo_json True 7, presence_task demo_json False 7]"
proof -
  let ?W = "demo_world"
  have W: "w_http ?W = demo_http" "w_json ?W = demo_json" "w_crypto ?W = demo_crypto" "w_cfg ?W = demo_conf"
    by (simp_all add: demo_world_def)
  obtain k1 s1 where E: "enter ?W (Closing (demo_header ''d'') 10) demo_again = (k1, s1)" by (rule prod.exhaust)
  obtain k2 s2 where S: "section_step ?W k1 s1 = (k2, s2)" by (rule prod.exhaust)
  obtain h3 s3 where C: "onConnect demo_http demo_json demo_crypto demo_conf 150 1000 0 (Some 1) demo_request 10 s2
    = (Some 0, h3, s3)" by (rule demo_connects_anywhere)
  obtain k3 s4 where T: "section_step ?W k2 s3 = (k3, s4)" by (rule prod.exhaust)
  have "\<forall>d. d \<noteq> ''d'' \<longrightarrow> Get 7 d (sv_registry demo_again) = None" by (simp add: Get_def demo_again_def)
  moreover have "Publisher.m_queue (sv_publisher demo_again) = []" by (simp add: demo_again_def demo_service_simps)
  moreover have "jc_user_id demo_claims = 7" by (simp add: demo_claims_def)
  ultimately show ?thesis
    using late_offline_announcement [OF demo_world_ok, of demo_again 7 "''d''" "demo_header ''d''" 10 k1 s1 k2 s2
        150 1000 0 "Some 1" demo_request 10 h3 s3 demo_claims k3 s4] E S C T demo_again_wf demo_verify
    by (auto simp: W demo_header_reads demo_conf_limits)
qed

text \<open>A queue of one place.\<close>

definition small_world :: "((string \<times> string) list, json) world" where
  "small_world = demo_world\<lparr>w_json := ref_json [],
     w_cfg := demo_cfg\<lparr>m_rabbitmq := (m_rabbitmq demo_cfg)\<lparr>mq_publisher_queue_capacity := 1\<rparr>\<rparr>\<rparr>"

lemma small_world_puts:
  obtains pl s' where "section_step small_world (SendPut 0 9 u d (Some w) True 3 demo_send) s = (SendPublish ''c'' pl (Some w) True 3, s')"
proof -
  have "w_json small_world = ref_json []" "chat_max_text_content_bytes (m_chat (w_cfg small_world)) > 2"
    by (simp_all add: small_world_def read_config_def default_vars_def)
  then show ?thesis
    using that by (simp add: send_put_def demo_read_send Let_def) (simp add: add_media_def ref_json_def)
qed

theorem failed_send_forgets_other_witness:
  "\<exists>(s :: json service) pl. length (Publisher.m_queue (sv_publisher s)) = 1 \<and>
     hd (Publisher.m_queue (sv_publisher s)) = \<lparr>t_routing_key = ''business.msg.persist'', t_payload = pl, t_priority = 0\<rparr> \<and>
     fst (TakePending ''c'' s) = None"
proof -
  let ?W = small_world
  obtain pl1 s1 where 1: "section_step ?W (SendPut 0 9 7 ''d'' (Some 1) True 3 demo_send) demo_service
    = (SendPublish ''c'' pl1 (Some 1) True 3, s1)" by (rule small_world_puts)
  obtain pl2 s2 where 2: "section_step ?W (SendPut 0 9 8 ''e'' (Some 2) True 3 demo_send) s1
    = (SendPublish ''c'' pl2 (Some 2) True 3, s2)" by (rule small_world_puts)
  obtain k3 s3 where 3: "section_step ?W (SendPublish ''c'' pl2 (Some 2) True 3) s2 = (k3, s3)" by (rule prod.exhaust)
  obtain k4 s4 where 4: "section_step ?W (SendPublish ''c'' pl1 (Some 1) True 3) s3 = (k4, s4)" by (rule prod.exhaust)
  obtain k5 s5 where 5: "section_step ?W k4 s4 = (k5, s5)" by (rule prod.exhaust)
  have q: "length (Publisher.m_queue (sv_publisher demo_service)) + 1 = queue_capacity (m_rabbitmq (w_cfg ?W))"
    by (simp add: small_world_def demo_service_simps queue_capacity_def)
  have "Publisher.m_queue (sv_publisher demo_service) = []" by (simp add: demo_service_simps)
  with failed_send_forgets_other [OF 1 2 q 3 4 5] show ?thesis by (intro exI [of _ s5] exI [of _ pl2]) simp
qed

end
