(* ===== verification/Presence.thy ===== *)
theory Presence
  imports Races
begin

text \<open>
  Who the broker believes to be online. \<open>onConnect\<close> announces a user whom it found offline, \<open>onClose\<close> one whom
  it left offline; here the announcements that enter the publisher's queue are followed through a whole
  history of events. As long as the callbacks are not interleaved and the queue has room for them, the
  last announcement of every user agrees with the registry; \<open>Races.late_offline_announcement\<close> is the
  interleaving that breaks it.
\<close>

section \<open>Announcements\<close>

text \<open>What a queued message says about the presence of a user.\<close>

definition announced :: "'j json_lib \<Rightarrow> 'j Task \<Rightarrow> (u64 \<times> bool) option" where
  "announced J t =
     (if t_routing_key t \<in> {''business.user.online'', ''business.user.offline''}
      then map_option (\<lambda>uid. (uid, t_routing_key t = ''business.user.online'')) (get_uint64 J (t_payload t) ''userId'')
      else None)"

definition hear :: "'j json_lib \<Rightarrow> u64 \<Rightarrow> 'j Task \<Rightarrow> bool \<Rightarrow> bool" where
  "hear J uid t known = (case announced J t of Some (u, online) \<Rightarrow> if u = uid then online else known | None \<Rightarrow> known)"

definition believed_online :: "'j json_lib \<Rightarrow> 'j Task list \<Rightarrow> u64 \<Rightarrow> bool" where
  "believed_online J log uid = fold (hear J uid) log False"

lemma announced_presence: "json_laws J \<Longrightarrow> announced J (presence_task J online uid) = Some (uid, online)"
  by (simp add: announced_def presence_task_def get_uint64_def json_set json_null json_conv)

lemma hear_presence: "json_laws J \<Longrightarrow> hear J uid (presence_task J online u) known = (if u = uid then online else known)"
  by (simp add: hear_def announced_presence)

lemma believed_append [simp]: "believed_online J (log @ ts) uid = fold (hear J uid) ts (believed_online J log uid)"
  by (simp add: believed_online_def)

section \<open>Histories with their announcements\<close>

definition out_queue :: "'j system \<Rightarrow> 'j Task list" where
  "out_queue y = Publisher.m_queue (sv_publisher (y_service y))"

text \<open>The messages that an event puts into the queue; only the publisher's turn takes one out.\<close>

definition entered :: "'h event \<Rightarrow> 'j system \<Rightarrow> 'j system \<Rightarrow> 'j Task list" where
  "entered e y y' = (case e of PublisherTurn _ _ \<Rightarrow> [] | _ \<Rightarrow> drop (length (out_queue y)) (out_queue y'))"

definition has_room :: "('h, 'j) world \<Rightarrow> 'h event \<Rightarrow> 'j system \<Rightarrow> bool" where
  "has_room W e y \<longleftrightarrow>
     (case e of Connected _ _ _ _ _ _ \<Rightarrow> length (out_queue y) < queue_capacity (m_rabbitmq (w_cfg W))
      | Closed _ _ \<Rightarrow> length (out_queue y) < queue_capacity (m_rabbitmq (w_cfg W)) | _ \<Rightarrow> True)"

inductive logged :: "('h, 'j) world \<Rightarrow> 'h event list \<Rightarrow> 'j system \<Rightarrow> 'j Task list \<Rightarrow> bool" for W where
  start: "logged W [] (system_start h) []"
| step: "logged W es y log \<Longrightarrow> step W e y y' \<Longrightarrow> has_room W e y \<Longrightarrow> logged W (e # es) y' (log @ entered e y y')"

lemma logged_reaches: "logged W es y log \<Longrightarrow> reaches W es y"
  by (induction rule: logged.induct) (auto intro: reaches.intros)

section \<open>The events\<close>

text \<open>An event that leaves the registry alone and announces nothing.\<close>

definition silent :: "'j json_lib \<Rightarrow> 'h event \<Rightarrow> 'j system \<Rightarrow> 'j system \<Rightarrow> bool" where
  "silent J e y y' \<longleftrightarrow> sv_registry (y_service y') = sv_registry (y_service y) \<and>
     (\<forall>t \<in> set (entered e y y'). announced J t = None)"

lemma silent_keeps:
  assumes "silent J e y y'"
  shows "believed_online J (log @ entered e y y') uid = believed_online J log uid"
    "IsUserOnline uid (sv_registry (y_service y')) = IsUserOnline uid (sv_registry (y_service y))"
proof -
  have "fold (hear J uid) ts b = b" if "\<forall>t \<in> set ts. announced J t = None" for ts b
    using that by (induction ts arbitrary: b) (simp_all add: hear_def)
  with assms show "believed_online J (log @ entered e y y') uid = believed_online J log uid"
    by (simp add: silent_def)
  show "IsUserOnline uid (sv_registry (y_service y')) = IsUserOnline uid (sv_registry (y_service y))"
    using assms by (simp add: silent_def)
qed

lemma same_queue_silent:
  assumes "sv_registry (y_service y') = sv_registry (y_service y)" "out_queue y' = out_queue y"
  shows "silent J e y y'"
  using assms by (simp add: silent_def entered_def split: event.split)

lemma Add_online:
  assumes "registry_wf h mx r" "1 \<le> mx" "Add h (Some c) mx r = (rep, ev, r')"
  shows "IsUserOnline uid r' \<longleftrightarrow> uid = oc_user_id (h c) \<or> IsUserOnline uid r"
proof (rule Add_unfold [OF assms])
  fix m'
  assume "\<And>u. devices r' u = (if u = oc_user_id (h c) then m' else devices r u)"
    "devices_wf h mx (oc_user_id (h c)) m'" "registry_wf h mx r'"
  then show ?thesis by (auto simp: IsUserOnline_devices [OF assms(1)] IsUserOnline_devices devices_wf_def)
qed

lemma OnEnvelope_registry: "sv_registry (snd (OnEnvelope J now env s)) = sv_registry s"
proof -
  obtain ps s1 where "snd (OnEnvelope J now env s) = deliver J ps s1"
    "s1 = s \<or> (\<exists>cid. s1 = taken cid now s)" by (rule OnEnvelope_pushes)
  then show ?thesis by (auto simp: deliver_frame taken_frame)
qed

interpretation registry_kept: consumer_handler "mq_handler J" "\<lambda>r. sv_registry (snd r) = reg \<and> sv_publisher (snd r) = pub"
  for J reg pub
  by unfold_locales (clarsimp simp: mq_handler_state OnEnvelope_keeps OnEnvelope_registry)

lemma consumer_turn_silent:
  assumes "system_inv W es y"
    and "Consumer.Run_iteration (w_amqp W) (w_json W) (m_rabbitmq (w_cfg W)) now_ms still ready
      (consumer_view handler_ms y) = Some c"
  shows "silent J e y (set_consumer c y)"
proof -
  have "MqConsumer.m_handler (con_of (consumer_view handler_ms y)) \<in> {None, Some (mq_handler (w_json W))}"
    using assms(1) by (simp add: system_inv_def consumer_view_def)
  from registry_kept.iteration_keeps(2) [OF assms(2) this, of "sv_registry (y_service y)" "sv_publisher (y_service y)"]
  have "sv_registry (snd (rest_of c)) = sv_registry (y_service y)" "sv_publisher (snd (rest_of c)) = sv_publisher (y_service y)"
    by (simp_all add: consumer_view_def)
  then show ?thesis
    by (intro same_queue_silent) (auto simp: out_queue_def set_consumer_def split: prod.split)
qed

lemma late_handler_silent:
  assumes "system_inv W es y" "MqConsumer.m_handler (y_consumer y) = Some h"
    and "run_handler h env (sv_metrics (y_service y), now_ms, y_service y) = (r, met, now', s)"
  shows "silent J e y (y\<lparr>y_service := s\<lparr>sv_metrics := met\<rparr>, y_late := late\<rparr>)"
proof -
  have "h = mq_handler (w_json W)" using assms(1,2) by (simp add: system_inv_def)
  from registry_kept.late_keeps [OF _ assms(3) [unfolded this], of "sv_registry (y_service y)" "sv_publisher (y_service y)"]
  show ?thesis by (intro same_queue_silent) (simp_all add: out_queue_def)
qed

lemma frame_silent:
  assumes "json_laws J" "handle H J cfg iso_ms now log_info header is_text msg w (y_service y) = (rc, s)"
  shows "silent J (FrameIn a b l h x m v) y (y\<lparr>y_service := s\<rparr>)"
proof -
  from handle_effect [OF assms] have q: "queues_own J cfg (header_uid H header) (y_service y) s"
    and reg: "sv_registry s = sv_registry (y_service y)" by blast+
  have "announced J t = None" if "own_message J u t" for t u
    using that by (auto simp: own_message_def announced_def)
  with q reg show ?thesis by (auto simp: silent_def entered_def out_queue_def queues_own_def)
qed

lemma quiet_connect:
  assumes "sv_registry s = sv_registry (y_service y)" "sv_publisher s = sv_publisher (y_service y)"
  shows "silent J e y (y\<lparr>y_service := s\<rparr>)"
  using assms by (intro same_queue_silent) (simp_all add: out_queue_def)

lemma connect_believed:
  assumes "world_ok W" "system_inv W es y"
    and "onConnect (w_http W) (w_json W) (w_crypto W) (w_cfg W) now_s now_ms iso_ms iom header w (y_service y)
      = (rc, header', s)"
    and "has_room W (Connected now_s now_ms iso_ms iom header w) y"
    and "\<And>uid. believed_online (w_json W) log uid \<longleftrightarrow> IsUserOnline uid (sv_registry (y_service y))"
  shows "believed_online (w_json W) (log @ entered (Connected now_s now_ms iso_ms iom header w) y (y\<lparr>y_service := s\<rparr>)) uid
    \<longleftrightarrow> IsUserOnline uid (sv_registry s)"
  using assms(3)
proof (cases rule: onConnect_cases)
  case thrown
  then have "silent (w_json W) e y (y\<lparr>y_service := s\<rparr>)" for e by (intro quiet_connect) simp_all
  from silent_keeps(1) [OF this, where log = log and uid = uid] silent_keeps(2) [OF this, where uid = uid] assms(5) show ?thesis by simp
next
  case (refused err)
  then have "silent (w_json W) e y (y\<lparr>y_service := s\<rparr>)" for e by (intro quiet_connect) (simp_all add: auth_fail_state)
  from silent_keeps(1) [OF this, where log = log and uid = uid] silent_keeps(2) [OF this, where uid = uid] assms(5) show ?thesis by simp
next
  case (accepted claims did s1)
  let ?u = "jc_user_id claims" and ?J = "w_json W"
  have W: "memcmp_law (w_crypto W)" "json_laws ?J" "1 \<le> max_devices (w_cfg W)"
    using assms(1) valid_max_devices [of "w_cfg W"] by (simp_all add: world_ok_def)
  have uid0: "?u \<noteq> 0" using token_uid_nonzero Verify_iff [OF W(1)] accepted(2) by blast
  have s1: "sv_registry s1 = sv_registry (y_service y)" "sv_publisher s1 = sv_publisher (y_service y)"
    and wf1: "service_wf (w_cfg W) s1"
    using accepted(4) assms(2) by (auto simp: service_wf_seq system_inv_def)
  obtain h rep ev reg where
    h: "h = (sv_heap s1)(sv_next s1 := new_OnlineConn ?u did (Some w) iom now_ms
                              (chat_frame_rate_limit_per_second (m_chat (w_cfg W))))"
    and A: "Add h (Some (sv_next s1)) (max_devices (w_cfg W)) (sv_registry s1) = (rep, ev, reg)"
    and wf: "registry_wf h (max_devices (w_cfg W)) (sv_registry s1)"
    by (rule register_conn_registers [OF accepted(3) wf1 W(3) uid0])
  note st = register_conn_state [OF accepted(3) refl refl h A]
  have "oc_user_id (h (sv_next s1)) = ?u" by (simp add: h new_OnlineConn_def)
  with Add_online [OF wf W(3) A] have "IsUserOnline uid (sv_registry s) \<longleftrightarrow> uid = ?u \<or> IsUserOnline uid (sv_registry (y_service y))"
    by (simp add: st(4) s1)
  moreover have "entered (Connected now_s now_ms iso_ms iom header w) y (y\<lparr>y_service := s\<rparr>) =
      (if IsUserOnline ?u (sv_registry (y_service y)) then [] else [presence_task ?J True ?u])"
    using assms(4) by (simp add: entered_def out_queue_def st(8) s1 has_room_def presence_task_def)
  ultimately show ?thesis using assms(5) by (auto simp: hear_presence [OF W(2)])
qed

lemma close_believed:
  assumes "json_laws (w_json W)" "service_wf (w_cfg W) (y_service y)"
    and "onClose (w_http W) (w_json W) (w_cfg W) header w (y_service y) = (rc, s)"
    and "has_room W (Closed header w) y"
    and "\<And>uid. believed_online (w_json W) log uid \<longleftrightarrow> IsUserOnline uid (sv_registry (y_service y))"
  shows "believed_online (w_json W) (log @ entered (Closed header w) y (y\<lparr>y_service := s\<rparr>)) uid
    \<longleftrightarrow> IsUserOnline uid (sv_registry s)"
proof -
  let ?u = "header_uid (w_http W) header" and ?d = "getHeader (w_http W) header ''$did''" and ?J = "w_json W"
  note st = onClose_state [OF assms(3)]
  have wf: "registry_wf (sv_heap (y_service y)) (max_devices (w_cfg W)) (sv_registry (y_service y))"
    using assms(2) by (simp add: service_wf_def)
  have other: "IsUserOnline u (snd (Remove uid did r)) = IsUserOnline u r"
    if "u \<noteq> uid" "registry_wf h mx r" for u uid did r h mx
    using that Remove_wf [OF that(2), of uid did] by (simp add: IsUserOnline_devices Remove_devices)
  show ?thesis
  proof (cases "?u = 0 \<or> ?d = []")
    case True
    then have "entered (Closed header w) y (y\<lparr>y_service := s\<rparr>) = []" "sv_registry s = sv_registry (y_service y)"
      by (auto simp: entered_def out_queue_def st(7,8))
    with assms(5) show ?thesis by simp
  next
    case False
    then have "entered (Closed header w) y (y\<lparr>y_service := s\<rparr>) =
        (if IsUserOnline ?u (sv_registry s) then [] else [presence_task ?J False ?u])"
      using assms(4) by (auto simp: entered_def out_queue_def st(8) has_room_def presence_task_def)
    moreover have "IsUserOnline uid (sv_registry s) = IsUserOnline uid (sv_registry (y_service y))" if "uid \<noteq> ?u"
      using other [OF that wf] False by (simp add: st(7))
    moreover have "IsUserOnline ?u (sv_registry (y_service y))" if "IsUserOnline ?u (sv_registry s)"
      using Remove_result [OF wf surjective_pairing, of ?u ?d] that False
      by (auto simp: st(7) IsUserOnline_devices [OF wf] Get_devices)
    ultimately show ?thesis using assms(5) by (cases "uid = ?u") (auto simp: hear_presence [OF assms(1)])
  qed
qed

lemma step_believed:
  assumes "world_ok W" "step W e y y'" "system_inv W es y" "has_room W e y"
    and "\<And>uid. believed_online (w_json W) log uid \<longleftrightarrow> IsUserOnline uid (sv_registry (y_service y))"
  shows "believed_online (w_json W) (log @ entered e y y') uid \<longleftrightarrow> IsUserOnline uid (sv_registry (y_service y'))"
proof -
  have J: "json_laws (w_json W)" using assms(1) by (simp add: world_ok_def)
  have silent: ?thesis if "silent (w_json W) e y y'"
    using silent_keeps(1) [OF that, of log uid] silent_keeps(2) [OF that, of uid] assms(5) by simp
  from assms(2) show ?thesis
  proof (cases rule: step.cases)
    case (connect now_s now_ms iso_ms iom header w rc header' s)
    with connect_believed [OF assms(1,3) connect(3) _ assms(5)] assms(4) show ?thesis by simp
  next
    case (closed header w rc s)
    have "service_wf (w_cfg W) (y_service y)" using assms(3) by (simp add: system_inv_def)
    with close_believed [OF J _ closed(3) _ assms(5)] closed assms(4) show ?thesis by simp
  next
    case (frame_in iso_ms now_ms log_info header is_text msg w rc s)
    from frame_silent [OF J frame_in(3)] show ?thesis by (intro silent) (simp add: frame_in(1,2))
  next
    case (timer now_ms)
    then have "silent (w_json W) e y y'" by (intro same_queue_silent) (simp_all add: on_timer_state out_queue_def)
    then show ?thesis by (rule silent)
  next
    case (run_scheduled k iom t)
    then have "silent (w_json W) e y y'"
      using run_task_state [of "(y_service y)\<lparr>sv_tasks := without k (sv_tasks (y_service y))\<rparr>" "w_http W" "w_json W" t]
      by (intro same_queue_silent) (simp_all add: keeps_conns_def out_queue_def)
    then show ?thesis by (rule silent)
  next
    case (publisher_turn rand_bytes now_ms)
    then have "silent (w_json W) e y y'"
      by (simp add: silent_def entered_def set_publisher_def split: prod.split)
    then show ?thesis by (rule silent)
  next
    case (consumer_turn now_ms still ready handler_ms c)
    from consumer_turn_silent [OF assms(3) consumer_turn(3)] show ?thesis by (intro silent) (simp add: consumer_turn(2))
  next
    case (late_handler k h now_ms r met now' s)
    from late_handler_silent [OF assms(3) late_handler(4,5)] show ?thesis by (intro silent) (simp add: late_handler(2))
  next
    case (start_mq iom ok)
    from mq_switch_state(1,5) [OF disjI1 [OF start_mq(2)]] have "silent (w_json W) e y y'"
      by (intro same_queue_silent) (simp_all add: out_queue_def)
    then show ?thesis by (rule silent)
  next
    case stop_mq
    from mq_switch_state(1,5) [OF disjI2 [OF stop_mq(2)]] have "silent (w_json W) e y y'"
      by (intro same_queue_silent) (simp_all add: out_queue_def)
    then show ?thesis by (rule silent)
  qed
qed

text \<open>
  C11. As long as callbacks run one at a time and the queue has room whenever a session connects or closes, the
  presence that the service announces is right: in every reachable state, the last announcement of a user
  that entered the queue is that the user is online exactly when the user has a connection.
\<close>

theorem presence_agrees:
  assumes "world_ok W" "logged W es y log"
  shows "believed_online (w_json W) log uid \<longleftrightarrow> IsUserOnline uid (sv_registry (y_service y))"
  using assms(2)
proof (induction arbitrary: uid rule: logged.induct)
  case (start h)
  show ?case
    by (simp add: believed_online_def system_start_def service_start_def empty_registry_def IsUserOnline_def)
next
  case (step es y log e y')
  from step_believed [OF assms(1) step.hyps(2) reaches_inv [OF logged_reaches [OF step.hyps(1)] assms(1)] step.hyps(3) step.IH]
  show ?case .
qed

theorem presence_agrees_witness:
  "\<exists>y log. logged demo_world [Connected 150 1000 0 (Some 1) demo_request 10] y log \<and> believed_online demo_json log 7"
proof -
  let ?y0 = "system_start (\<lambda>_. new_OnlineConn 0 '''' None None 0 0) :: json system"
  have W: "w_json demo_world = demo_json" by (simp add: demo_world_def)
  have y0: "y_service ?y0 = demo_service" by (simp add: system_start_def demo_service_def)
  obtain h1 s1 where C: "onConnect demo_http demo_json demo_crypto demo_conf 150 1000 0 (Some 1) demo_request 10
    demo_service = (Some 0, h1, s1)" by (rule demo_connects)
  then have st: "step demo_world (Connected 150 1000 0 (Some 1) demo_request 10) ?y0 (?y0\<lparr>y_service := s1\<rparr>)"
    by (intro step.connect) (simp add: demo_world_def y0)
  have room: "has_room demo_world (Connected 150 1000 0 (Some 1) demo_request 10) ?y0"
    by (simp add: has_room_def out_queue_def y0 demo_service_simps demo_world_def demo_conf_limits)
  note l = logged.step [OF logged.start st room]
  have "memcmp_law demo_crypto" "1 \<le> max_devices demo_conf" "service_wf demo_conf demo_service"
    by (simp_all add: demo_memcmp demo_conf_limits demo_service_wf)
  moreover have "\<not> IsUserOnline 7 (sv_registry demo_service)" "Publisher.m_queue (sv_publisher demo_service) = []"
    by (simp_all add: demo_service_simps empty_registry_def IsUserOnline_def)
  moreover have "jc_user_id demo_claims = 7" by (simp add: demo_claims_def)
  ultimately have "IsUserOnline 7 (sv_registry s1)"
    using first_login [OF _ _ _ _ C demo_verify] by (simp add: demo_conf_limits)
  with l presence_agrees [OF demo_world_ok l, of 7] show ?thesis by (auto simp: W)
qed

end
