(* ===== verification/Provenance.thy ===== *)
theory Provenance
  imports Pending
begin

text \<open>
  Where the service's outgoing data comes from, through a whole history of interleaved callbacks and events: every send that waits for
  an answer, and every message that waits for the broker, is traced back to the event that caused it.
  What a single callback guarantees (\<open>Chat_Servlet.handle_publishes_own\<close>, \<open>Ws_To_Mq.HandleMsgSend_spec\<close>) thereby
  holds of the queue and of the pending map as the other threads find them, after any number of other
  events.
\<close>

section \<open>Causes\<close>

text \<open>The pending send \<open>p\<close> under the id \<open>k\<close> is the one that the event asked for.\<close>

definition asked :: "('h, 'j) world \<Rightarrow> string \<Rightarrow> PendingSend \<Rightarrow> 'h event \<Rightarrow> bool" where
  "asked W k p e \<longleftrightarrow>
     (\<exists>frame. admitted_frame W e (ps_sender_user_id p) (ps_sender_device_id p) frame (ps_created_ms p) \<and>
        cf_type frame = ''msg.send'' \<and> get_string (w_json W) (cf_data frame) ''clientMsgId'' = Some k \<and>
        ps_has_seq p = cf_has_seq frame \<and> ps_seq p = cf_seq frame)"

text \<open>
  A message for the broker is a user's own message out of a frame of that user's session, or it announces the user
  of a login with a valid token, or the user of a session that closed.
\<close>

definition caused :: "('h, 'j) world \<Rightarrow> 'j Task \<Rightarrow> 'h event \<Rightarrow> bool" where
  "caused W t e \<longleftrightarrow>
     (\<exists>uid did frame now. admitted_frame W e uid did frame now \<and> own_message (w_json W) uid t) \<or>
     (\<exists>now_s now_ms iso_ms iom header w claims. e = Connected now_s now_ms iso_ms iom header w \<and>
        token_accepted (w_json W) (w_crypto W) (m_jwt (w_cfg W)) now_s (ExtractToken (w_http W) header) claims \<and>
        t = presence_task (w_json W) True (jc_user_id claims)) \<or>
     (\<exists>header w. e = Closed header w \<and> header_uid (w_http W) header \<noteq> 0 \<and>
        t = presence_task (w_json W) False (header_uid (w_http W) header))"

definition traced :: "('h, 'j) world \<Rightarrow> 'h event list \<Rightarrow> 'j service \<Rightarrow> bool" where
  "traced W es s \<longleftrightarrow>
     (\<forall>(k, p) \<in> set (sv_pending s). \<exists>e \<in> set es. asked W k p e) \<and>
     (\<forall>t \<in> set (Publisher.m_queue (sv_publisher s)). \<exists>e \<in> set es. caused W t e)"

text \<open>An event adds what it causes and nothing else.\<close>

definition adds_caused :: "('h, 'j) world \<Rightarrow> 'h event \<Rightarrow> 'j service \<Rightarrow> 'j service \<Rightarrow> bool" where
  "adds_caused W e s s' \<longleftrightarrow>
     (\<forall>(k, p) \<in> set (sv_pending s'). (k, p) \<in> set (sv_pending s) \<or> asked W k p e) \<and>
     (\<forall>t \<in> set (Publisher.m_queue (sv_publisher s')). t \<in> set (Publisher.m_queue (sv_publisher s)) \<or> caused W t e)"

lemma adds_caused_traced: "traced W es s \<Longrightarrow> adds_caused W e s s' \<Longrightarrow> traced W (e # es) s'"
  by (fastforce simp: traced_def adds_caused_def)

lemma adds_nothing:
  assumes "set (sv_pending s') \<subseteq> set (sv_pending s)"
    and "set (Publisher.m_queue (sv_publisher s')) \<subseteq> set (Publisher.m_queue (sv_publisher s))"
  shows "adds_caused W e s s'"
  using assms by (auto simp: adds_caused_def)

section \<open>The events\<close>

lemma set_update: "set (AList.update k v m) \<subseteq> insert (k, v) (set m)"
  by (induction m) auto

lemma HandleMsgSend_pending:
  assumes "HandleMsgSend J cfg iso_ms now uid did session has_seq seq data s = (rc, s')"
    and "(k, p) \<in> set (sv_pending s')"
  shows "(k, p) \<in> set (sv_pending s) \<or> get_string J data ''clientMsgId'' = Some k \<and>
    p = \<lparr>ps_sender_user_id = uid, ps_sender_device_id = did, ps_created_ms = now, ps_has_seq = has_seq, ps_seq = seq\<rparr>"
proof (cases "read_send J data")
  case None
  with assms show ?thesis by (simp add: HandleMsgSend_def)
next
  case (Some r)
  obtain cid conv content sent media where r: "r = (cid, conv, content, sent, media)" by (metis prod.exhaust)
  from Some r have cid: "get_string J data ''clientMsgId'' = Some cid" by (auto simp: read_send_def split: bind_splits)
  let ?p = "\<lparr>ps_sender_user_id = uid, ps_sender_device_id = did, ps_created_ms = now, ps_has_seq = has_seq, ps_seq = seq\<rparr>"
  have "set (sv_pending s') \<subseteq> insert (cid, ?p) (set (sv_pending s))"
    using assms(1) Some r set_update [of cid ?p "sv_pending s"]
    by (auto simp: HandleMsgSend_def Let_def send_frame_state on_publisher_frame set_delete
        split: if_splits option.splits prod.splits)
  with assms(2) cid show ?thesis by blast
qed

lemma frame_adds:
  assumes "json_laws (w_json W)"
    and "handle (w_http W) (w_json W) (w_cfg W) iso_ms now log_info header is_text msg w s = (rc, s')"
  shows "adds_caused W (FrameIn iso_ms now log_info header is_text msg w) s s'"
proof -
  let ?e = "FrameIn iso_ms now log_info header is_text msg w" and ?J = "w_json W"
  let ?u = "header_uid (w_http W) header" and ?d = "getHeader (w_http W) header ''$did''"
  from handle_effect [OF assms] have own: "queues_own ?J (w_cfg W) ?u s s'"
    and own_frame: "Publisher.m_queue (sv_publisher s') \<noteq> Publisher.m_queue (sv_publisher s) \<Longrightarrow>
      is_text \<and> ?u \<noteq> 0 \<and> ?d \<noteq> [] \<and> (\<exists>frame. ParseClientFrame ?J msg = Some (Inr frame))" by blast+
  have queue: "t \<in> set (Publisher.m_queue (sv_publisher s)) \<or> caused W t ?e"
    if "t \<in> set (Publisher.m_queue (sv_publisher s'))" for t
  proof (cases "Publisher.m_queue (sv_publisher s') = Publisher.m_queue (sv_publisher s)")
    case False
    with own that have "t \<in> set (Publisher.m_queue (sv_publisher s)) \<or> own_message ?J ?u t"
      by (auto simp: queues_own_def)
    with own_frame [OF False] show ?thesis by (auto simp: caused_def admitted_frame_def)
  qed (use that in simp)
  have pending: "(k, p) \<in> set (sv_pending s) \<or> asked W k p ?e" if kp: "(k, p) \<in> set (sv_pending s')" for k p
  proof (cases "sv_pending s' = sv_pending s")
    case False
    with assms(2) obtain frame s1 where f: "is_text" "?u \<noteq> 0" "?d \<noteq> []" "ParseClientFrame ?J msg = Some (Inr frame)"
      "cf_type frame = ''msg.send''" "sv_pending s1 = sv_pending s"
      "HandleMsgSend ?J (w_cfg W) iso_ms now ?u ?d (Some w) (cf_has_seq frame) (cf_seq frame) (cf_data frame) s1 = (rc, s')"
      by (rule handle_pending)
    from HandleMsgSend_pending [OF f(7) kp] f(1-6) show ?thesis by (auto simp: asked_def admitted_frame_def)
  qed (use kp in simp)
  show ?thesis using queue pending by (auto simp: adds_caused_def)
qed

lemma connect_adds:
  assumes "memcmp_law (w_crypto W)"
    and "onConnect (w_http W) (w_json W) (w_crypto W) (w_cfg W) now_s now_ms iso_ms iom header w s = (rc, header', s')"
  shows "adds_caused W (Connected now_s now_ms iso_ms iom header w) s s'"
  using assms(2)
proof (cases rule: onConnect_cases)
  case (accepted claims did s1)
  let ?h = "(sv_heap s1)(sv_next s1 := new_OnlineConn (jc_user_id claims) did (Some w) iom now_ms
    (chat_frame_rate_limit_per_second (m_chat (w_cfg W))))"
  have s1: "sv_pending s1 = sv_pending s" "sv_publisher s1 = sv_publisher s" using accepted(4) by auto
  obtain rep ev reg where A: "Add ?h (Some (sv_next s1)) (max_devices (w_cfg W)) (sv_registry s1) = (rep, ev, reg)"
    by (rule prod_cases3)
  note st = register_conn_state(5,8) [OF accepted(3) refl refl refl A]
  have "token_accepted (w_json W) (w_crypto W) (m_jwt (w_cfg W)) now_s (ExtractToken (w_http W) header) claims"
    using Verify_iff [OF assms(1)] accepted(2) by blast
  with st show ?thesis
    by (auto simp: adds_caused_def caused_def presence_task_def s1 split: if_splits)
qed (simp_all add: adds_nothing auth_fail_state)

lemma close_adds:
  assumes "onClose (w_http W) (w_json W) (w_cfg W) header w s = (rc, s')"
  shows "adds_caused W (Closed header w) s s'"
  using onClose_state(4,8) [OF assms]
  by (auto simp: adds_caused_def caused_def presence_task_def split: if_splits)

lemma publisher_turn_adds:
  "adds_caused W e (y_service y) (y_service (set_publisher (Publisher.Run_iteration (w_amqp W) (w_json W)
     (m_rabbitmq (w_cfg W)) rand_bytes now_ms (publisher_view y)) y))"
proof -
  obtain b pub met where P: "Publisher.Run_iteration (w_amqp W) (w_json W) (m_rabbitmq (w_cfg W)) rand_bytes now_ms
      (publisher_view y) = (b, pub, met)" by (rule prod_cases3)
  then have "set (Publisher.m_queue pub) \<subseteq> set (Publisher.m_queue (sv_publisher (y_service y)))"
    unfolding publisher_view_def
    by (cases rule: Run_iteration_cases) (auto dest: EnsureConnected_frame(1))
  then show ?thesis by (intro adds_nothing) (simp_all add: P set_publisher_def)
qed

interpretation nothing_added: consumer_handler "mq_handler J"
  "\<lambda>r. set (sv_pending (snd r)) \<subseteq> ks \<and> sv_publisher (snd r) = pub" for J ks pub
proof
  fix r :: "int \<times> 'a service" and env met
  assume r: "set (sv_pending (snd r)) \<subseteq> ks \<and> sv_publisher (snd r) = pub"
  obtain now s where rs: "r = (now, s)" by (cases r)
  obtain ps s1 where "snd (OnEnvelope J now env (s\<lparr>sv_metrics := met\<rparr>)) = deliver J ps s1"
    "s1 = s\<lparr>sv_metrics := met\<rparr> \<or> (\<exists>cid. s1 = taken cid now (s\<lparr>sv_metrics := met\<rparr>))" by (rule OnEnvelope_pushes)
  with r show "set (sv_pending (snd (snd (snd (mq_handler J env (met, r)))))) \<subseteq> ks \<and>
      sv_publisher (snd (snd (snd (mq_handler J env (met, r))))) = pub"
    by (auto simp: rs mq_handler_state deliver_frame taken_frame set_delete)
qed

lemma consumer_turn_adds:
  assumes "system_inv W es y"
    and "Consumer.Run_iteration (w_amqp W) (w_json W) (m_rabbitmq (w_cfg W)) now_ms still ready
      (consumer_view handler_ms y) = Some c"
  shows "adds_caused W e (y_service y) (y_service (set_consumer c y))"
proof -
  have "MqConsumer.m_handler (con_of (consumer_view handler_ms y)) \<in> {None, Some (mq_handler (w_json W))}"
    using assms(1) by (simp add: system_inv_def consumer_view_def)
  from nothing_added.iteration_keeps(2) [OF assms(2) this, of "set (sv_pending (y_service y))" "sv_publisher (y_service y)"]
  have "set (sv_pending (snd (rest_of c))) \<subseteq> set (sv_pending (y_service y))"
    "sv_publisher (snd (rest_of c)) = sv_publisher (y_service y)"
    by (simp_all add: consumer_view_def)
  then show ?thesis by (intro adds_nothing) (auto simp: set_consumer_def split: prod.splits)
qed

lemma late_handler_adds:
  assumes "system_inv W es y" "MqConsumer.m_handler (y_consumer y) = Some h"
    and "run_handler h env (sv_metrics (y_service y), now_ms, y_service y) = (r, met, now', s)"
  shows "adds_caused W e (y_service y) (s\<lparr>sv_metrics := met\<rparr>)"
proof -
  have "h = mq_handler (w_json W)" using assms(1,2) by (simp add: system_inv_def)
  from nothing_added.late_keeps [OF _ assms(3) [unfolded this], of "set (sv_pending (y_service y))" "sv_publisher (y_service y)"]
  show ?thesis by (intro adds_nothing) simp_all
qed

lemma step_adds:
  assumes "world_ok W" "step W e y y'" "system_inv W es y"
  shows "adds_caused W e (y_service y) (y_service y')"
proof -
  have W: "json_laws (w_json W)" "memcmp_law (w_crypto W)" using assms(1) by (simp_all add: world_ok_def)
  from assms(2) show ?thesis
  proof (cases rule: step.cases)
    case (connect now_s now_ms iso_ms iom header w rc header' s)
    with connect_adds [OF W(2) connect(3)] show ?thesis by simp
  next
    case (closed header w rc s)
    with close_adds [OF closed(3)] show ?thesis by simp
  next
    case (frame_in iso_ms now_ms log_info header is_text msg w rc s)
    with frame_adds [OF W(1) frame_in(3)] show ?thesis by simp
  next
    case (timer now_ms)
    then show ?thesis by (intro adds_nothing) (auto simp: on_timer_state SweepPending_def Let_def)
  next
    case (run_scheduled k iom t)
    with run_task_state [of "(y_service y)\<lparr>sv_tasks := without k (sv_tasks (y_service y))\<rparr>" "w_http W" "w_json W" t]
    show ?thesis by (intro adds_nothing) simp_all
  next
    case (publisher_turn rand_bytes now_ms)
    with publisher_turn_adds show ?thesis by simp
  next
    case (consumer_turn now_ms still ready handler_ms c)
    with consumer_turn_adds [OF assms(3) consumer_turn(3)] show ?thesis by simp
  next
    case (late_handler k h now_ms r met now' s)
    with late_handler_adds [OF assms(3) late_handler(4,5)] show ?thesis by simp
  next
    case (start_mq iom ok)
    from mq_switch_state(4,5) [OF disjI1 [OF start_mq(2)]] show ?thesis by (intro adds_nothing) simp_all
  next
    case stop_mq
    from mq_switch_state(4,5) [OF disjI2 [OF stop_mq(2)]] show ?thesis by (intro adds_nothing) simp_all
  qed
qed

section \<open>The sections of the callbacks\<close>

definition has_cause :: "('h, 'j) world \<Rightarrow> 'h event list \<Rightarrow> 'j Task \<Rightarrow> bool" where
  "has_cause W es t \<longleftrightarrow> (\<exists>e \<in> set es. caused W t e)"

definition has_frame :: "('h, 'j) world \<Rightarrow> 'h event list \<Rightarrow> u64 \<Rightarrow> string \<Rightarrow> 'j ClientFrame \<Rightarrow> int \<Rightarrow> bool" where
  "has_frame W es uid did frame now_ms \<longleftrightarrow> (\<exists>e \<in> set es. admitted_frame W e uid did frame now_ms)"

lemma own_message_caused: "admitted_frame W e uid did frame now_ms \<Longrightarrow> own_message (w_json W) uid t \<Longrightarrow> caused W t e"
  unfolding caused_def by (intro disjI1 exI conjI)

lemma own_message_cause: "has_frame W es uid did frame now_ms \<Longrightarrow> own_message (w_json W) uid t \<Longrightarrow> has_cause W es t"
  by (auto simp: has_frame_def has_cause_def intro: own_message_caused)

text \<open>The cause that a thread carries with it from one section to the next.\<close>

fun cont_traced :: "('h, 'j) world \<Rightarrow> 'h event list \<Rightarrow> ('h, 'j) cont \<Rightarrow> bool" where
  "cont_traced W es (ConnectAdd claims did first now_ms iso_ms iom w) \<longleftrightarrow>
     has_cause W es (presence_task (w_json W) True (jc_user_id claims))"
| "cont_traced W es (ConnectTell replaced evicted claims did first iso_ms w) \<longleftrightarrow>
     has_cause W es (presence_task (w_json W) True (jc_user_id claims))"
| "cont_traced W es (ConnectAnnounce uid) \<longleftrightarrow> has_cause W es (presence_task (w_json W) True uid)"
| "cont_traced W es (CloseCheck uid) \<longleftrightarrow> has_cause W es (presence_task (w_json W) False uid)"
| "cont_traced W es (CloseAnnounce uid) \<longleftrightarrow> has_cause W es (presence_task (w_json W) False uid)"
| "cont_traced W es (FrameToken c uid did iso_ms now_ms log_info msg w) \<longleftrightarrow>
     (\<forall>frame. ParseClientFrame (w_json W) msg = Some (Inr frame) \<longrightarrow> has_frame W es uid did frame now_ms)"
| "cont_traced W es (FrameTouch uid did iso_ms now_ms log_info msg w) \<longleftrightarrow>
     (\<forall>frame. ParseClientFrame (w_json W) msg = Some (Inr frame) \<longrightarrow> has_frame W es uid did frame now_ms)"
| "cont_traced W es (SendPut iso_ms now_ms uid did session hs sq data) \<longleftrightarrow>
     (\<exists>frame. has_frame W es uid did frame now_ms \<and> cf_type frame = ''msg.send'' \<and>
        cf_has_seq frame = hs \<and> cf_seq frame = sq \<and> cf_data frame = data)"
| "cont_traced W es (SendPublish cid pl session hs sq) \<longleftrightarrow>
     has_cause W es \<lparr>t_routing_key = ''business.msg.persist'', t_payload = pl, t_priority = 0\<rparr>"
| "cont_traced W es (AckPublish iso_ms uid session hs sq data) \<longleftrightarrow>
     (\<exists>did frame now_ms. has_frame W es uid did frame now_ms)"
| "cont_traced W es _ \<longleftrightarrow> True"

lemma cont_traced_mono:
  assumes "cont_traced W es k" "set es \<subseteq> set es'"
  shows "cont_traced W es' k"
proof -
  have "has_cause W es t \<Longrightarrow> has_cause W es' t" "has_frame W es uid did frame now \<Longrightarrow> has_frame W es' uid did frame now"
    for t uid did frame now using assms(2) by (auto simp: has_cause_def has_frame_def)
  with assms(1) show ?thesis by (cases k) (simp_all, blast+)
qed

lemma traced_mono: "traced W es s \<Longrightarrow> set es \<subseteq> set es' \<Longrightarrow> traced W es' s"
  by (fastforce simp: traced_def)

lemma traced_same:
  "traced W es s \<Longrightarrow> sv_pending s' = sv_pending s \<Longrightarrow>
     Publisher.m_queue (sv_publisher s') = Publisher.m_queue (sv_publisher s) \<Longrightarrow> traced W es s'"
  by (simp add: traced_def)

lemma traced_publish:
  assumes "traced W es s" "on_publisher (Publisher.Publish cfg rk pl pr) s = (ok, s')"
    and "has_cause W es \<lparr>t_routing_key = rk, t_payload = pl, t_priority = pr\<rparr>"
  shows "traced W es s'"
  using assms(1,3) Publish_on_service(2,4) [OF assms(2)] by (auto simp: traced_def has_cause_def split: if_splits)

lemma traced_announce:
  assumes "traced W es s"
  shows "has_cause W es (presence_task (w_json W) True uid) \<Longrightarrow> traced W es (announce_online W uid s)"
    "has_cause W es (presence_task (w_json W) False uid) \<Longrightarrow> traced W es (announce_offline W uid s)"
  using traced_publish [OF assms surjective_pairing]
  by (simp_all add: announce_online_def announce_offline_def PublishUserOnline_def PublishUserOffline_def presence_task_def)

lemma enter_traced:
  assumes "memcmp_law (w_crypto W)" "traced W es s" "enter W cb s = (k, s')"
  shows "traced W (callback_event cb # es) s' \<and> cont_traced W (callback_event cb # es) k"
proof
  have "sv_pending s' = sv_pending s" by (rule enter_pending [OF assms(3)])
  moreover have "sv_publisher s' = sv_publisher s"
    using assms(3) by (cases cb)
      (auto simp: connect_read_def close_remove_def frame_lookup_def AllocFallbackDeviceId_def Let_def auth_fail_state
        send_frame_state split: option.splits sum.splits if_splits)
  ultimately show "traced W (callback_event cb # es) s'"
    by (intro traced_same [OF traced_mono [OF assms(2)]]) auto
  show "cont_traced W (callback_event cb # es) k"
  proof (cases cb)
    case (Connecting now_s now_ms iso_ms iom header w)
    have "caused W (presence_task (w_json W) True (jc_user_id claims)) (callback_event cb)"
      if "Verify (w_json W) (w_crypto W) (m_jwt (w_cfg W)) now_s (ExtractToken (w_http W) header) = Some (Inr claims)"
      for claims
      using that Verify_iff [OF assms(1)] unfolding caused_def Connecting callback_event.simps by blast
    then have cause: "has_cause W (callback_event cb # es) (presence_task (w_json W) True (jc_user_id claims))"
      if "Verify (w_json W) (w_crypto W) (m_jwt (w_cfg W)) now_s (ExtractToken (w_http W) header) = Some (Inr claims)"
      for claims
      using that by (simp add: has_cause_def)
    from assms(3) show ?thesis
      by (auto simp: Connecting connect_read_def Let_def cause [unfolded Connecting callback_event.simps]
          split: option.splits sum.splits if_splits prod.splits)
  next
    case (Closing header w)
    with assms(3) show ?thesis by (auto simp: close_remove_def Let_def caused_def has_cause_def split: if_splits)
  next
    case (Receiving iso_ms now_ms log_info header is_text msg w)
    with assms(3) show ?thesis
      by (auto simp: frame_lookup_def Let_def admitted_frame_def has_frame_def split: if_splits option.splits)
  qed
qed

lemma put_traced:
  assumes "json_laws (w_json W)" "traced W es s"
    and "send_put W iso_ms now_ms uid did session hs sq data s = (k, s')"
    and "cont_traced W es (SendPut iso_ms now_ms uid did session hs sq data)"
  shows "traced W es s' \<and> cont_traced W es k"
proof -
  from assms(4) obtain frame where f: "has_frame W es uid did frame now_ms" "cf_type frame = ''msg.send''"
    "cf_has_seq frame = hs" "cf_seq frame = sq" "cf_data frame = data" by auto
  let ?p = "\<lparr>ps_sender_user_id = uid, ps_sender_device_id = did, ps_created_ms = now_ms, ps_has_seq = hs, ps_seq = sq\<rparr>"
  have entry: "traced W es (s\<lparr>sv_pending := AList.update cid ?p (sv_pending s)\<rparr>)"
    if "get_string (w_json W) data ''clientMsgId'' = Some cid" for cid
  proof -
    from f that have "\<exists>e \<in> set es. asked W cid ?p e" by (auto simp: asked_def has_frame_def)
    with assms(2) set_update [of cid ?p "sv_pending s"] show ?thesis by (fastforce simp: traced_def)
  qed
  have task: "has_cause W es \<lparr>t_routing_key = ''business.msg.persist'', t_payload = pl, t_priority = 0\<rparr>"
    if "add_media (w_json W) media (message_payload (w_json W) cid conv uid content sent) = Some pl"
    for media cid conv content sent pl
    using message_payload_sender [OF assms(1) that] by (intro own_message_cause [OF f(1)]) (simp add: own_message_def)
  have error: "traced W es (send_error (w_json W) session code msg hs sq s)" for code msg
    by (rule traced_same [OF assms(2)]) (simp_all add: send_frame_state)
  show ?thesis
    using assms(3) assms(2) entry task error
    by (auto simp: send_put_def read_send_def Let_def split: option.splits if_splits bind_splits)
qed

lemma ack_traced:
  assumes "json_laws (w_json W)" "traced W es s" "cont_traced W es (AckPublish iso_ms uid session hs sq data)"
  shows "traced W es (snd (HandleMsgAck (w_json W) (w_cfg W) iso_ms uid session hs sq data s))"
proof -
  obtain rc s' where A: "HandleMsgAck (w_json W) (w_cfg W) iso_ms uid session hs sq data s = (rc, s')"
    by (rule prod.exhaust)
  note F = HandleMsgAck_frame [OF A]
  from assms(3) own_message_cause have "has_cause W es t" if "own_message (w_json W) uid t" for t
    using that by auto
  with F(2) F(3) [OF assms(1)] assms(2) show ?thesis by (auto simp: A traced_def queues_own_def has_cause_def)
qed

lemma touch_traced:
  fixes W :: "('h, 'j) world"
  assumes "json_laws (w_json W)" "traced W es s"
    and "frame_touch W uid did iso_ms now_ms log_info msg w s = (k, s')"
    and "cont_traced W es (FrameTouch uid did iso_ms now_ms log_info msg w)"
  shows "traced W es s' \<and> cont_traced W es k"
proof -
  have quiet: "sv_pending (snd (dispatch_frame J cfg iso_ms now_ms log_info uid did w frame s)) = sv_pending s"
    "sv_publisher (snd (dispatch_frame J cfg iso_ms now_ms log_info uid did w frame s)) = sv_publisher s"
    if "cf_type frame \<noteq> ''msg.send''" "cf_type frame \<noteq> ''msg.ack''" for J cfg frame and s :: "'j service"
    using that by (auto simp: dispatch_frame_def Let_def HandleMsgRead_def count_metric_simps send_frame_state
        split: if_splits option.splits)
  have "traced W es s'"
    using assms(3) by (auto simp: frame_touch_def Let_def send_frame_state count_metric_simps quiet
        intro!: traced_same [OF assms(2)] split: option.splits sum.splits if_splits)
  moreover have "cont_traced W es k"
    using assms(3,4) by (auto simp: frame_touch_def Let_def split: option.splits sum.splits if_splits) blast
  ultimately show ?thesis ..
qed

lemma section_traced:
  assumes "json_laws (w_json W)" "traced W es s" "cont_traced W es k" "section_step W k s = (k', s')"
  shows "traced W es s' \<and> cont_traced W es k'"
proof (cases k)
  case (ConnectAdd claims did first now_ms iso_ms iom w)
  with assms(3,4) traced_same [OF assms(2)] show ?thesis by (auto simp: connect_add_def Let_def split: prod.splits)
next
  case (ConnectTell rep ev claims did first iso_ms w)
  with assms(4) have "connect_tell W rep ev claims did first iso_ms w s = (k', s')" by simp
  from connect_tell_state(3,5,7) [OF this] assms(2,3) show ?thesis by (simp add: ConnectTell traced_def)
next
  case (FrameToken c uid did iso_ms now_ms log_info msg w)
  with assms(3,4) traced_same [OF assms(2)] show ?thesis
    by (auto simp: frame_token_def Let_def send_frame_state split: prod.splits if_splits)
next
  case (FrameTouch uid did iso_ms now_ms log_info msg w)
  with assms(3,4) touch_traced [OF assms(1,2)] show ?thesis by simp
next
  case (SendPut iso_ms now_ms uid did session hs sq data)
  with assms(3,4) put_traced [OF assms(1,2)] show ?thesis by simp
next
  case (SendPublish cid pl session hs sq)
  with assms(3,4) traced_publish [OF assms(2)] show ?thesis by (auto simp: send_queue_def split: prod.splits if_splits)
next
  case (SendForget cid session hs sq)
  with assms(2,4) show ?thesis by (auto simp: send_forget_def send_frame_state traced_def set_delete)
next
  case (AckPublish iso_ms uid session hs sq data)
  with assms(4) ack_traced [OF assms(1,2) assms(3) [unfolded AckPublish]] show ?thesis by auto
qed (use assms(2-4) in \<open>auto simp: traced_announce split: if_splits\<close>)

section \<open>Every interleaving\<close>

lemma interleaves_traced:
  assumes "interleaves W es th y" "world_ok W"
  shows "traced W es (y_service y) \<and> (\<forall>i. cont_traced W es (th i))"
  using assms(1)
proof (induction rule: interleaves.induct)
  case (start h)
  show ?case by (simp add: traced_def system_start_def service_start_def new_MqPublisher_def)
next
  case (act es th y a th' y')
  have W: "json_laws (w_json W)" "memcmp_law (w_crypto W)" using assms(2) by (simp_all add: world_ok_def)
  have inv: "system_inv W es y" using interleaves_inv [OF act.hyps(1) assms(2)] by (simp add: threads_inv_def)
  have others: "cont_traced W (e # es) (th j)" for e j using act.IH cont_traced_mono [of W es "th j" "e # es"] by auto
  show ?case
  proof (cases a)
    case (Event e)
    with act.hyps(2) have s: "th' = th" "step W e y y'" by (auto elim: EventE)
    from adds_caused_traced [OF conjunct1 [OF act.IH] step_adds [OF assms(2) s(2) inv]] others show ?thesis
      by (simp add: Event s(1))
  next
    case (Enter i cb)
    with act.hyps(2) obtain k s where E: "enter W cb (y_service y) = (k, s)" "th' = th(i := k)" "y' = y\<lparr>y_service := s\<rparr>"
      by (auto elim: EnterE)
    from enter_traced [OF W(2) conjunct1 [OF act.IH] E(1)] others show ?thesis by (simp add: Enter E(2,3))
  next
    case (Resume i)
    with act.hyps(2) obtain k s where R: "section_step W (th i) (y_service y) = (k, s)" "th' = th(i := k)" "y' = y\<lparr>y_service := s\<rparr>"
      by (auto elim: ResumeE)
    have "cont_traced W es (th i)" using act.IH by blast
    from section_traced [OF W(1) conjunct1 [OF act.IH] this R(1)] act.IH show ?thesis by (simp add: Resume R(2,3))
  qed
qed

text \<open>
  C5. Nothing leaves the service without a cause, however the threads interleave. A send that waits for its
  answer was asked for by a frame of the very user and device that it names, under the client's own message
  id and sequence number; and every message that waits for the broker is either a user's own message out of
  a frame of that user's session, or announces a user who logged in with a valid token, or one whose
  session closed.
\<close>

theorem outgoing_has_cause:
  assumes "world_ok W" "interleaves W es th y"
  shows "(map_of (sv_pending (y_service y)) k = Some p \<longrightarrow> (\<exists>e \<in> set es. asked W k p e)) \<and>
    (t \<in> set (Publisher.m_queue (sv_publisher (y_service y))) \<longrightarrow> (\<exists>e \<in> set es. caused W t e))"
  using interleaves_traced [OF assms(2,1)] by (auto simp: traced_def dest: map_of_SomeD)

section \<open>Example\<close>

theorem outgoing_has_cause_witness:
  "\<exists>y p t. reaches sending_world [sending_event] y \<and> map_of (sv_pending (y_service y)) ''c'' = Some p \<and>
     t \<in> set (Publisher.m_queue (sv_publisher (y_service y))) \<and>
     asked sending_world ''c'' p sending_event \<and> caused sending_world t sending_event"
proof -
  obtain y p t where y: "reaches sending_world [sending_event] y" "map_of (sv_pending (y_service y)) ''c'' = Some p"
    "Publisher.m_queue (sv_publisher (y_service y)) = [t]" by (rule sending_history)
  from outgoing_has_cause [OF sending_world_ok reaches_interleaves [OF y(1)], of "''c''" p t] y show ?thesis by auto
qed

end
