(* ===== verification/Rate_Limit.thy ===== *)
theory Rate_Limit
  imports Pending
begin

text \<open>
  The rate limit through a whole history of interleaved callbacks and events. Beside the history it is recorded which
  frames came on which connection, and whether each was served or turned away, as the states around it tell.
  \<open>handle\<close> draws a token from the bucket of the session's connection for every frame that gets so far; what
  \<open>ConsumeToken\<close> promises for one bucket is carried to all the connections of a running service, whatever else
  happens between the frames. \<open>Token_Race\<close> is the other side: two overlapping calls of \<open>ConsumeToken\<close>.
\<close>

section \<open>The frames of a history\<close>

abbreviation frame_rate :: "('h, 'j) world \<Rightarrow> int" where
  "frame_rate W \<equiv> chat_frame_rate_limit_per_second (m_chat (w_cfg W))"

text \<open>
  A frame is turned away when the answer 429 on its session is all that happens: no bucket, no time stamp, no
  counter, nothing else of the service has changed. Every other frame counts as served.
\<close>

definition turned_away :: "('h, 'j) world \<Rightarrow> sid \<Rightarrow> 'j service \<Rightarrow> 'j service \<Rightarrow> bool" where
  "turned_away W w s s' \<longleftrightarrow> s' = send_error (w_json W) (Some w) 429 ''too many frames'' False 0 s"

text \<open>
  The frame that an event brings on a registered connection: which connection, when, and whether it was served,
  as the states before and after the event tell.
\<close>

definition event_frames :: "('h, 'j) world \<Rightarrow> 'h event \<Rightarrow> 'j system \<Rightarrow> 'j system \<Rightarrow> (ptr \<times> int \<times> bool) list" where
  "event_frames W e y y' =
     (case e of
        FrameIn iso_ms now_ms log_info header is_text msg w \<Rightarrow>
          (let uid = header_uid (w_http W) header; did = getHeader (w_http W) header ''$did''
           in if \<not> is_text \<or> uid = 0 \<or> did = [] then []
              else case Get uid did (sv_registry (y_service y)) of
                     None \<Rightarrow> []
                   | Some c \<Rightarrow> [(c, now_ms, \<not> turned_away W w (y_service y) (y_service y'))])
      | _ \<Rightarrow> [])"

text \<open>
  The same for an action of the threads: \<open>handle\<close> run as a whole, or its section that calls \<open>ConsumeToken\<close>, which
  turns a frame away when it ends the callback there.
\<close>

definition section_frames ::
  "('h, 'j) world \<Rightarrow> ('h, 'j) cont \<Rightarrow> 'j service \<Rightarrow> ('h, 'j) cont \<Rightarrow> 'j service \<Rightarrow> (ptr \<times> int \<times> bool) list" where
  "section_frames W k s k' s' =
     (case k of
        FrameToken c uid did iso_ms now_ms log_info msg w \<Rightarrow> [(c, now_ms, \<not> (k' = Idle \<and> turned_away W w s s'))]
      | _ \<Rightarrow> [])"

fun action_frames ::
  "('h, 'j) world \<Rightarrow> 'h action \<Rightarrow> ('h, 'j) threads \<times> 'j system \<Rightarrow> ('h, 'j) threads \<times> 'j system
     \<Rightarrow> (ptr \<times> int \<times> bool) list" where
  "action_frames W (Event e) (th, y) (th', y') = event_frames W e y y'"
| "action_frames W (Enter i cb) (th, y) (th', y') = []"
| "action_frames W (Resume i) (th, y) (th', y') = section_frames W (th i) (y_service y) (th' i) (y_service y')"

inductive metered ::
  "('h, 'j) world \<Rightarrow> 'h event list \<Rightarrow> ('h, 'j) threads \<Rightarrow> 'j system \<Rightarrow> (ptr \<times> int \<times> bool) list \<Rightarrow> bool" for W where
  start: "metered W [] (\<lambda>i. Idle) (system_start h) []"
| act: "metered W es th y log \<Longrightarrow> thread_step W a (th, y) (th', y') \<Longrightarrow>
    metered W (happened a @ es) th' y' (log @ action_frames W a (th, y) (th', y'))"


text \<open>Every history has its record.\<close>

lemma interleaves_metered: "interleaves W es th y \<Longrightarrow> \<exists>log. metered W es th y log"
  by (induction rule: interleaves.induct) (auto intro: metered.intros)

definition frame_times :: "ptr \<Rightarrow> (ptr \<times> int \<times> bool) list \<Rightarrow> int list" where
  "frame_times c log = map (\<lambda>(p, t, ok). t) (filter (\<lambda>(p, t, ok). p = c) log)"

definition served :: "ptr \<Rightarrow> (ptr \<times> int \<times> bool) list \<Rightarrow> nat" where
  "served c log = length (filter (\<lambda>(p, t, ok). p = c \<and> ok) log)"

lemma frames_append [simp]:
  "frame_times c (log @ log') = frame_times c log @ frame_times c log'"
  "served c (log @ log') = served c log + served c log'"
  by (simp_all add: frame_times_def served_def)

lemma frames_one [simp]:
  "frame_times c [] = []" "served c [] = 0"
  "frame_times c [(p, t, ok)] = (if p = c then [t] else [])" "served c [(p, t, ok)] = (if p = c \<and> ok then 1 else 0)"
  by (simp_all add: frame_times_def served_def)

section \<open>The draws from the buckets\<close>


definition section_draw :: "('h, 'j) world \<Rightarrow> ('h, 'j) cont \<Rightarrow> 'j service \<Rightarrow> (ptr \<times> int \<times> bool) list" where
  "section_draw W k s =
     (case k of
        FrameToken c uid did iso_ms now_ms log_info msg w \<Rightarrow>
          [(c, now_ms, fst (ConsumeToken now_ms (frame_rate W) (sv_heap s c)))]
      | _ \<Rightarrow> [])"



lemma refused_section:
  assumes "section_draw W k s = [(c, t, False)]" "section_step W k s = (k', s')"
  shows "k' = Idle \<and> (\<exists>w. s' = send_error (w_json W) (Some w) 429 ''too many frames'' False 0
    (s\<lparr>sv_heap := (sv_heap s)(c := snd (ConsumeToken t (frame_rate W) (sv_heap s c)))\<rparr>))"
  using assms by (cases k) (auto simp: section_draw_def frame_token_def Let_def split: prod.splits)

section \<open>What the events do to the buckets\<close>

















section \<open>Served is granted\<close>








section \<open>The budget of a connection\<close>

















section \<open>A history with a frame\<close>



end
