(* ===== verification/Token_Race.thy ===== *)
theory Token_Race
  imports Session_Registry
begin

text \<open>
  \<open>OnlineConn::ConsumeToken\<close> one atomic access at a time. The registry hands the same connection object to
  every caller, and the two fields of the bucket are separate atomics, so calls for one connection can
  interleave between their loads and stores. \<open>token_step\<close> is the next access of a call; a schedule
  says whose turn it is.
\<close>

datatype token_pc =
    Enter
  | LoadedRefill int
  | LoadedBoth int int
  | Refilled
  | Checking int
  | Spending int
  | Granted
  | Refused

fun token_step :: "int \<Rightarrow> int \<Rightarrow> token_pc \<Rightarrow> OnlineConn \<Rightarrow> token_pc \<times> OnlineConn" where
  "token_step now_ms rate Enter c = (LoadedRefill (oc_bucket_refill_ts c), c)"
| "token_step now_ms rate (LoadedRefill refill_ts) c = (LoadedBoth refill_ts (oc_bucket_tokens c), c)"
| "token_step now_ms rate (LoadedBoth refill_ts tokens) c =
     (if i64 (now_ms - refill_ts) \<ge> 1000 then (Refilled, c\<lparr>oc_bucket_refill_ts := now_ms\<rparr>)
      else (Checking tokens, c))"
| "token_step now_ms rate Refilled c = (Checking rate, c\<lparr>oc_bucket_tokens := rate\<rparr>)"
| "token_step now_ms rate (Checking tokens) c = (if tokens \<le> 0 then Refused else Spending tokens, c)"
| "token_step now_ms rate (Spending tokens) c = (Granted, c\<lparr>oc_bucket_tokens := tokens - 1\<rparr>)"
| "token_step now_ms rate Granted c = (Granted, c)"
| "token_step now_ms rate Refused c = (Refused, c)"

fun token_steps :: "int \<Rightarrow> int \<Rightarrow> nat \<Rightarrow> token_pc \<times> OnlineConn \<Rightarrow> token_pc \<times> OnlineConn" where
  "token_steps now_ms rate 0 p = p"
| "token_steps now_ms rate (Suc n) (k, c) = token_steps now_ms rate n (token_step now_ms rate k c)"

text \<open>A call that nothing interrupts takes at most six accesses and is \<open>ConsumeToken\<close>.\<close>

lemma token_steps_alone:
  "token_steps now_ms rate 6 (Enter, c) =
     (case ConsumeToken now_ms rate c of (ok, c') \<Rightarrow> (if ok then Granted else Refused, c'))"
  by (simp add: numeral_eq_Suc ConsumeToken_def Let_def split: if_split)

text \<open>Several calls on one connection, each with its own clock reading.\<close>

type_synonym token_calls = "nat \<Rightarrow> token_pc"

definition token_turn :: "int \<Rightarrow> int \<Rightarrow> nat \<Rightarrow> token_calls \<times> OnlineConn \<Rightarrow> token_calls \<times> OnlineConn" where
  "token_turn now_ms rate i = (\<lambda>(pcs, c). case token_step now_ms rate (pcs i) c of (k, c') \<Rightarrow> (pcs(i := k), c'))"

lemma token_round:
  assumes "distinct is" "\<forall>i \<in> set is. pcs i = k"
    and "token_step now_ms rate k c = (k', c')" "token_step now_ms rate k c' = (k', c')"
  shows "fold (token_turn now_ms rate) is (pcs, c) = ((\<lambda>i. if i \<in> set is then k' else pcs i), if is = [] then c else c')"
proof -
  have "fold (token_turn now_ms rate) js (pcs', d) = ((\<lambda>i. if i \<in> set js then k' else pcs' i), if js = [] then d else c')"
    if "distinct js" "\<forall>i \<in> set js. pcs' i = k" "token_step now_ms rate k d = (k', c')" for js pcs' d
    using that
  proof (induction js arbitrary: pcs' d)
    case Nil
    then show ?case by simp
  next
    case (Cons j js)
    define q where "q = pcs'(j := k')"
    have turn: "token_turn now_ms rate j (pcs', d) = (q, c')" using Cons.prems by (simp add: token_turn_def q_def)
    have "\<forall>i \<in> set js. q i = k" using Cons.prems by (auto simp: q_def)
    from Cons.IH [OF _ this assms(4)] Cons.prems(1)
    have "fold (token_turn now_ms rate) js (q, c') = ((\<lambda>i. if i \<in> set js then k' else q i), c')" by simp
    moreover have "(\<lambda>i. if i \<in> set js then k' else q i) = (\<lambda>i. if i \<in> set (j # js) then k' else pcs' i)"
      by (auto simp: q_def)
    ultimately show ?case using turn by simp
  qed
  with assms show ?thesis by blast
qed

text \<open>
  C25. One token lets any number of frames through. When the calls for a connection whose bucket holds one
  token load it before any of them stores what is left, each of them is granted, and the bucket says
  that one token was spent.
\<close>

theorem one_token_many_grants:
  assumes "distinct is" "is \<noteq> []" "\<forall>i \<in> set is. pcs i = Enter"
    and "oc_bucket_tokens c = 1" "i64 (now_ms - oc_bucket_refill_ts c) < 1000"
  shows "fold (token_turn now_ms rate) (concat (replicate 5 is)) (pcs, c) =
    ((\<lambda>i. if i \<in> set is then Granted else pcs i), c\<lparr>oc_bucket_tokens := 0\<rparr>)"
proof -
  let ?r = "oc_bucket_refill_ts c" and ?run = "fold (token_turn now_ms rate) is"
  let ?at = "\<lambda>k i. if i \<in> set is then k else pcs i"
  have "?run (pcs, c) = (?at (LoadedRefill ?r), c)"
    using token_round [OF assms(1,3)] by simp
  moreover have "?run (?at (LoadedRefill ?r), c) = (?at (LoadedBoth ?r 1), c)"
    using token_round [OF assms(1), of "?at (LoadedRefill ?r)" "LoadedRefill ?r" now_ms rate c] assms(4)
    by (simp add: fun_eq_iff)
  moreover have "?run (?at (LoadedBoth ?r 1), c) = (?at (Checking 1), c)"
    using token_round [OF assms(1), of "?at (LoadedBoth ?r 1)" "LoadedBoth ?r 1" now_ms rate c] assms(5)
    by (simp add: fun_eq_iff)
  moreover have "?run (?at (Checking 1), c) = (?at (Spending 1), c)"
    using token_round [OF assms(1), of "?at (Checking 1)" "Checking 1" now_ms rate c] by (simp add: fun_eq_iff)
  moreover have "?run (?at (Spending 1), c) = (?at Granted, c\<lparr>oc_bucket_tokens := 0\<rparr>)"
    using token_round [OF assms(1), of "?at (Spending 1)" "Spending 1" now_ms rate c] assms(2)
    by (simp add: fun_eq_iff)
  ultimately show ?thesis by (simp add: numeral_eq_Suc)
qed

theorem one_token_many_grants_witness:
  "fst (fold (token_turn 30 20) (concat (replicate 5 [1, 2])) (\<lambda>i. Enter, new_OnlineConn 7 ''a'' None None 0 1)) 2 = Granted"
  using one_token_many_grants [of "[1, 2]" "\<lambda>i. Enter" "new_OnlineConn 7 ''a'' None None 0 1" 30 20]
  by (simp add: new_OnlineConn_def)

end
