(* ===== verification/Publisher_Threads.thy ===== *)
theory Publisher_Threads
  imports Publisher
begin

text \<open>
  \<open>chat/mq/publisher.cc\<close> with its threads. \<open>Publisher\<close> takes one iteration of \<open>Run\<close> as a whole; in the
  code the loop holds the queue's mutex only while it pops a task, and connects and sends outside of it,
  so \<open>Publish\<close> can run at any point between, and \<open>Stop\<close> clears \<open>m_running\<close> first and closes the
  connection only after the thread has ended. Here each of these is a step of its own, and the result is
  that every interleaving amounts to some history of whole iterations.
\<close>

section \<open>The threads\<close>

text \<open>
  Where the thread of \<open>Run\<close> is: about to test \<open>m_running\<close>, about to lock the queue, with a task but not yet
  connected, connected and about to send, or after the loop. \<open>Stopped\<close> is no thread.
\<close>

datatype 'j pub_pc =
    Stopped
  | Looping
  | Locking
  | Holding "'j Task"
  | Sending "'j Task"
  | Finished

record 'j pub_threads =
  pt_pub :: "'j MqPublisher"
  pt_met :: ChatMetrics
  pt_backoff :: int
  pt_pc :: "'j pub_pc"
  pt_joining :: bool \<comment> \<open>a call of \<open>Stop\<close> waits for the thread to end\<close>

definition pub_threads_start :: "'j pub_threads" where
  "pub_threads_start = \<lparr>pt_pub = new_MqPublisher, pt_met = new_ChatMetrics, pt_backoff = 0, pt_pc = Stopped,
     pt_joining = False\<rparr>"

text \<open>The part of an iteration after \<open>EnsureConnected\<close> has failed, and the part after it has succeeded.\<close>

definition give_up :: "RabbitMqConfig \<Rightarrow> 'j Task \<Rightarrow> 'j publisher_state \<Rightarrow> 'j publisher_state" where
  "give_up cfg task = (\<lambda>(backoff, pub, met).
     (min (mq_reconnect_max_backoff_ms cfg) (i32 (backoff * 2)), pub, IncMqPublish (t_routing_key task) ''fail'' met))"

definition send_task ::
  "amqp_lib \<Rightarrow> 'j json_lib \<Rightarrow> (nat \<Rightarrow> 8 word) option \<Rightarrow> int \<Rightarrow> 'j Task \<Rightarrow> 'j publisher_state \<Rightarrow> 'j publisher_state"
where
  "send_task L J rand_bytes now_ms task = (\<lambda>(backoff, pub, met).
     let env = BuildEnvelope rand_bytes now_ms ''chat'' (t_routing_key task) (t_payload task);
         text = EnvelopeToString J env
     in case Amqp_Client.Publish L ''business.exchange'' (t_routing_key task) text (t_priority task) (msg_id env) ''''
               (m_client pub) of (ok, err, cl) \<Rightarrow>
          if \<not> ok then (backoff, pub\<lparr>m_client := Close L cl\<rparr>, IncMqPublish (t_routing_key task) ''fail'' met)
          else (backoff, pub\<lparr>m_client := cl\<rparr>, IncMqPublish (t_routing_key task) ''ok'' met))"

inductive pub_runs ::
  "amqp_lib \<Rightarrow> 'j json_lib \<Rightarrow> RabbitMqConfig \<Rightarrow> 'j publisher_op list \<Rightarrow> 'j pub_threads \<Rightarrow> bool"
  for L J cfg where
  init: "pub_runs L J cfg [] pub_threads_start"
| called: "pub_runs L J cfg cs s \<Longrightarrow> Publisher.Publish cfg rk pl pr (pt_pub s, pt_met s) = (ok, pub, met) \<Longrightarrow>
    pub_runs L J cfg (cs @ [EvPublish rk pl pr]) (s\<lparr>pt_pub := pub, pt_met := met\<rparr>)"
| launched: "pub_runs L J cfg cs s \<Longrightarrow> \<not> m_running (pt_pub s) \<Longrightarrow> pt_pc s = Stopped \<Longrightarrow>
    pub_runs L J cfg cs (s\<lparr>pt_pub := (pt_pub s)\<lparr>m_running := True\<rparr>, pt_pc := Looping,
      pt_backoff := mq_reconnect_initial_backoff_ms cfg\<rparr>)"
| tested: "pub_runs L J cfg cs s \<Longrightarrow> pt_pc s = Looping \<Longrightarrow>
    pub_runs L J cfg cs (s\<lparr>pt_pc := if m_running (pt_pub s) then Locking else Finished\<rparr>)"
| found_empty: "pub_runs L J cfg cs s \<Longrightarrow> pt_pc s = Locking \<Longrightarrow> pop_task (pt_pub s) = (None, pub) \<Longrightarrow>
    pub_runs L J cfg cs (s\<lparr>pt_pub := pub, pt_pc := Looping\<rparr>)"
| popped: "pub_runs L J cfg cs s \<Longrightarrow> pt_pc s = Locking \<Longrightarrow> pop_task (pt_pub s) = (Some t, pub) \<Longrightarrow>
    pub_runs L J cfg cs (s\<lparr>pt_pub := pub, pt_pc := Holding t\<rparr>)"
| unconnected: "pub_runs L J cfg cs s \<Longrightarrow> pt_pc s = Holding t \<Longrightarrow>
    EnsureConnected L cfg (pt_pub s, pt_met s) = (False, pub1, met1) \<Longrightarrow>
    give_up cfg t (pt_backoff s, pub1, met1) = (b, pub, met) \<Longrightarrow>
    pub_runs L J cfg cs (s\<lparr>pt_pub := pub, pt_met := met, pt_backoff := b, pt_pc := Looping\<rparr>)"
| connected: "pub_runs L J cfg cs s \<Longrightarrow> pt_pc s = Holding t \<Longrightarrow>
    EnsureConnected L cfg (pt_pub s, pt_met s) = (True, pub, met) \<Longrightarrow>
    pub_runs L J cfg cs (s\<lparr>pt_pub := pub, pt_met := met, pt_backoff := mq_reconnect_initial_backoff_ms cfg,
      pt_pc := Sending t\<rparr>)"
| sent: "pub_runs L J cfg cs s \<Longrightarrow> pt_pc s = Sending t \<Longrightarrow>
    send_task L J rand_bytes now_ms t (pt_backoff s, pt_pub s, pt_met s) = (b, pub, met) \<Longrightarrow>
    pub_runs L J cfg cs (s\<lparr>pt_pub := pub, pt_met := met, pt_backoff := b, pt_pc := Looping\<rparr>)"
| stopping: "pub_runs L J cfg cs s \<Longrightarrow> m_running (pt_pub s) \<Longrightarrow>
    pub_runs L J cfg cs (s\<lparr>pt_pub := (pt_pub s)\<lparr>m_running := False\<rparr>, pt_joining := True\<rparr>)"
| joined: "pub_runs L J cfg cs s \<Longrightarrow> pt_joining s \<Longrightarrow> pt_pc s = Finished \<Longrightarrow>
    pub_runs L J cfg cs (s\<lparr>pt_pub := (pt_pub s)\<lparr>m_client := Close L (m_client (pt_pub s))\<rparr>, pt_pc := Stopped,
      pt_joining := False\<rparr>)"

section \<open>Commuting\<close>

text \<open>The counters do not remember the order in which they were raised.\<close>

lemma bump_commute: "bump a (bump b m) = bump b (bump a m)"
  by (induction m) auto

lemma IncMqPublish_commute: "IncMqPublish k r (IncMqPublish k' r' m) = IncMqPublish k' r' (IncMqPublish k r m)"
  by (simp add: IncMqPublish_def bump_commute)

lemma IncMqReconnect_commute: "IncMqReconnect role (IncMqPublish k r m) = IncMqPublish k r (IncMqReconnect role m)"
  by (simp add: IncMqPublish_def IncMqReconnect_def)

text \<open>A call of \<open>Publish\<close> as a change of the queue and of the metrics.\<close>

definition call :: "RabbitMqConfig \<Rightarrow> 'j publisher_op \<Rightarrow> 'j publisher_state \<Rightarrow> 'j publisher_state" where
  "call cfg x = (\<lambda>(b, pub, met).
     case x of
       EvPublish rk pl pr \<Rightarrow> (case Publisher.Publish cfg rk pl pr (pub, met) of (_, pub, met) \<Rightarrow> (b, pub, met))
     | _ \<Rightarrow> (b, pub, met))"

fun is_call :: "'j publisher_op \<Rightarrow> bool" where
  "is_call (EvPublish rk pl pr) = True"
| "is_call _ = False"

lemma call_exec: "is_call x \<Longrightarrow> publisher_exec L J cfg x s = call cfg x s"
  by (cases x; cases s) (simp_all add: call_def)

lemma calls_exec: "\<forall>x \<in> set xs. is_call x \<Longrightarrow> fold (publisher_exec L J cfg) xs s = fold (call cfg) xs s"
  by (induction xs arbitrary: s) (simp_all add: call_exec)

lemma EnsureConnected_queue:
  assumes "EnsureConnected L cfg (pub, met) = (ok, pub', met')"
  shows "EnsureConnected L cfg (pub\<lparr>m_queue := q\<rparr>, met) = (ok, pub'\<lparr>m_queue := q\<rparr>, met')"
    "EnsureConnected L cfg (pub, IncMqPublish k r met) = (ok, pub', IncMqPublish k r met')"
    "EnsureConnected L cfg (pub\<lparr>m_running := v\<rparr>, met) = (ok, pub'\<lparr>m_running := v\<rparr>, met')"
  using assms by (auto simp: EnsureConnected_def IncMqReconnect_commute split: prod.splits if_splits)

text \<open>\<open>EnsureConnected\<close> with the reset of the backoff that follows when it succeeds.\<close>

definition ensure :: "amqp_lib \<Rightarrow> RabbitMqConfig \<Rightarrow> 'j publisher_state \<Rightarrow> bool \<times> 'j publisher_state" where
  "ensure L cfg = (\<lambda>(b, pub, met).
     case EnsureConnected L cfg (pub, met) of
       (ok, pub, met) \<Rightarrow> (ok, if ok then mq_reconnect_initial_backoff_ms cfg else b, pub, met))"

lemma Run_iteration_parts:
  assumes "m_running pub" "m_queue pub = t # q"
  shows "Publisher.Run_iteration L J cfg rand_bytes now_ms (b, pub, met) =
    (case ensure L cfg (b, pub\<lparr>m_queue := q\<rparr>, met) of
       (ok, st) \<Rightarrow> if ok then send_task L J rand_bytes now_ms t st else give_up cfg t st)"
  using assms
  by (simp add: Publisher.Run_iteration_def pop_task_def ensure_def send_task_def give_up_def Let_def split: prod.split)

lemma ensure_call: "ensure L cfg (call cfg x st) = (case ensure L cfg st of (ok, st') \<Rightarrow> (ok, call cfg x st'))"
proof -
  obtain b pub met where st: "st = (b, pub, met)" by (rule prod_cases3)
  obtain ok pub' met' where E: "EnsureConnected L cfg (pub, met) = (ok, pub', met')" by (rule prod_cases3)
  show ?thesis
    by (cases x)
      (simp_all add: st ensure_def call_def Publisher.Publish_def E EnsureConnected_queue [OF E] EnsureConnected_frame(1) [OF E])
qed

lemma give_up_call: "give_up cfg t (call cfg x st) = call cfg x (give_up cfg t st)"
  by (cases x; cases st) (simp_all add: give_up_def call_def Publisher.Publish_def IncMqPublish_commute)

lemma send_call: "send_task L J rand_bytes now_ms t (call cfg x st) = call cfg x (send_task L J rand_bytes now_ms t st)"
proof -
  obtain b pub met where st: "st = (b, pub, met)" by (rule prod_cases3)
  obtain ok err cl where P: "Amqp_Client.Publish L ''business.exchange'' (t_routing_key t)
      (EnvelopeToString J (BuildEnvelope rand_bytes now_ms ''chat'' (t_routing_key t) (t_payload t)))
      (t_priority t) (msg_id (BuildEnvelope rand_bytes now_ms ''chat'' (t_routing_key t) (t_payload t))) ''''
      (m_client pub) = (ok, err, cl)" by (rule prod_cases3)
  show ?thesis
    by (cases x) (simp_all add: st send_task_def call_def Publisher.Publish_def Let_def P IncMqPublish_commute)
qed

lemma calls_commute:
  "ensure L cfg (fold (call cfg) ps st) = (case ensure L cfg st of (ok, st') \<Rightarrow> (ok, fold (call cfg) ps st'))"
  "give_up cfg t (fold (call cfg) ps st) = fold (call cfg) ps (give_up cfg t st)"
  "send_task L J rand_bytes now_ms t (fold (call cfg) ps st) = fold (call cfg) ps (send_task L J rand_bytes now_ms t st)"
  by (induction ps arbitrary: st) (simp_all add: ensure_call give_up_call send_call split: prod.split)

section \<open>The simulation\<close>

text \<open>
  The state as whole iterations know it: \<open>m_running\<close> stays set until \<open>Stop\<close> has joined the thread.
\<close>

definition thread_view :: "'j pub_threads \<Rightarrow> 'j publisher_state" where
  "thread_view s = (pt_backoff s, (pt_pub s)\<lparr>m_running := m_running (pt_pub s) \<or> pt_joining s\<rparr>, pt_met s)"

text \<open>
  While the thread holds a task, the history ends before the iteration that popped it, and the calls \<open>ps\<close>
  have come since. Otherwise the history accounts for everything.
\<close>

definition held ::
  "amqp_lib \<Rightarrow> 'j json_lib \<Rightarrow> RabbitMqConfig \<Rightarrow> 'j publisher_op list \<Rightarrow> 'j Task \<Rightarrow> 'j publisher_op list
     \<Rightarrow> 'j publisher_op list \<Rightarrow> 'j publisher_state \<Rightarrow> bool" where
  "held L J cfg cs t xs ps st \<longleftrightarrow>
     cs = filter is_call xs @ ps \<and> (\<forall>x \<in> set ps. is_call x) \<and>
     (\<exists>b pub met q. fold (publisher_exec L J cfg) xs publisher_start = (b, pub, met) \<and> m_running pub \<and>
        m_queue pub = t # q \<and> st = fold (call cfg) ps (b, pub\<lparr>m_queue := q\<rparr>, met))"

fun explained ::
  "amqp_lib \<Rightarrow> 'j json_lib \<Rightarrow> RabbitMqConfig \<Rightarrow> 'j publisher_op list \<Rightarrow> 'j pub_pc \<Rightarrow> 'j publisher_state \<Rightarrow> bool" where
  "explained L J cfg cs (Holding t) v \<longleftrightarrow> (\<exists>xs ps. held L J cfg cs t xs ps v)"
| "explained L J cfg cs (Sending t) v \<longleftrightarrow> (\<exists>xs ps st. held L J cfg cs t xs ps st \<and> ensure L cfg st = (True, v))"
| "explained L J cfg cs pc v \<longleftrightarrow>
     (\<exists>xs. fold (publisher_exec L J cfg) xs publisher_start = v \<and> filter is_call xs = cs)"

lemma held_call: "is_call x \<Longrightarrow> held L J cfg cs t xs ps st \<Longrightarrow> held L J cfg (cs @ [x]) t xs (ps @ [x]) (call cfg x st)"
  by (auto simp: held_def)

text \<open>When the iteration ends, it moves in front of the calls that came in the meantime.\<close>

lemma held_finish:
  assumes "held L J cfg cs t xs ps st" "ensure L cfg st = (ok, st')"
    and "v = (if ok then send_task L J rand_bytes now_ms t st' else give_up cfg t st')"
  shows "\<exists>xs. fold (publisher_exec L J cfg) xs publisher_start = v \<and> filter is_call xs = cs"
proof -
  from assms(1) obtain b pub met q where h: "cs = filter is_call xs @ ps" "\<forall>x \<in> set ps. is_call x"
    "fold (publisher_exec L J cfg) xs publisher_start = (b, pub, met)" "m_running pub" "m_queue pub = t # q"
    "st = fold (call cfg) ps (b, pub\<lparr>m_queue := q\<rparr>, met)" by (auto simp: held_def)
  obtain ok0 st0 where E: "ensure L cfg (b, pub\<lparr>m_queue := q\<rparr>, met) = (ok0, st0)" by (rule prod.exhaust)
  with assms(2) h(6) have "ok = ok0" "st' = fold (call cfg) ps st0" by (simp_all add: calls_commute)
  with assms(3) E Run_iteration_parts [OF h(4,5), of L J cfg rand_bytes now_ms b met]
  have "v = fold (call cfg) ps (Publisher.Run_iteration L J cfg rand_bytes now_ms (b, pub, met))"
    by (simp add: calls_commute)
  then have "fold (publisher_exec L J cfg) (xs @ [EvRun rand_bytes now_ms] @ ps) publisher_start = v"
    by (simp add: h(3) calls_exec [OF h(2)])
  moreover have "filter is_call (xs @ [EvRun rand_bytes now_ms] @ ps) = cs"
    using h(2) by (simp add: h(1) filter_id_conv)
  ultimately show ?thesis by blast
qed

definition threads_ok :: "'j pub_threads \<Rightarrow> bool" where
  "threads_ok s \<longleftrightarrow> (pt_pc s = Stopped \<longleftrightarrow> \<not> m_running (pt_pub s) \<and> \<not> pt_joining s) \<and>
     \<not> (m_running (pt_pub s) \<and> pt_joining s)"

lemma explained_idle:
  assumes "explained L J cfg cs pc v" "\<forall>t. pc \<noteq> Holding t \<and> pc \<noteq> Sending t"
  obtains xs where "fold (publisher_exec L J cfg) xs publisher_start = v" "filter is_call xs = cs"
  using assms by (cases pc) auto

lemma idle_explained:
  assumes "fold (publisher_exec L J cfg) xs publisher_start = v" "filter is_call xs = cs"
    and "\<forall>t. pc \<noteq> Holding t \<and> pc \<noteq> Sending t"
  shows "explained L J cfg cs pc v"
  using assms by (cases pc) auto

text \<open>A step outside of an iteration that is the event \<open>x\<close> of the history, or none.\<close>

lemma explained_event:
  assumes "explained L J cfg cs pc v" "\<forall>t. pc \<noteq> Holding t \<and> pc \<noteq> Sending t" "\<not> is_call x"
    and "publisher_exec L J cfg x v = v'" "\<forall>t. pc' \<noteq> Holding t \<and> pc' \<noteq> Sending t"
  shows "explained L J cfg cs pc' v'"
proof -
  obtain xs where "fold (publisher_exec L J cfg) xs publisher_start = v" "filter is_call xs = cs"
    by (rule explained_idle [OF assms(1,2)])
  with assms(3,4) show ?thesis by (intro idle_explained [OF _ _ assms(5), of _ _ _ "xs @ [x]"]) simp_all
qed

lemma explained_same:
  assumes "explained L J cfg cs pc v" "\<forall>t. pc \<noteq> Holding t \<and> pc \<noteq> Sending t"
    and "\<forall>t. pc' \<noteq> Holding t \<and> pc' \<noteq> Sending t"
  shows "explained L J cfg cs pc' v"
  using explained_idle [OF assms(1,2)] idle_explained [OF _ _ assms(3)] by metis

lemma explained_call:
  assumes "is_call x" "explained L J cfg cs pc v"
  shows "explained L J cfg (cs @ [x]) pc (call cfg x v)"
proof (cases "\<forall>t. pc \<noteq> Holding t \<and> pc \<noteq> Sending t")
  case True
  obtain xs where "fold (publisher_exec L J cfg) xs publisher_start = v" "filter is_call xs = cs"
    by (rule explained_idle [OF assms(2) True])
  with assms(1) show ?thesis by (intro idle_explained [OF _ _ True, of _ _ _ "xs @ [x]"]) (simp_all add: call_exec)
next
  case False
  then consider t where "pc = Holding t" | t where "pc = Sending t" by blast
  then show ?thesis
  proof cases
    case (1 t)
    with assms(2) obtain xs ps where "held L J cfg cs t xs ps v" by auto
    with held_call [OF assms(1) this] 1 show ?thesis by auto
  next
    case (2 t)
    with assms(2) obtain xs ps st where "held L J cfg cs t xs ps st" "ensure L cfg st = (True, v)" by auto
    with held_call [OF assms(1) this(1)]
    have "held L J cfg (cs @ [x]) t xs (ps @ [x]) (call cfg x st) \<and> ensure L cfg (call cfg x st) = (True, call cfg x v)"
      by (simp add: ensure_call)
    then have "explained L J cfg (cs @ [x]) (Sending t) (call cfg x v)" unfolding explained.simps by blast
    with 2 show ?thesis by simp
  qed
qed

lemma view_start: "thread_view pub_threads_start = publisher_start"
  by (simp add: thread_view_def pub_threads_start_def publisher_start_def new_MqPublisher_def)

lemma view_call:
  assumes "Publisher.Publish cfg rk pl pr (pt_pub s, pt_met s) = (ok, pub, met)"
  shows "thread_view (s\<lparr>pt_pub := pub, pt_met := met\<rparr>) = call cfg (EvPublish rk pl pr) (thread_view s)"
    "m_running pub = m_running (pt_pub s)"
  using assms by (auto simp: thread_view_def call_def Publisher.Publish_def split: if_splits)

text \<open>The steps of the simulation, one lemma for each that is more than a change of the program counter.\<close>

lemma launch_explained:
  assumes "explained L J cfg cs (pt_pc s) (thread_view s)" "threads_ok s" "pt_pc s = Stopped"
    and "s' = s\<lparr>pt_pub := (pt_pub s)\<lparr>m_running := True\<rparr>, pt_pc := Looping,
      pt_backoff := mq_reconnect_initial_backoff_ms cfg\<rparr>"
  shows "explained L J cfg cs Looping (thread_view s')"
proof -
  have "publisher_exec L J cfg EvStart (thread_view s) = thread_view s'"
    using assms(2-4) by (simp add: thread_view_def Publisher.Start_def threads_ok_def)
  with assms(1,3) show ?thesis
    using explained_event [of L J cfg cs Stopped "thread_view s" EvStart "thread_view s'" Looping] by simp
qed

lemma join_explained:
  assumes "explained L J cfg cs (pt_pc s) (thread_view s)" "threads_ok s" "pt_pc s = Finished" "pt_joining s"
    and "s' = s\<lparr>pt_pub := (pt_pub s)\<lparr>m_client := Close L (m_client (pt_pub s))\<rparr>, pt_pc := Stopped, pt_joining := False\<rparr>"
  shows "explained L J cfg cs Stopped (thread_view s')"
proof -
  have "publisher_exec L J cfg EvStop (thread_view s) = thread_view s'"
    using assms(2,4,5) by (simp add: thread_view_def Publisher.Stop_def threads_ok_def)
  with assms(1,3) show ?thesis
    using explained_event [of L J cfg cs Finished "thread_view s" EvStop "thread_view s'" Stopped] by simp
qed

lemma pop_explained:
  assumes "explained L J cfg cs (pt_pc s) (thread_view s)" "threads_ok s" "pt_pc s = Locking"
    and "pop_task (pt_pub s) = (Some t, pub)" "s' = s\<lparr>pt_pub := pub, pt_pc := Holding t\<rparr>"
  shows "explained L J cfg cs (Holding t) (thread_view s')" "m_running pub = m_running (pt_pub s)"
proof -
  obtain q where q: "m_queue (pt_pub s) = t # q" "pub = (pt_pub s)\<lparr>m_queue := q\<rparr>"
    using assms(4) by (auto simp: pop_task_def split: list.splits)
  obtain xs where "fold (publisher_exec L J cfg) xs publisher_start = thread_view s" "filter is_call xs = cs"
    using explained_idle [OF assms(1)] assms(3) by auto
  moreover have "m_running (pt_pub s) \<or> pt_joining s" using assms(2,3) by (simp add: threads_ok_def)
  ultimately have "held L J cfg cs t xs [] (thread_view s')"
    by (simp add: held_def thread_view_def q assms(5))
  then show "explained L J cfg cs (Holding t) (thread_view s')" by auto
  show "m_running pub = m_running (pt_pub s)" by (simp add: q)
qed

lemma give_up_explained:
  assumes "explained L J cfg cs (pt_pc s) (thread_view s)" "pt_pc s = Holding t"
    and "EnsureConnected L cfg (pt_pub s, pt_met s) = (False, pub1, met1)"
      "give_up cfg t (pt_backoff s, pub1, met1) = (b, pub, met)"
    and "s' = s\<lparr>pt_pub := pub, pt_met := met, pt_backoff := b, pt_pc := Looping\<rparr>"
  shows "explained L J cfg cs Looping (thread_view s')" "m_running pub = m_running (pt_pub s)"
proof -
  let ?pub1 = "pub1\<lparr>m_running := m_running (pt_pub s) \<or> pt_joining s\<rparr>"
  from assms(1,2) obtain xs ps where h: "held L J cfg cs t xs ps (thread_view s)" by auto
  have run: "m_running pub1 = m_running (pt_pub s)" using EnsureConnected_frame(2) [OF assms(3)] .
  have E: "ensure L cfg (thread_view s) = (False, pt_backoff s, ?pub1, met1)"
    by (simp add: ensure_def thread_view_def EnsureConnected_queue(3) [OF assms(3)])
  have "thread_view s' = (if False then send_task L J None 0 t (pt_backoff s, ?pub1, met1)
      else give_up cfg t (pt_backoff s, ?pub1, met1))"
    using assms(4,5) run by (auto simp: give_up_def thread_view_def)
  from held_finish [OF h E this] show "explained L J cfg cs Looping (thread_view s')" by auto
  show "m_running pub = m_running (pt_pub s)" using assms(4) run by (auto simp: give_up_def)
qed

lemma connect_explained:
  assumes "explained L J cfg cs (pt_pc s) (thread_view s)" "pt_pc s = Holding t"
    and "EnsureConnected L cfg (pt_pub s, pt_met s) = (True, pub, met)"
    and "s' = s\<lparr>pt_pub := pub, pt_met := met, pt_backoff := mq_reconnect_initial_backoff_ms cfg, pt_pc := Sending t\<rparr>"
  shows "explained L J cfg cs (Sending t) (thread_view s')" "m_running pub = m_running (pt_pub s)"
proof -
  from assms(1,2) obtain xs ps where h: "held L J cfg cs t xs ps (thread_view s)" by auto
  show run: "m_running pub = m_running (pt_pub s)" using EnsureConnected_frame(2) [OF assms(3)] .
  have "ensure L cfg (thread_view s) = (True, thread_view s')"
    by (simp add: ensure_def thread_view_def EnsureConnected_queue(3) [OF assms(3)] run assms(4))
  with h show "explained L J cfg cs (Sending t) (thread_view s')" unfolding explained.simps by blast
qed

lemma send_explained:
  assumes "explained L J cfg cs (pt_pc s) (thread_view s)" "pt_pc s = Sending t"
    and "send_task L J rand_bytes now_ms t (pt_backoff s, pt_pub s, pt_met s) = (b, pub, met)"
    and "s' = s\<lparr>pt_pub := pub, pt_met := met, pt_backoff := b, pt_pc := Looping\<rparr>"
  shows "explained L J cfg cs Looping (thread_view s')" "m_running pub = m_running (pt_pub s)"
proof -
  from assms(1,2) obtain xs ps st where h: "held L J cfg cs t xs ps st" "ensure L cfg st = (True, thread_view s)" by auto
  have S: "thread_view s' = (if True then send_task L J rand_bytes now_ms t (thread_view s)
      else give_up cfg t (thread_view s))" "m_running pub = m_running (pt_pub s)"
    using assms(3,4) by (auto simp: send_task_def thread_view_def Let_def split: prod.splits if_splits)
  from held_finish [OF h S(1)] show "explained L J cfg cs Looping (thread_view s')" by auto
  show "m_running pub = m_running (pt_pub s)" by (rule S(2))
qed

lemma pub_runs_explained:
  assumes "pub_runs L J cfg cs s"
  shows "explained L J cfg cs (pt_pc s) (thread_view s) \<and> threads_ok s"
  using assms
proof (induction rule: pub_runs.induct)
  case init
  have "explained L J cfg [] Stopped (thread_view pub_threads_start)"
    by (intro idle_explained [of L J cfg "[]"]) (simp_all add: view_start)
  then show ?case by (simp add: threads_ok_def pub_threads_start_def new_MqPublisher_def)
next
  case (called cs s rk pl pr ok pub met)
  note V = view_call [OF called.hyps(2)]
  from called explained_call [of "EvPublish rk pl pr"] show ?case by (simp add: V threads_ok_def)
next
  case (launched cs s)
  with launch_explained [of L J cfg cs s] show ?case by (simp add: threads_ok_def)
next
  case (tested cs s)
  with explained_same [of L J cfg cs Looping "thread_view s"] show ?case by (auto simp: threads_ok_def thread_view_def)
next
  case (found_empty cs s pub)
  then have "pub = pt_pub s" by (auto simp: pop_task_def split: list.splits)
  then have "thread_view (s\<lparr>pt_pub := pub, pt_pc := Looping\<rparr>) = thread_view s" by (simp add: thread_view_def)
  moreover have "explained L J cfg cs Looping (thread_view s)" using found_empty by simp
  ultimately show ?case using found_empty \<open>pub = pt_pub s\<close> by (simp add: threads_ok_def)
next
  case (popped cs s t pub)
  with pop_explained [of L J cfg cs s t pub] show ?case by (simp add: threads_ok_def)
next
  case (unconnected cs s t pub1 met1 b pub met)
  with give_up_explained [OF unconnected.IH [THEN conjunct1] unconnected.hyps(2-4) refl] show ?case by (simp add: threads_ok_def)
next
  case (connected cs s t pub met)
  with connect_explained [OF connected.IH [THEN conjunct1] connected.hyps(2,3) refl] show ?case by (simp add: threads_ok_def)
next
  case (sent cs s t rand_bytes now_ms b pub met)
  with send_explained [OF sent.IH [THEN conjunct1] sent.hyps(2,3) refl] show ?case by (simp add: threads_ok_def)
next
  case (stopping cs s)
  then have "thread_view (s\<lparr>pt_pub := (pt_pub s)\<lparr>m_running := False\<rparr>, pt_joining := True\<rparr>) = thread_view s"
    by (simp add: thread_view_def)
  with stopping show ?case by (simp add: threads_ok_def)
next
  case (joined cs s)
  with join_explained [of L J cfg cs s] show ?case by (simp add: threads_ok_def)
qed

text \<open>
  C10. Taking an iteration of the publisher's thread as a whole loses nothing. However the calls of \<open>Publish\<close>,
  the thread's steps inside and outside the lock, and the two halves of \<open>Stop\<close> interleave: whenever the
  thread holds no task, queue, connection, backoff and every counter are exactly those of some history
  of whole iterations with the same calls of \<open>Publish\<close> in the same order; so the messages the broker got
  carry a subsequence of the accepted tasks. And the queue is within its capacity at every step.
\<close>

theorem publisher_threads_refine:
  assumes "pub_runs L J cfg cs s"
  shows "length (m_queue (pt_pub s)) \<le> queue_capacity cfg \<and>
    ((\<forall>t. pt_pc s \<noteq> Holding t \<and> pt_pc s \<noteq> Sending t) \<longrightarrow>
     (\<exists>xs. filter is_call xs = cs \<and> fold (publisher_exec L J cfg) xs publisher_start = thread_view s \<and>
        (\<exists>sent. list_all2 (carries J) (published (m_client (pt_pub s))) sent \<and>
           subseq sent (gathered (publisher_exec L J cfg) (accepts cfg) xs publisher_start))))"
proof -
  have "length (m_queue (pt_pub s)) \<le> queue_capacity cfg"
    using assms
  proof (induction rule: pub_runs.induct)
    case init
    show ?case by (simp add: pub_threads_start_def new_MqPublisher_def)
  qed (auto simp: Publisher.Publish_def pop_task_def give_up_def send_task_def Let_def EnsureConnected_frame(1)
      split: if_splits list.splits prod.splits)
  moreover have "\<exists>xs. filter is_call xs = cs \<and> fold (publisher_exec L J cfg) xs publisher_start = thread_view s \<and>
        (\<exists>sent. list_all2 (carries J) (published (m_client (pt_pub s))) sent \<and>
           subseq sent (gathered (publisher_exec L J cfg) (accepts cfg) xs publisher_start))"
    if "\<forall>t. pt_pc s \<noteq> Holding t \<and> pt_pc s \<noteq> Sending t"
  proof -
    note idle = that
    from pub_runs_explained [OF assms] obtain xs where xs:
      "fold (publisher_exec L J cfg) xs publisher_start = thread_view s" "filter is_call xs = cs"
      using explained_idle [OF _ idle] by blast
    from fifo_history [OF refl, of L J cfg xs] obtain sent where
      sent: "list_all2 (carries J) (published (client (thread_view s))) sent"
        "subseq sent (gathered (publisher_exec L J cfg) takes xs publisher_start)"
      and all: "gathered (publisher_exec L J cfg) (accepts cfg) xs publisher_start =
        gathered (publisher_exec L J cfg) takes xs publisher_start @ queued (thread_view s)" by (auto simp: xs)
    from sent(2) have "subseq sent (gathered (publisher_exec L J cfg) (accepts cfg) xs publisher_start)"
      unfolding all by (rule list_emb_prefix)
    with xs sent(1) show ?thesis by (auto simp: thread_view_def client_def)
  qed
  ultimately show ?thesis by blast
qed

theorem publisher_threads_refine_witness:
  "\<exists>s. pub_runs (accepting no_message) (ref_json []) demo_mq [EvPublish ''b'' (JObj []) 0] s \<and>
     pt_pc s = Looping \<and> length (m_queue (pt_pub s)) \<le> queue_capacity demo_mq"
proof -
  let ?L = "accepting no_message" and ?J = "ref_json []"
  obtain ok pub met where P: "Publisher.Publish demo_mq ''b'' (JObj []) 0
      (pt_pub (pub_threads_start :: json pub_threads), pt_met (pub_threads_start :: json pub_threads)) =
      (ok, pub, met)" by (rule prod_cases3)
  let ?s = "(pub_threads_start :: json pub_threads)\<lparr>pt_pub := pub, pt_met := met\<rparr>"
  have r: "pub_runs ?L ?J demo_mq [EvPublish ''b'' (JObj []) 0] ?s"
    using pub_runs.called [OF pub_runs.init P] by simp
  have "\<not> m_running (pt_pub ?s)" "pt_pc ?s = Stopped"
    using P by (auto simp: pub_threads_start_def Publisher.Publish_def new_MqPublisher_def split: if_splits)
  note l = pub_runs.launched [OF r this]
  from l publisher_threads_refine [OF l] show ?thesis by fastforce
qed

end
