(* ===== verification/Spec2Isabelle.thy ===== *)
theory Spec2Isabelle
  imports Rfc4648 Answers Presence Provenance Rate_Limit Token_Race Publisher_Threads
begin

text \<open>
  A verification library for \<open>flz_chat\<close>, the long-lived-connection service of a chat system. Clients
  connect over WebSocket and authenticate with a token; what they send goes through a RabbitMQ exchange
  to the business service, and what the business service sends back through a queue is pushed to the
  connections of the users that it concerns. The model covers the C++ sources under \<open>src/chat\<close>. This theory
  only gathers the others; the properties stand in the theories of their components.

  \<^bold>\<open>The program and how its parts interact.\<close> \<open>MyModule\<close> (\<open>my_module.cc\<close>) is loaded by the framework: it
  reads the configuration, registers a metrics page and the chat servlet, starts the two broker threads and
  a timer. \<open>ChatWSServlet\<close> (\<open>chat_servlet.cc\<close>) has three callbacks. \<open>onConnect\<close> verifies the token
  (\<open>auth/jwt.cc\<close>), registers the connection (\<open>session/session_registry.cc\<close>), kicks out those that it
  replaces or that exceed the device limit, and announces a first connection. \<open>handle\<close> checks the rate,
  parses a frame (\<open>protocol.cc\<close>) and dispatches it; \<open>dispatch/ws_to_mq.cc\<close> turns a message into a task for the
  publisher and remembers the send. \<open>onClose\<close> unregisters and announces a last disconnection. The
  publisher's thread (\<open>mq/publisher.cc\<close>) takes the tasks from a bounded queue, wraps them into envelopes
  (\<open>mq/envelope.cc\<close>) and publishes them through \<open>mq/amqp_client.cc\<close>. The consumer's thread
  (\<open>mq/consumer.cc\<close>) takes deliveries, drops duplicates (\<open>util/lru_idempotency.cc\<close>), has each envelope handled
  on an IO manager (\<open>dispatch/mq_to_ws.cc\<close>) and acknowledges or rejects it. Handlers push frames by
  scheduling a closure on the IO manager of each connection, or directly where there is none.

  \<^bold>\<open>Theories, in the order of their imports.\<close>

  \<^item> \<open>Prelude\<close>: machine integers (\<open>u64\<close>, \<open>i64\<close>, \<open>i32\<close>), unordered maps as association lists, decimal
    printing, and the interfaces as locales: \<open>preserved\<close> (operations that keep an invariant),
    \<open>bounded_fifo\<close> (a bounded queue inside a larger state) and \<open>dedup\<close> (a filter that lets a key through
    once). The locale \<open>consumer_handler\<close> (what a message handler has to keep) stands in
    \<open>Consumer\<close>. Each is interpreted on the model's own definitions where those are
    declared; \<open>consumer_handler\<close> is interpreted in \<open>System\<close>, \<open>Threads\<close>, \<open>Presence\<close>,
    \<open>Provenance\<close> and \<open>Rate_Limit\<close> on the handler that \<open>startMq\<close> installs.
  \<^item> \<open>Json_Lib\<close>: the JSON library, a record of operations with its documented laws \<open>json_laws\<close>.
    \<open>Ref_Json\<close> and \<open>Rfc4648\<close> are concrete libraries for the witnesses only.
  \<^item> \<open>Lru_Idempotency\<close>, \<open>Time_Util\<close>, \<open>Uuid\<close>, \<open>Base64url\<close>, \<open>Config\<close>, \<open>Jwt\<close>, \<open>Protocol\<close>, \<open>Envelope\<close>,
    \<open>Session_Registry\<close>, \<open>Metrics\<close>, \<open>Amqp_Client\<close> (with \<open>topology.cc\<close>), \<open>Publisher\<close>, \<open>Consumer\<close>: one
    component each, under the names of the code. A class is a record of its members, a method a
    function that returns the new record; a raised exception is \<open>None\<close>, an error that the code returns
    is \<open>Inl\<close> of its text or the boolean of the code with the text beside it.
  \<^item> \<open>Service\<close>: the state that the callbacks share (\<open>service\<close>): the heap of connection objects, the
    registry, the pending sends, the publisher, the metrics, the closures scheduled and not yet run, and
    what was done to the sessions.
  \<^item> \<open>Ws_To_Mq\<close>, \<open>Mq_To_Ws\<close>, \<open>Chat_Servlet\<close>, \<open>My_Module\<close>: the two dispatchers, the servlet's callbacks
    and the module, on that state.
  \<^item> \<open>System\<close>: the process as a step relation. An event is a callback, a closure that runs, a tick, a turn
    of a broker thread, a handler that finishes late, a start or a stop; \<open>reaches\<close> collects the states
    that a history of events leads to, and \<open>system_inv\<close> is the invariant that every event keeps.
  \<^item> \<open>Sections\<close>: \<open>onConnect\<close>, \<open>onClose\<close> and \<open>handle\<close> (with \<open>HandleMsgSend\<close> and \<open>HandleMsgAck\<close>) cut at their
    accesses to the registry, the buckets, the pending map and the queue. \<open>Threads\<close>: any number of threads that
    interleave these sections with each other and with the other events (\<open>interleaves\<close>). The message handlers
    of \<open>mq_to_ws.cc\<close> run whole there, and \<open>ConsumeToken\<close> is one section.
  \<^item> On these interleavings: \<open>Races\<close>, histories that undo another thread's work; \<open>Pending\<close>, the actions that
    can end a pending send; \<open>Answers\<close>, from a pending send to its answer; \<open>Provenance\<close>, the event behind
    every pending send and every queued message; \<open>Rate_Limit\<close>, the frames of a history that were served or turned
    away with the 429 error, as their effect on the service shows, and the budget of each connection.
    \<open>Presence\<close>: the announcements of a history of whole callbacks, and what the broker concludes from them.
  \<^item> \<open>Publisher_Threads\<close>: the publisher's thread with its steps inside and outside the lock.
    \<open>Token_Race\<close>: \<open>ConsumeToken\<close> one atomic access at a time.

  \<^bold>\<open>What the lemmas show.\<close> For each component: the invariant of its state and that each operation
  keeps it (\<open>lru_wf\<close>, \<open>registry_wf\<close>, \<open>counters_wf\<close>, \<open>amqp_inv\<close>, \<open>service_wf\<close>, \<open>consumer_cache\<close>, collected in
  \<open>system_inv\<close>); the behaviour of each operation on its branches; and where there is a simpler account of
  what a component promises, that it is met: \<open>mark_spec\<close> for the cache, \<open>token_accepted\<close> for the verifier,
  the audience of a message for the handlers of \<open>mq_to_ws.cc\<close>, the cumulative histogram for the rendered one,
  whole iterations for the interleaved publisher, whole handlers for their sections. Across
  components: a stored message reaches every connection of every receiver once the scheduled closures
  have run (\<open>drain\<close>, which is itself a history of the process, \<open>drain_reached\<close>); what the publisher accepted reaches
  the broker, with its payload and in order, as long as the broker accepts it (\<open>publisher_drains\<close>); whatever
  handler is installed, it is handed a message once a day, which a handler that records its calls shows
  (\<open>recording\<close>, \<open>handed_over\<close>); nobody is served without a valid token and the
  limits hold, under every interleaving; whatever waits for an answer or for the broker was caused by a
  session of the user that it names; a pending send stays until one of five named actions ends it, and is
  answered on its device with its own sequence number when the stored message is handled before that; a
  connection's served frames stay within its rate; the announced presence is right as long as callbacks
  do not interleave and the queue has room whenever a session connects or closes. Where the code does not do what it means to do, a theorem says what it does instead:
  a message that is requeued is lost (\<open>Consumer\<close>), a late close unregisters a newer session
  (\<open>Chat_Servlet\<close>), a late announcement or a refused send undoes another thread's work (\<open>Races\<close>), one
  token lets several frames through (\<open>Token_Race\<close>), a bad receiver ends the fan-out (\<open>Mq_To_Ws\<close>).

  \<^bold>\<open>Integers, loops and bounds.\<close> \<open>uint64_t\<close> values are words and wrap; signed values are integers, and
  each sum or product that the code forms passes through \<open>i64\<close> or \<open>i32\<close>. A theorem that needs a
  range says so (clock readings within \<open>2 ^ 62\<close>, fewer than \<open>2 ^ 31\<close> devices). Every loop of the code terminates here
  as a total function, by recursion on the list it walks or on a measure (the eviction loop of \<open>Add\<close>, \<open>Sweep\<close>,
  the padding loops); no fuel is used there. The threads' endless loops are one iteration at a time, under histories
  of any length. \<open>run_sections\<close> and \<open>token_steps\<close> count sections and accesses: five sections after
  the first end every callback (\<open>uninterrupted_is_whole\<close>) and six accesses every call (\<open>token_steps_alone\<close>).

  \<^bold>\<open>Parameters.\<close> Code that is not in the repository is a parameter of the definitions that use it: the JSON library
  (\<open>json_lib\<close>), OpenSSL's HMAC and comparison and the framework's base64 (\<open>crypto_lib\<close>), the RabbitMQ C library, which
  may answer each call as it likes given all calls before (\<open>amqp_lib\<close>), the framework's requests
  (\<open>http_lib\<close>) and servers (\<open>app_lib\<close>). Clock readings, random bytes and the thread's IO manager are
  arguments. What a property relies on is a hypothesis (\<open>json_laws\<close>, \<open>memcmp_law\<close>, \<open>http_laws\<close>), with a
  witness in which concrete functions meet it.

  \<^bold>\<open>Not modelled.\<close> Logging, except where a logged expression can throw (\<open>HandleMsgRead\<close>); sleeping and
  the condition variable, which only delay a step; the singletons' \<open>GetInstance\<close>, whose state is passed
  explicitly; constructors that only name an object, \<open>onServerUp\<close>, \<open>CreateModule\<close> and
  \<open>DestoryModule\<close>, which log, allocate or free; \<open>AmqpClient\<close>'s destructor, as the clients are members of
  singletons; \<open>ToBytes\<close> and \<open>AmqpBytesToString\<close>, which convert between string types; the
  framework's YAML loading behind \<open>Config::Lookup\<close>; the memory of released connection objects, which
  shared pointers keep alive as long as anyone holds them. Data races on the members of the
  framework's sessions are outside, and so are two concurrent calls of \<open>Start\<close> or \<open>Stop\<close>, which the
  module makes from one thread. The SQL files under \<open>db/\<close> belong to the business service and are read by
  no code here; the Makefile, the deployment script and the built library \<open>libflz_chat.so\<close> hold no
  program text.
\<close>

end
